(* ===== verification/Prelude.thy ===== *)
theory Prelude
  imports Main "HOL-Library.Code_Target_Nat" "HOL-Library.Char_ord" "HOL-Library.List_Lexorder"
begin

text \<open>
  Shared vocabulary of the development: byte strings, the Go string functions the program
  calls (\<open>strings.Split\<close>, \<open>CutSuffix\<close>, \<open>Cut\<close>, \<open>TrimSpace\<close>, \<open>ToLower\<close>, \<open>encoding/hex\<close>),
  error values with wrapping, and association lists that stand for Go maps and for the
  directory tree. A Go \<open>string\<close> and a Go \<open>[]byte\<close> are both sequences of bytes, so both are a
  char list here (an Isabelle character is exactly one byte).
\<close>

section \<open>Collections of facts\<close>

named_theorems go_path \<open>facts about path strings\<close>
named_theorems os_simps \<open>effects of single system calls\<close>
named_theorems os_frame \<open>what system calls leave unchanged\<close>

section \<open>Byte strings\<close>

type_synonym bytes = "char list"

abbreviation byte_val :: "char \<Rightarrow> nat" where
  "byte_val c \<equiv> of_char c"

lemma byte_val_less [simp]: "byte_val c < 256"
  using nat_of_char_less_256 by simp

definition is_digit :: "char \<Rightarrow> bool" where
  "is_digit c \<longleftrightarrow> CHR ''0'' \<le> c \<and> c \<le> CHR ''9''"

definition is_lower :: "char \<Rightarrow> bool" where
  "is_lower c \<longleftrightarrow> CHR ''a'' \<le> c \<and> c \<le> CHR ''z''"

definition is_upper :: "char \<Rightarrow> bool" where
  "is_upper c \<longleftrightarrow> CHR ''A'' \<le> c \<and> c \<le> CHR ''Z''"

subsection \<open>strings.HasPrefix, strings.CutSuffix, strings.Cut, strings.Split\<close>

definition has_prefix :: "string \<Rightarrow> string \<Rightarrow> bool" where
  "has_prefix s p \<longleftrightarrow> length p \<le> length s \<and> take (length p) s = p"

definition trim_prefix :: "string \<Rightarrow> string \<Rightarrow> string" where
  "trim_prefix s p = (if has_prefix s p then drop (length p) s else s)"

definition cut_suffix :: "string \<Rightarrow> string \<Rightarrow> string option" where
  "cut_suffix s suf =
     (let n = length s - length suf
      in if length suf \<le> length s \<and> drop n s = suf then Some (take n s) else None)"

fun cut_at :: "char \<Rightarrow> string \<Rightarrow> (string \<times> string) option" where
  "cut_at c [] = None"
| "cut_at c (x # xs) =
     (if x = c then Some ([], xs)
      else map_option (\<lambda>(a, b). (x # a, b)) (cut_at c xs))"

fun split_on :: "char \<Rightarrow> string \<Rightarrow> string list" where
  "split_on c [] = [[]]"
| "split_on c (x # xs) =
     (if x = c then [] # split_on c xs
      else (case split_on c xs of [] \<Rightarrow> [[x]] | y # ys \<Rightarrow> (x # y) # ys))"

fun join_with :: "char \<Rightarrow> string list \<Rightarrow> string" where
  "join_with c [] = []"
| "join_with c [x] = x"
| "join_with c (x # y # zs) = x @ c # join_with c (y # zs)"

lemma has_prefix_append [simp]: "has_prefix (p @ s) p"
  by (simp add: has_prefix_def)

lemma has_prefix_iff: "has_prefix s p \<longleftrightarrow> (\<exists>t. s = p @ t)"
  unfolding has_prefix_def by (metis append_eq_conv_conj append_take_drop_id le_add1 length_append)

lemma trim_prefix_append [simp]: "trim_prefix (p @ s) p = s"
  by (simp add: trim_prefix_def)

lemma cut_suffix_append [simp]: "cut_suffix (s @ suf) suf = Some s"
  by (simp add: cut_suffix_def)

lemma cut_suffix_Some_iff: "cut_suffix s suf = Some b \<longleftrightarrow> s = b @ suf"
proof
  assume "cut_suffix s suf = Some b"
  then have "drop (length s - length suf) s = suf" "b = take (length s - length suf) s"
    by (auto simp: cut_suffix_def Let_def split: if_splits)
  then show "s = b @ suf" by (metis append_take_drop_id)
qed simp

lemma cut_at_Some: "cut_at c s = Some (a, b) \<longleftrightarrow> s = a @ c # b \<and> c \<notin> set a"
proof (induction s arbitrary: a)
  case (Cons x s)
  show ?case
    by (cases a) (auto simp: Cons.IH)
qed simp

lemma split_on_not_Nil [simp]: "split_on c s \<noteq> []"
  by (cases s) (auto split: list.splits)

lemma split_on_fresh: "c \<notin> set s \<Longrightarrow> split_on c s = [s]"
  by (induction s) auto

lemma split_on_append: "c \<notin> set a \<Longrightarrow> split_on c (a @ c # b) = a # split_on c b"
  by (induction a) auto

lemma join_split [simp]: "join_with c (split_on c s) = s"
proof (induction s)
  case (Cons x s)
  show ?case
  proof (cases "split_on c s")
    case ys: (Cons y ys)
    with Cons.IH show ?thesis by (cases ys) auto
  qed simp
qed simp

lemma split_on_elem: "p \<in> set (split_on c s) \<Longrightarrow> c \<notin> set p"
  by (induction s arbitrary: p) (auto split: list.splits if_splits)

lemma split_join: "xs \<noteq> [] \<Longrightarrow> \<forall>x \<in> set xs. c \<notin> set x \<Longrightarrow> split_on c (join_with c xs) = xs"
  by (induction c xs rule: join_with.induct) (auto simp: split_on_fresh split_on_append)

subsection \<open>strings.TrimSpace and strings.ToLower on ASCII text\<close>

definition is_space :: "char \<Rightarrow> bool" where
  "is_space c \<longleftrightarrow> byte_val c \<in> {9, 10, 11, 12, 13, 32}"

definition trim_space :: "string \<Rightarrow> string" where
  "trim_space s = rev (dropWhile is_space (rev (dropWhile is_space s)))"

definition lower_char :: "char \<Rightarrow> char" where
  "lower_char c = (if is_upper c then char_of (byte_val c + 32) else c)"

definition to_lower :: "string \<Rightarrow> string" where
  "to_lower s = map lower_char s"

subsection \<open>encoding/hex\<close>

definition hex_digit :: "nat \<Rightarrow> char" where
  "hex_digit n = char_of (if n < 10 then 48 + n else 87 + n)"

definition hex_val :: "char \<Rightarrow> nat option" where
  "hex_val c =
     (if is_digit c then Some (byte_val c - 48)
      else if CHR ''a'' \<le> c \<and> c \<le> CHR ''f'' then Some (byte_val c - 87)
      else if CHR ''A'' \<le> c \<and> c \<le> CHR ''F'' then Some (byte_val c - 55)
      else None)"

fun hex_encode :: "bytes \<Rightarrow> string" where
  "hex_encode [] = []"
| "hex_encode (b # bs) =
     hex_digit (byte_val b div 16) # hex_digit (byte_val b mod 16) # hex_encode bs"

text \<open>\<open>hex.DecodeString\<close>: an odd length or a character that is no hex digit is an error.\<close>

fun hex_decode :: "string \<Rightarrow> bytes option" where
  "hex_decode [] = Some []"
| "hex_decode [c] = None"
| "hex_decode (h # l # s) =
     (case (hex_val h, hex_val l, hex_decode s) of
        (Some a, Some b, Some bs) \<Rightarrow> Some (char_of (16 * a + b) # bs)
      | _ \<Rightarrow> None)"

lemma hex_val_digit: "n < 16 \<Longrightarrow> hex_val (hex_digit n) = Some n"
  by (auto simp: hex_val_def hex_digit_def is_digit_def less_eq_char_def of_char_of)

lemma hex_decode_encode [simp]: "hex_decode (hex_encode bs) = Some bs"
proof (induction bs)
  case (Cons b bs)
  have "byte_val b < 256" by (rule byte_val_less)
  then have "byte_val b div 16 < 16" "byte_val b mod 16 < 16" by (simp_all add: div_less_iff_less_mult)
  moreover have "16 * (byte_val b div 16) + byte_val b mod 16 = byte_val b" by simp
  ultimately show ?case using Cons by (simp add: hex_val_digit)
qed simp

lemma length_hex_encode [simp]: "length (hex_encode bs) = 2 * length bs"
  by (induction bs) auto

lemma hex_encode_inj: "hex_encode a = hex_encode b \<Longrightarrow> a = b"
  by (metis hex_decode_encode option.inject)

lemma hex_decode_length: "hex_decode s = Some bs \<Longrightarrow> length s = 2 * length bs"
  by (induction s arbitrary: bs rule: hex_decode.induct) (auto split: option.splits)

text \<open>The lowercase hex digits, the alphabet in which the protocol writes digests.\<close>

definition is_lower_hex :: "char \<Rightarrow> bool" where
  "is_lower_hex c \<longleftrightarrow> is_digit c \<or> (CHR ''a'' \<le> c \<and> c \<le> CHR ''f'')"

lemma is_lower_hex_digit: "n < 16 \<Longrightarrow> is_lower_hex (hex_digit n)"
  by (auto simp: is_lower_hex_def hex_digit_def is_digit_def less_eq_char_def of_char_of)

lemma hex_encode_lower: "c \<in> set (hex_encode bs) \<Longrightarrow> is_lower_hex c"
proof (induction bs)
  case (Cons b bs)
  have "byte_val b < 256" by (rule byte_val_less)
  then have "byte_val b div 16 < 16" "byte_val b mod 16 < 16" by (simp_all add: div_less_iff_less_mult)
  with Cons show ?case by (auto simp: is_lower_hex_digit)
qed simp

lemma hex_val_lower:
  "is_lower_hex c \<Longrightarrow> \<exists>n < 16. hex_val c = Some n \<and> hex_digit n = c"
proof -
  assume c: "is_lower_hex c"
  define n where "n = (if is_digit c then byte_val c - 48 else byte_val c - 87)"
  have "n < 16 \<and> hex_val c = Some n \<and> byte_val (hex_digit n) = byte_val c"
    using c by (auto simp: n_def is_lower_hex_def is_digit_def hex_val_def hex_digit_def
        less_eq_char_def of_char_of)
  then show ?thesis by (metis char_of_char)
qed

lemma hex_encode_decode:
  "\<forall>c \<in> set s. is_lower_hex c \<Longrightarrow> hex_decode s = Some bs \<Longrightarrow> hex_encode bs = s"
proof (induction s arbitrary: bs rule: hex_decode.induct)
  case (3 h l s)
  from 3(2) obtain a b where a: "hex_val h = Some a" "a < 16" "hex_digit a = h"
    and b: "hex_val l = Some b" "b < 16" "hex_digit b = l"
    by (metis hex_val_lower list.set_intros(1) list.set_intros(2))
  with 3(3) obtain r where r: "hex_decode s = Some r" and bs: "bs = char_of (16 * a + b) # r"
    by (auto split: option.splits)
  have "(16 * a + b) mod 256 = 16 * a + b" "(16 * a + b) div 16 = a" "(16 * a + b) mod 16 = b"
    using a(2) b(2) by auto
  with 3 a b r bs show ?case by (simp add: of_char_of)
qed auto

lemma hex_decode_total:
  "\<forall>c \<in> set s. is_lower_hex c \<Longrightarrow> even (length s) \<Longrightarrow> \<exists>bs. hex_decode s = Some bs"
proof (induction s rule: hex_decode.induct)
  case (3 h l s)
  then obtain a b where "hex_val h = Some a" "hex_val l = Some b"
    by (metis hex_val_lower list.set_intros(1) list.set_intros(2))
  with 3 show ?case by auto
qed auto

section \<open>Error values\<close>

text \<open>
  A Go error is a value: a sentinel, a kernel error number, a message, or a message that wraps
  another error (\<open>fmt.Errorf\<close> with \<open>%w\<close>). \<open>errors.Is\<close> walks the chain. The text of a message is
  cut to its constant part; nothing in the program branches on the text.
\<close>

datatype err =
    ENOENT | EEXIST | ENOSPC | EIO | EINVAL | ENOTDIR | EISDIR | ENOTEMPTY | ELOOP
  | Canceled | DeadlineExceeded
  | Sentinel string
  | Msg string
  | Wrap string err

fun errors_Is :: "err \<Rightarrow> err \<Rightarrow> bool" where
  "errors_Is (Wrap m e) t = (Wrap m e = t \<or> errors_Is e t)"
| "errors_Is e t = (e = t)"

lemma errors_Is_refl [simp]: "errors_Is e e"
  by (cases e) auto

section \<open>Association lists for Go maps and directories\<close>

fun put :: "'k \<Rightarrow> 'v \<Rightarrow> ('k \<times> 'v) list \<Rightarrow> ('k \<times> 'v) list" where
  "put k v [] = [(k, v)]"
| "put k v ((k', v') # m) = (if k' = k then (k, v) # m else (k', v') # put k v m)"

definition del :: "'k \<Rightarrow> ('k \<times> 'v) list \<Rightarrow> ('k \<times> 'v) list" where
  "del k m = filter (\<lambda>e. fst e \<noteq> k) m"

abbreviation keys :: "('k \<times> 'v) list \<Rightarrow> 'k set" where
  "keys m \<equiv> fst ` set m"

definition wf_map :: "('k \<times> 'v) list \<Rightarrow> bool" where
  "wf_map m \<longleftrightarrow> distinct (map fst m)"

lemma map_of_put [simp]: "map_of (put k v m) = (map_of m)(k \<mapsto> v)"
  by (induction m) (auto simp: fun_eq_iff)

lemma map_of_del [simp]: "map_of (del k m) = (map_of m)(k := None)"
  by (induction m) (auto simp: del_def fun_eq_iff)

lemma keys_put [simp]: "keys (put k v m) = insert k (keys m)"
proof -
  have "dom (map_of (put k v m)) = insert k (dom (map_of m))" by simp
  then show ?thesis by (simp only: dom_map_of_conv_image_fst)
qed

lemma keys_del [simp]: "keys (del k m) = keys m - {k}"
  by (auto simp: del_def)

lemma wf_map_Nil [simp]: "wf_map []"
  by (simp add: wf_map_def)

lemma wf_map_put [simp]: "wf_map m \<Longrightarrow> wf_map (put k v m)"
proof (induction m)
  case (Cons e m)
  obtain k' v' where e: "e = (k', v')" by force
  have "keys (put k v m) = insert k (keys m)" by simp
  with Cons e show ?case by (auto simp: wf_map_def)
qed (simp add: wf_map_def)

lemma wf_map_del [simp]: "wf_map m \<Longrightarrow> wf_map (del k m)"
  by (simp add: wf_map_def del_def distinct_map_filter)

lemma map_of_in_wf: "wf_map m \<Longrightarrow> map_of m k = Some v \<longleftrightarrow> (k, v) \<in> set m"
  by (simp add: wf_map_def map_of_eq_Some_iff)

lemma length_put: "length (put k v m) = (if k \<in> keys m then length m else Suc (length m))"
proof (induction m)
  case (Cons e m)
  obtain k' v' where "e = (k', v')" by force
  with Cons show ?case by simp
qed simp

lemma map_of_None_keys: "map_of m k = None \<longleftrightarrow> k \<notin> keys m"
  by (simp add: map_of_eq_None_iff)

end
