(* ===== verification/Artifact.thy ===== *)
theory Artifact
  imports Prelude
begin

text \<open>
  The artifact key of \<open>pkg/protocol/artifact.go\<close>: the coordinate (name, os, arch) of a
  publication track, its canonical string form, its parser and the validation that bounds the
  charset. The lemmas show that printing and parsing are inverse on valid keys, and that a valid
  key can never be read as a path traversal.
\<close>

section \<open>The key and its string form\<close>

record artifact_key =
  kName :: string
  kOS :: string
  kArch :: string

definition MaxArtifactNameLen :: nat where "MaxArtifactNameLen = 64"
definition MaxArtifactOSLen :: nat where "MaxArtifactOSLen = 32"
definition MaxArtifactArchLen :: nat where "MaxArtifactArchLen = 32"

definition ErrEmptyArtifactKey :: err where
  "ErrEmptyArtifactKey = Sentinel ''artifact key is empty''"

definition key_string :: "artifact_key \<Rightarrow> string" where
  "key_string k =
     (if kOS k = '''' \<and> kArch k = '''' then kName k
      else kName k @ ''/'' @ kOS k @ ''/'' @ kArch k)"

definition key_IsZero :: "artifact_key \<Rightarrow> bool" where
  "key_IsZero k \<longleftrightarrow> kName k = '''' \<and> kOS k = '''' \<and> kArch k = ''''"

section \<open>Validation\<close>

fun artifact_name_chars :: "string \<Rightarrow> bool" where
  "artifact_name_chars [] = True"
| "artifact_name_chars (c # s) =
     (if CHR ''a'' \<le> c \<and> c \<le> CHR ''z'' then artifact_name_chars s
      else if CHR ''A'' \<le> c \<and> c \<le> CHR ''Z'' then artifact_name_chars s
      else if CHR ''0'' \<le> c \<and> c \<le> CHR ''9'' then artifact_name_chars s
      else if c = CHR ''.'' \<or> c = CHR ''_'' \<or> c = CHR ''-'' then artifact_name_chars s
      else False)"

definition validArtifactName :: "string \<Rightarrow> bool" where
  "validArtifactName s \<longleftrightarrow> (if s = ''.'' \<or> s = ''..'' then False else artifact_name_chars s)"

fun validPlatformToken :: "string \<Rightarrow> bool" where
  "validPlatformToken [] = True"
| "validPlatformToken (c # s) =
     (if CHR ''a'' \<le> c \<and> c \<le> CHR ''z'' then validPlatformToken s
      else if CHR ''0'' \<le> c \<and> c \<le> CHR ''9'' then validPlatformToken s
      else False)"

definition key_Validate :: "artifact_key \<Rightarrow> err option" where
  "key_Validate k =
     (if kName k = '''' then Some (Msg ''artifact name is required'')
      else if length (kName k) > MaxArtifactNameLen then Some (Msg ''artifact name too long'')
      else if \<not> validArtifactName (kName k) then Some (Msg ''artifact name: charset'')
      else if (kOS k = '''') \<noteq> (kArch k = '''') then
        Some (Msg ''os and arch must both be set or both empty'')
      else if kOS k \<noteq> '''' then
        (if length (kOS k) > MaxArtifactOSLen then Some (Msg ''artifact os too long'')
         else if length (kArch k) > MaxArtifactArchLen then Some (Msg ''artifact arch too long'')
         else if \<not> validPlatformToken (kOS k) then Some (Msg ''artifact os: charset'')
         else if \<not> validPlatformToken (kArch k) then Some (Msg ''artifact arch: charset'')
         else None)
      else None)"

section \<open>Parsing\<close>

definition ParseArtifactKey :: "string \<Rightarrow> err + artifact_key" where
  "ParseArtifactKey s =
     (if s = '''' then Inl ErrEmptyArtifactKey
      else
        (let check = (\<lambda>k. case key_Validate k of Some e \<Rightarrow> Inl e | None \<Rightarrow> Inr k)
         in case split_on CHR ''/'' s of
              [n] \<Rightarrow> check \<lparr>kName = n, kOS = '''', kArch = ''''\<rparr>
            | [n, os, arch] \<Rightarrow> check \<lparr>kName = n, kOS = os, kArch = arch\<rparr>
            | _ \<Rightarrow> Inl (Msg ''artifact key: wrong number of segments'')))"

section \<open>Facts\<close>

definition name_char :: "char \<Rightarrow> bool" where
  "name_char c \<longleftrightarrow> is_lower c \<or> is_upper c \<or> is_digit c \<or> c \<in> {CHR ''.'', CHR ''_'', CHR ''-''}"

definition token_char :: "char \<Rightarrow> bool" where
  "token_char c \<longleftrightarrow> is_lower c \<or> is_digit c"

lemma artifact_name_chars_iff: "artifact_name_chars s \<longleftrightarrow> list_all name_char s"
  by (induction s) (auto simp: name_char_def is_lower_def is_upper_def is_digit_def)

lemma validPlatformToken_iff: "validPlatformToken s \<longleftrightarrow> list_all token_char s"
  by (induction s) (auto simp: token_char_def is_lower_def is_digit_def)

lemma slash_not_name_char: "\<not> name_char CHR ''/''"
  by (simp add: name_char_def is_lower_def is_upper_def is_digit_def)

lemma token_char_imp_name_char: "token_char c \<Longrightarrow> name_char c"
  by (auto simp: token_char_def name_char_def)

text \<open>What a key that passes validation looks like, in one place.\<close>

definition valid_key :: "artifact_key \<Rightarrow> bool" where
  "valid_key k \<longleftrightarrow>
     kName k \<noteq> '''' \<and> length (kName k) \<le> 64 \<and> list_all name_char (kName k) \<and>
     kName k \<noteq> ''.'' \<and> kName k \<noteq> ''..'' \<and>
     ((kOS k = '''' \<and> kArch k = '''') \<or>
      (kOS k \<noteq> '''' \<and> kArch k \<noteq> '''' \<and> length (kOS k) \<le> 32 \<and> length (kArch k) \<le> 32 \<and>
       list_all token_char (kOS k) \<and> list_all token_char (kArch k)))"

lemma key_Validate_iff: "key_Validate k = None \<longleftrightarrow> valid_key k"
  by (auto simp: key_Validate_def valid_key_def MaxArtifactNameLen_def MaxArtifactOSLen_def
      MaxArtifactArchLen_def validArtifactName_def artifact_name_chars_iff validPlatformToken_iff)

lemma valid_key_no_slash:
  assumes "valid_key k"
  shows "CHR ''/'' \<notin> set (kName k)" "CHR ''/'' \<notin> set (kOS k)" "CHR ''/'' \<notin> set (kArch k)"
  using assms slash_not_name_char
  by (auto simp: valid_key_def list_all_iff dest: token_char_imp_name_char)

lemma split_key_string:
  assumes "valid_key k"
  shows "split_on CHR ''/'' (key_string k) =
    (if kOS k = '''' then [kName k] else [kName k, kOS k, kArch k])"
  using assms valid_key_no_slash [OF assms]
  by (auto simp: key_string_def valid_key_def split_on_fresh split_on_append)

lemma key_string_not_empty: "valid_key k \<Longrightarrow> key_string k \<noteq> ''''"
  by (simp add: key_string_def valid_key_def)

text \<open>
  The parser takes the canonical form, and one more: a name followed by two empty segments
  (\<open>agent//\<close>) has three segments and empty os and arch, so it passes the validation and denotes
  the platform-independent key \<open>agent\<close>.
\<close>

definition key_spelling :: "artifact_key \<Rightarrow> string \<Rightarrow> bool" where
  "key_spelling k s \<longleftrightarrow> s = key_string k \<or> (kOS k = '''' \<and> kArch k = '''' \<and> s = kName k @ ''//'')"

lemma Parse_key_spelling:
  assumes "valid_key k" "key_spelling k s"
  shows "ParseArtifactKey s = Inr k"
proof -
  have "split_on CHR ''/'' (kName k @ ''//'') = [kName k, '''', '''']"
    using valid_key_no_slash [OF assms(1)] by (simp add: split_on_append)
  moreover have "key_Validate k = None" using assms(1) by (simp add: key_Validate_iff)
  ultimately show ?thesis
    using assms split_key_string [OF assms(1)] key_string_not_empty [OF assms(1)]
    by (cases k) (auto simp: ParseArtifactKey_def key_spelling_def valid_key_def Let_def)
qed

lemma Parse_valid:
  assumes "ParseArtifactKey s = Inr k"
  shows "valid_key k \<and> key_spelling k s"
proof -
  from assms have "s \<noteq> ''''" by (auto simp: ParseArtifactKey_def)
  with assms consider
      (one) n where "split_on CHR ''/'' s = [n]" "k = \<lparr>kName = n, kOS = '''', kArch = ''''\<rparr>"
    | (three) n os ar where "split_on CHR ''/'' s = [n, os, ar]"
        "k = \<lparr>kName = n, kOS = os, kArch = ar\<rparr>"
    by (auto simp: ParseArtifactKey_def Let_def split: list.splits option.splits)
  note shape = this
  have v: "valid_key k"
    using assms \<open>s \<noteq> ''''\<close>
    by (auto simp: ParseArtifactKey_def Let_def key_Validate_iff [symmetric]
        split: list.splits option.splits)
  have "join_with CHR ''/'' (split_on CHR ''/'' s) = s" by simp
  with shape v have "key_spelling k s"
    by cases (auto simp: key_spelling_def key_string_def valid_key_def)
  with v show ?thesis by simp
qed

lemma ParseArtifactKey_iff: "ParseArtifactKey s = Inr k \<longleftrightarrow> valid_key k \<and> key_spelling k s"
  using Parse_key_spelling Parse_valid by blast

lemma Parse_key_string: "valid_key k \<Longrightarrow> ParseArtifactKey (key_string k) = Inr k"
  by (simp add: ParseArtifactKey_iff key_spelling_def)

lemma key_string_inj: "valid_key a \<Longrightarrow> valid_key b \<Longrightarrow> key_string a = key_string b \<Longrightarrow> a = b"
  by (metis Parse_key_string sum.inject(2))

lemma key_string_chars:
  assumes "valid_key k" "c \<in> set (key_string k)"
  shows "name_char c \<or> c = CHR ''/''"
  using assms by (auto simp: valid_key_def key_string_def list_all_iff
      dest: token_char_imp_name_char split: if_splits)

section \<open>Properties\<close>

text \<open>C38. The canonical string form and its parser are inverse: the parser accepts exactly the
  canonical spelling of each key that passes validation (and, for a platform-independent key, the
  spelling with two empty trailing segments), and yields that key.\<close>

theorem artifact_key_roundtrip:
  "ParseArtifactKey s = Inr k \<longleftrightarrow>
     key_Validate k = None \<and>
     (s = key_string k \<or> (kOS k = '''' \<and> kArch k = '''' \<and> s = kName k @ ''//''))"
  by (simp add: ParseArtifactKey_iff key_Validate_iff key_spelling_def)

text \<open>No key that passes validation can name a path traversal: none of the slash-separated
  segments of its string form is empty, \<open>.\<close> or \<open>..\<close>, and no character of it is a control
  character, a space, a NUL byte, a colon or a backslash.\<close>

theorem valid_key_is_safe_path:
  assumes "key_Validate k = None"
  shows "(\<forall>seg \<in> set (split_on CHR ''/'' (key_string k)). seg \<notin> {'''', ''.'', ''..''}) \<and>
         (\<forall>c \<in> set (key_string k). byte_val c > 32 \<and> byte_val c < 127 \<and> c \<noteq> CHR 0x5C \<and> c \<noteq> CHR '':'')"
proof -
  from assms have v: "valid_key k" by (simp add: key_Validate_iff)
  have tok: "list_all token_char t \<Longrightarrow> t \<noteq> ''.'' \<and> t \<noteq> ''..''" for t
    by (auto simp: token_char_def is_lower_def is_digit_def)
  have "\<forall>seg \<in> set (split_on CHR ''/'' (key_string k)). seg \<notin> {'''', ''.'', ''..''}"
    using v tok [of "kOS k"] tok [of "kArch k"]
    by (auto simp: split_key_string valid_key_def)
  moreover have "byte_val c > 32 \<and> byte_val c < 127 \<and> c \<noteq> CHR 0x5C \<and> c \<noteq> CHR '':''"
    if "c \<in> set (key_string k)" for c
    using key_string_chars [OF v that]
    by (auto simp: name_char_def is_lower_def is_upper_def is_digit_def less_eq_char_def)
  ultimately show ?thesis by blast
qed

theorem valid_key_is_safe_path_witness:
  "key_Validate \<lparr>kName = ''agent'', kOS = ''linux'', kArch = ''arm64''\<rparr> = None \<and>
   ''linux'' \<notin> {'''', ''.'', ''..''} \<and> byte_val CHR ''x'' > 32"
proof -
  have v: "key_Validate \<lparr>kName = ''agent'', kOS = ''linux'', kArch = ''arm64''\<rparr> = None"
    by code_simp
  have "''linux'' \<in> set (split_on CHR ''/'' (key_string \<lparr>kName = ''agent'', kOS = ''linux'', kArch = ''arm64''\<rparr>))"
    "CHR ''x'' \<in> set (key_string \<lparr>kName = ''agent'', kOS = ''linux'', kArch = ''arm64''\<rparr>)"
    by code_simp+
  with v valid_key_is_safe_path [OF v] show ?thesis by blast
qed

end
