(* ===== verification/Protocol.thy ===== *)
theory Protocol
  imports Artifact
begin

text \<open>
  The wire types and checks of \<open>pkg/protocol\<close>: the constants and paths (\<open>constants.go\<close>), the
  messages (\<open>messages.go\<close>), the validation at the trust boundary (\<open>validate.go\<close>) and the signed
  payload (\<open>signing.go\<close>).
\<close>

section \<open>constants.go\<close>

definition ProtocolVersion :: nat where "ProtocolVersion = 1"

definition PathHeartbeat :: string where "PathHeartbeat = ''/heartbeat''"
definition PathDelta :: string where "PathDelta = ''/delta''"
definition PathBinary :: string where "PathBinary = ''/binary''"
definition PathReport :: string where "PathReport = ''/report''"
definition PathHealth :: string where "PathHealth = ''/health''"

text \<open>A Go \<open>time.Duration\<close> counts nanoseconds.\<close>

definition Second :: int where "Second = 1000000000"
definition Minute :: int where "Minute = 60 * Second"
definition Hour :: int where "Hour = 60 * Minute"

definition DefaultChunkSize :: int where "DefaultChunkSize = 4096"

definition protocol_DeltaPath :: "string \<Rightarrow> string \<Rightarrow> string" where
  "protocol_DeltaPath fromHash toHash = PathDelta @ ''/'' @ fromHash @ ''/'' @ toHash"

definition protocol_BinaryPath :: "string \<Rightarrow> string" where
  "protocol_BinaryPath targetHash = PathBinary @ ''/'' @ targetHash"

section \<open>messages.go\<close>

record hw_info =
  hwArch :: string
  hwOS :: string
  hwFreeRAM :: nat
  hwFreeDisk :: nat

record heartbeat =
  hbDeviceID :: string
  hbVersionHash :: string
  hbHWInfo :: hw_info
  hbTimestamp :: int
  hbVersion :: string
  hbArtifact :: string

record manifest_response =
  UpdateAvailable :: bool
  TargetVersion :: string
  TargetHash :: string
  DeltaSize :: int
  DeltaHash :: string
  ChunkSize :: int
  TotalChunks :: int
  Signature :: string
  DeltaEndpoint :: string
  RetryAfter :: int
  BinaryEndpoint :: string
  TargetSize :: int
  respArtifact :: string

text \<open>The zero value of a Go struct: the fields a composite literal leaves out.\<close>

definition zero_response :: manifest_response where
  "zero_response =
     \<lparr>UpdateAvailable = False, TargetVersion = '''', TargetHash = '''', DeltaSize = 0, DeltaHash = '''',
      ChunkSize = 0, TotalChunks = 0, Signature = '''', DeltaEndpoint = '''', RetryAfter = 0,
      BinaryEndpoint = '''', TargetSize = 0, respArtifact = ''''\<rparr>"

record update_report =
  repDeviceID :: string
  repPreviousHash :: string
  repNewHash :: string
  repSuccess :: bool
  repRollbackReason :: string
  repTimestamp :: int

section \<open>validate.go\<close>

definition MaxDeviceIDLen :: nat where "MaxDeviceIDLen = 128"
definition MaxVersionLen :: nat where "MaxVersionLen = 64"
definition HashLen :: nat where "HashLen = 64"
definition MaxRollbackReasonLen :: nat where "MaxRollbackReasonLen = 512"

definition ErrInvalidMessage :: err where
  "ErrInvalidMessage = Sentinel ''invalid message''"

fun hash_chars :: "string \<Rightarrow> bool" where
  "hash_chars [] = True"
| "hash_chars (c # s) =
     (if c \<ge> CHR ''0'' \<and> c \<le> CHR ''9'' then hash_chars s
      else if c \<ge> CHR ''a'' \<and> c \<le> CHR ''f'' then hash_chars s
      else False)"

definition IsValidHash :: "string \<Rightarrow> bool" where
  "IsValidHash s \<longleftrightarrow> (if length s \<noteq> HashLen then False else hash_chars s)"

subsection \<open>Runes\<close>

text \<open>
  \<open>for _, r := range s\<close> decodes UTF-8. The decoder below follows the table of \<open>unicode/utf8\<close>:
  it returns the rune and its width, and the replacement rune with width 1 for an invalid sequence.
\<close>

definition RuneError :: nat where "RuneError = 65533"

definition cont_byte :: "nat \<Rightarrow> bool" where
  "cont_byte b \<longleftrightarrow> 128 \<le> b \<and> b \<le> 191"

definition second_ok :: "nat \<Rightarrow> nat \<Rightarrow> bool" where
  "second_ok b0 b1 \<longleftrightarrow>
     (if b0 = 224 then 160 \<le> b1 \<and> b1 \<le> 191
      else if b0 = 237 then 128 \<le> b1 \<and> b1 \<le> 159
      else if b0 = 240 then 144 \<le> b1 \<and> b1 \<le> 191
      else if b0 = 244 then 128 \<le> b1 \<and> b1 \<le> 143
      else cont_byte b1)"

definition next_rune :: "nat \<Rightarrow> nat list \<Rightarrow> nat \<times> nat" where
  "next_rune b0 rest =
     (if b0 < 128 then (b0, 1)
      else if b0 < 194 \<or> 244 < b0 then (RuneError, 1)
      else if b0 < 224 then
        (case rest of
           b1 # _ \<Rightarrow> if cont_byte b1 then ((b0 - 192) * 64 + (b1 - 128), 2) else (RuneError, 1)
         | _ \<Rightarrow> (RuneError, 1))
      else if b0 < 240 then
        (case rest of
           b1 # b2 # _ \<Rightarrow>
             if second_ok b0 b1 \<and> cont_byte b2
             then ((b0 - 224) * 4096 + (b1 - 128) * 64 + (b2 - 128), 3) else (RuneError, 1)
         | _ \<Rightarrow> (RuneError, 1))
      else
        (case rest of
           b1 # b2 # b3 # _ \<Rightarrow>
             if second_ok b0 b1 \<and> cont_byte b2 \<and> cont_byte b3
             then ((b0 - 240) * 262144 + (b1 - 128) * 4096 + (b2 - 128) * 64 + (b3 - 128), 4)
             else (RuneError, 1)
         | _ \<Rightarrow> (RuneError, 1)))"

fun printable_runes :: "nat list \<Rightarrow> bool" where
  "printable_runes [] = True"
| "printable_runes (b # bs) =
     (case next_rune b bs of
        (r, n) \<Rightarrow> if r < 32 \<or> r = 127 then False else printable_runes (drop (n - 1) bs))"

definition validPrintable :: "string \<Rightarrow> bool" where
  "validPrintable s \<longleftrightarrow> printable_runes (map of_char s)"

subsection \<open>The message checks\<close>

definition hb_Validate :: "heartbeat option \<Rightarrow> err option" where
  "hb_Validate h =
     (let bad = (\<lambda>m. Some (Wrap m ErrInvalidMessage)) in
      case h of None \<Rightarrow> bad ''nil heartbeat''
      | Some h \<Rightarrow>
        (if hbDeviceID h = '''' then bad ''device_id is required''
         else if length (hbDeviceID h) > MaxDeviceIDLen then bad ''device_id too long''
         else if \<not> validPrintable (hbDeviceID h) then bad ''device_id contains control characters''
         else if length (hbVersion h) > MaxVersionLen then bad ''version too long''
         else if \<not> validPrintable (hbVersion h) then bad ''version contains control characters''
         else if hbArtifact h \<noteq> '''' then
           (case ParseArtifactKey (hbArtifact h) of Inl _ \<Rightarrow> bad ''artifact'' | Inr _ \<Rightarrow> None)
         else None))"

text \<open>
  The two hashes of a report are checked in the iteration order of a Go map, which is random; the
  two failures differ only in the field name of the message, which is not kept here.
\<close>

definition rep_Validate :: "update_report option \<Rightarrow> err option" where
  "rep_Validate r =
     (let bad = (\<lambda>m. Some (Wrap m ErrInvalidMessage)) in
      case r of None \<Rightarrow> bad ''nil report''
      | Some r \<Rightarrow>
        (if repDeviceID r = '''' then bad ''device_id is required''
         else if length (repDeviceID r) > MaxDeviceIDLen then bad ''device_id too long''
         else if \<not> validPrintable (repDeviceID r) then bad ''device_id contains control characters''
         else if list_ex (\<lambda>h. h \<noteq> '''' \<and> \<not> IsValidHash h) [repPreviousHash r, repNewHash r]
           then bad ''not a SHA-256 hex digest''
         else if length (repRollbackReason r) > MaxRollbackReasonLen then bad ''rollback_reason too long''
         else if \<not> validPrintable (repRollbackReason r)
           then bad ''rollback_reason contains control characters''
         else None))"

section \<open>signing.go\<close>

definition ManifestSigningPayload :: "string \<Rightarrow> string \<Rightarrow> err + bytes" where
  "ManifestSigningPayload targetHashHex deltaHashHex =
     (case hex_decode targetHashHex of
        None \<Rightarrow> Inl (Wrap ''decode target hash'' (Msg ''encoding/hex''))
      | Some target \<Rightarrow>
        (case hex_decode deltaHashHex of
           None \<Rightarrow> Inl (Wrap ''decode delta hash'' (Msg ''encoding/hex''))
         | Some delta \<Rightarrow> Inr (target @ delta)))"

section \<open>Facts\<close>

lemma hash_chars_iff: "hash_chars s \<longleftrightarrow> list_all is_lower_hex s"
  by (induction s) (auto simp: is_lower_hex_def is_digit_def)

lemma IsValidHash_iff: "IsValidHash s \<longleftrightarrow> length s = 64 \<and> list_all is_lower_hex s"
  by (simp add: IsValidHash_def HashLen_def hash_chars_iff)

lemma IsValidHash_length: "IsValidHash s \<Longrightarrow> length s = 64"
  by (simp add: IsValidHash_iff)

lemma lower_hex_not_special:
  "is_lower_hex c \<Longrightarrow> c \<noteq> CHR ''/'' \<and> c \<noteq> CHR ''.'' \<and> c \<noteq> CHR ''_'' \<and> c \<noteq> CHR ''|'' \<and> c \<noteq> CHR '':''"
  by (auto simp: is_lower_hex_def is_digit_def)

lemma IsValidHash_chars:
  assumes "IsValidHash s"
  shows "CHR ''/'' \<notin> set s" "CHR ''.'' \<notin> set s" "CHR ''_'' \<notin> set s" "CHR ''|'' \<notin> set s" "s \<noteq> ''''"
  using assms lower_hex_not_special by (auto simp: IsValidHash_iff list_all_iff)

lemma IsValidHash_hex_encode: "length d = 32 \<Longrightarrow> IsValidHash (hex_encode d)"
  by (simp add: IsValidHash_iff list_all_iff hex_encode_lower)

lemma IsValidHash_decode:
  assumes "IsValidHash s"
  obtains d where "hex_decode s = Some d" "length d = 32" "hex_encode d = s"
proof -
  from assms have s: "length s = 64" "\<forall>c \<in> set s. is_lower_hex c"
    by (simp_all add: IsValidHash_iff list_all_iff)
  obtain d where d: "hex_decode s = Some d"
    using hex_decode_total [OF s(2)] s(1) by auto
  with s hex_encode_decode [OF s(2) d] hex_decode_length [OF d] that show ?thesis by simp
qed

lemma signing_payload_valid:
  assumes "IsValidHash t" "IsValidHash d"
  shows "\<exists>a b. ManifestSigningPayload t d = Inr (a @ b) \<and> length a = 32 \<and> length b = 32 \<and>
    hex_encode a = t \<and> hex_encode b = d"
proof -
  from IsValidHash_decode [OF assms(1)] obtain a
    where "hex_decode t = Some a" "length a = 32" "hex_encode a = t" .
  moreover from IsValidHash_decode [OF assms(2)] obtain b
    where "hex_decode d = Some b" "length b = 32" "hex_encode b = d" .
  ultimately show ?thesis by (auto simp: ManifestSigningPayload_def)
qed

text \<open>A rune that the decoder builds from several bytes is never a control character.\<close>

definition high_rune :: "nat \<times> nat \<Rightarrow> nat list \<Rightarrow> bool" where
  "high_rune rn bs \<longleftrightarrow> 128 \<le> fst rn \<and> 1 \<le> snd rn \<and> snd rn - 1 \<le> length bs \<and>
     (\<forall>x \<in> set (take (snd rn - 1) bs). 128 \<le> x)"

lemma high_rune_error [simp]: "high_rune (RuneError, Suc 0) bs"
  by (simp add: high_rune_def RuneError_def)

lemma second_ok_high: "second_ok b0 b1 \<Longrightarrow> 128 \<le> b1"
  by (auto simp: second_ok_def cont_byte_def split: if_splits)

lemma high_rune2: "194 \<le> b0 \<Longrightarrow> cont_byte b1 \<Longrightarrow> high_rune ((b0 - 192) * 64 + r, 2) (b1 # bs)"
proof -
  assume b: "194 \<le> b0" "cont_byte b1"
  then have "128 \<le> (b0 - 192) * 64" by arith
  with b show ?thesis by (simp add: high_rune_def cont_byte_def)
qed

lemma high_rune3:
  assumes "224 \<le> b0" "second_ok b0 b1" "cont_byte b2"
  shows "high_rune ((b0 - 224) * 4096 + (b1 - 128) * 64 + r, 3) (b1 # b2 # bs)"
proof -
  have "128 \<le> (b0 - 224) * 4096 + (b1 - 128) * 64"
  proof (cases "b0 = 224")
    case True
    with assms(2) have "160 \<le> b1" by (simp add: second_ok_def)
    then show ?thesis by arith
  next
    case False
    with assms(1) show ?thesis by arith
  qed
  with assms second_ok_high [OF assms(2)] show ?thesis
    by (simp add: high_rune_def cont_byte_def)
qed

lemma high_rune4:
  assumes "240 \<le> b0" "second_ok b0 b1" "cont_byte b2" "cont_byte b3"
  shows "high_rune ((b0 - 240) * 262144 + (b1 - 128) * 4096 + r + s, 4) (b1 # b2 # b3 # bs)"
proof -
  have "128 \<le> (b0 - 240) * 262144 + (b1 - 128) * 4096"
  proof (cases "b0 = 240")
    case True
    with assms(2) have "144 \<le> b1" by (simp add: second_ok_def)
    then show ?thesis by arith
  next
    case False
    with assms(1) show ?thesis by arith
  qed
  with assms second_ok_high [OF assms(2)] show ?thesis
    by (simp add: high_rune_def cont_byte_def)
qed

lemma next_rune_high:
  assumes "128 \<le> b"
  shows "high_rune (next_rune b bs) bs"
proof -
  consider "b < 194 \<or> 244 < b" | "194 \<le> b" "b < 224" | "224 \<le> b" "b < 240" | "240 \<le> b" "b \<le> 244"
    by linarith
  then show ?thesis
  proof cases
    case 1
    with assms show ?thesis by (auto simp: next_rune_def)
  next
    case 2
    then show ?thesis
      by (cases bs) (simp_all add: next_rune_def high_rune2 assms)
  next
    case 3
    then show ?thesis
      by (cases bs rule: remdups_adj.cases) (simp_all add: next_rune_def high_rune3 assms)
  next
    case 4
    show ?thesis
    proof (cases bs rule: remdups_adj.cases)
      case (3 x y xs)
      with 4 assms show ?thesis
        by (cases xs) (simp_all add: next_rune_def high_rune4)
    qed (use 4 assms in \<open>simp_all add: next_rune_def\<close>)
  qed
qed

lemma next_rune_cases:
  assumes "next_rune b bs = (r, n)"
  obtains "b < 128" "r = b" "n = 1"
  | "128 \<le> b" "128 \<le> r" "1 \<le> n" "n - 1 \<le> length bs" "\<forall>x \<in> set (take (n - 1) bs). 128 \<le> x"
proof (cases "b < 128")
  case True
  then have "next_rune b bs = (b, 1)" by (simp add: next_rune_def)
  with assms have "r = b" "n = 1" by simp_all
  with True that(1) show ?thesis by blast
next
  case False
  with assms next_rune_high [of b bs]
  have "128 \<le> r" "1 \<le> n" "n - 1 \<le> length bs" "\<forall>x \<in> set (take (n - 1) bs). 128 \<le> x"
    by (simp_all add: high_rune_def)
  with False that(2) show ?thesis by (simp add: not_less)
qed

lemma printable_runes_iff: "printable_runes bs \<longleftrightarrow> (\<forall>b \<in> set bs. 32 \<le> b \<and> b \<noteq> 127)"
proof (induction bs rule: printable_runes.induct)
  case (2 b bs)
  obtain r n where rn: "next_rune b bs = (r, n)" by force
  have split: "set bs = set (take (n - 1) bs) \<union> set (drop (n - 1) bs)"
    by (metis append_take_drop_id set_append)
  have IH: "\<not> (r < 32 \<or> r = 127) \<Longrightarrow>
      printable_runes (drop (n - 1) bs) \<longleftrightarrow> (\<forall>x \<in> set (drop (n - 1) bs). 32 \<le> x \<and> x \<noteq> 127)"
    using "2.IH" [OF rn [symmetric]] by blast
  from rn show ?case
  proof (cases rule: next_rune_cases)
    case 1
    with rn IH show ?thesis by (auto simp: not_less)
  next
    case 2
    have "printable_runes (b # bs) \<longleftrightarrow> printable_runes (drop (n - 1) bs)"
      using rn 2 by simp
    also have "\<dots> \<longleftrightarrow> (\<forall>x \<in> set (drop (n - 1) bs). 32 \<le> x \<and> x \<noteq> 127)"
      using 2(2) IH by simp
    also have "\<dots> \<longleftrightarrow> (\<forall>x \<in> set (b # bs). 32 \<le> x \<and> x \<noteq> 127)"
      using 2 split by fastforce
    finally show ?thesis .
  qed
qed simp

lemma validPrintable_bytes: "validPrintable s \<longleftrightarrow> (\<forall>c \<in> set s. 32 \<le> byte_val c \<and> byte_val c \<noteq> 127)"
  by (simp add: validPrintable_def printable_runes_iff)

lemma hb_Validate_invalid: "hb_Validate h = Some e \<Longrightarrow> errors_Is e ErrInvalidMessage"
  by (auto simp: hb_Validate_def Let_def split: option.splits if_splits sum.splits)

lemma hb_Validate_None_Some: "hb_Validate h = None \<Longrightarrow> \<exists>x. h = Some x"
  by (cases h) (auto simp: hb_Validate_def)

lemma hb_Validate_artifact:
  "hb_Validate (Some h) = None \<Longrightarrow> hbArtifact h \<noteq> '''' \<Longrightarrow> \<exists>k. ParseArtifactKey (hbArtifact h) = Inr k"
  by (auto simp: hb_Validate_def Let_def split: if_splits sum.splits)

section \<open>Properties\<close>

text \<open>C40. The control-character check walks the runes of a UTF-8 string, valid or not, and still
  decides the byte-level question: it accepts a string exactly when no byte of it is a control
  byte, so no newline, carriage return, escape or NUL can reach a log line.\<close>

theorem validPrintable_iff_no_control_byte:
  "validPrintable s \<longleftrightarrow> list_all (\<lambda>c. byte_val c \<ge> 32 \<and> byte_val c \<noteq> 127) s"
  by (simp add: validPrintable_bytes list_all_iff)

text \<open>What \<open>Heartbeat.Validate\<close> lets through: a nonempty bounded device id and a bounded version,
  both free of control bytes, and an artifact that is empty or parses. Every rejection carries
  \<open>ErrInvalidMessage\<close>, and the version hash plays no part in the decision.\<close>

theorem heartbeat_Validate_spec:
  "(hb_Validate (Some h) = None \<longleftrightarrow>
      hbDeviceID h \<noteq> '''' \<and> length (hbDeviceID h) \<le> 128 \<and> length (hbVersion h) \<le> 64 \<and>
      (\<forall>c \<in> set (hbDeviceID h) \<union> set (hbVersion h). byte_val c \<ge> 32 \<and> byte_val c \<noteq> 127) \<and>
      (hbArtifact h = '''' \<or> (\<exists>k. ParseArtifactKey (hbArtifact h) = Inr k))) \<and>
   (\<forall>e. hb_Validate (Some h) = Some e \<longrightarrow> errors_Is e ErrInvalidMessage) \<and>
   hb_Validate (Some (h\<lparr>hbVersionHash := v\<rparr>)) = hb_Validate (Some h)"
proof (intro conjI allI impI)
  show "hb_Validate (Some h) = None \<longleftrightarrow>
      hbDeviceID h \<noteq> '''' \<and> length (hbDeviceID h) \<le> 128 \<and> length (hbVersion h) \<le> 64 \<and>
      (\<forall>c \<in> set (hbDeviceID h) \<union> set (hbVersion h). byte_val c \<ge> 32 \<and> byte_val c \<noteq> 127) \<and>
      (hbArtifact h = '''' \<or> (\<exists>k. ParseArtifactKey (hbArtifact h) = Inr k))"
    by (auto simp: hb_Validate_def Let_def MaxDeviceIDLen_def MaxVersionLen_def validPrintable_bytes
        split: sum.splits)
qed (auto simp: hb_Validate_def Let_def split: if_splits sum.splits)

definition sample_heartbeat :: heartbeat where
  "sample_heartbeat = \<lparr>hbDeviceID = ''dev-1'', hbVersionHash = '''',
     hbHWInfo = \<lparr>hwArch = ''arm64'', hwOS = ''linux'', hwFreeRAM = 0, hwFreeDisk = 0\<rparr>,
     hbTimestamp = 0, hbVersion = ''1.0.0'', hbArtifact = ''agent/linux''\<rparr>"

theorem heartbeat_Validate_spec_witness:
  "\<exists>e. hb_Validate (Some sample_heartbeat) = Some e \<and> errors_Is e ErrInvalidMessage"
proof -
  have "hb_Validate (Some sample_heartbeat) = Some (Wrap ''artifact'' ErrInvalidMessage)"
    by code_simp
  then show ?thesis
    using heartbeat_Validate_spec [of sample_heartbeat] by blast
qed

text \<open>C39. The signed payload has no separator and no length prefix, and still binds both digests:
  on SHA-256 digests as the protocol writes them, it exists, is 64 bytes long, and two manifests
  with the same payload name the same target and the same transfer.\<close>

theorem signing_payload_binds_both_hashes:
  assumes "IsValidHash t" "IsValidHash d" "IsValidHash t'" "IsValidHash d'"
  shows "(\<exists>p. ManifestSigningPayload t d = Inr p \<and> length p = 64) \<and>
         (ManifestSigningPayload t d = ManifestSigningPayload t' d' \<longrightarrow> t = t' \<and> d = d')"
proof -
  obtain a b where ab: "ManifestSigningPayload t d = Inr (a @ b)" "length a = 32" "length b = 32"
      "hex_encode a = t" "hex_encode b = d"
    using signing_payload_valid [OF assms(1,2)] by blast
  obtain a' b' where ab': "ManifestSigningPayload t' d' = Inr (a' @ b')" "length a' = 32"
      "length b' = 32" "hex_encode a' = t'" "hex_encode b' = d'"
    using signing_payload_valid [OF assms(3,4)] by blast
  from ab ab' show ?thesis by auto
qed

theorem signing_payload_binds_both_hashes_witness:
  "\<exists>p. ManifestSigningPayload (replicate 64 CHR ''a'') (replicate 64 CHR ''7'') = Inr p \<and> length p = 64"
proof -
  have "IsValidHash (replicate 64 CHR ''a'')" "IsValidHash (replicate 64 CHR ''7'')" by code_simp+
  then show ?thesis using signing_payload_binds_both_hashes by blast
qed

end
