(* ===== verification/GoPath.thy ===== *)
theory GoPath
  imports Prelude
begin

text \<open>
  Path strings as \<open>path/filepath\<close> treats them on Unix: \<open>Clean\<close>, \<open>Join\<close>, \<open>Base\<close>, \<open>Dir\<close> and
  \<open>IsAbs\<close>. The program builds every file name with \<open>Join(dir, name)\<close> from a configured directory
  and a name it controls; the lemmas say that such a path stays in its directory and that distinct
  names give distinct paths.
\<close>

section \<open>Clean\<close>

definition path_comps :: "string \<Rightarrow> string list" where
  "path_comps s = filter (\<lambda>p. p \<noteq> '''' \<and> p \<noteq> ''.'') (split_on CHR ''/'' s)"

definition clean_step :: "bool \<Rightarrow> string list \<Rightarrow> string \<Rightarrow> string list" where
  "clean_step rooted st p =
     (if p = ''..'' then
        (case st of
           [] \<Rightarrow> if rooted then [] else [''..'']
         | q # st' \<Rightarrow> if q = ''..'' then ''..'' # st else st')
      else p # st)"

definition is_abs :: "string \<Rightarrow> bool" where
  "is_abs s \<longleftrightarrow> has_prefix s ''/''"

definition clean_stack :: "string \<Rightarrow> string list" where
  "clean_stack s = foldl (clean_step (is_abs s)) [] (path_comps s)"

definition render :: "bool \<Rightarrow> string list \<Rightarrow> string" where
  "render rooted st =
     (let body = join_with CHR ''/'' (rev st)
      in if rooted then CHR ''/'' # body else if st = [] then ''.'' else body)"

definition path_clean :: "string \<Rightarrow> string" where
  "path_clean s = (if s = '''' then ''.'' else render (is_abs s) (clean_stack s))"

section \<open>Join, Base and Dir\<close>

definition path_join :: "string \<Rightarrow> string \<Rightarrow> string" where
  "path_join d n =
     (if d \<noteq> '''' then path_clean (d @ ''/'' @ n) else if n \<noteq> '''' then path_clean n else '''')"

definition path_base :: "string \<Rightarrow> string" where
  "path_base p =
     (if p = '''' then ''.''
      else
        (let q = rev (dropWhile (\<lambda>c. c = CHR ''/'') (rev p))
         in if q = '''' then ''/'' else last (split_on CHR ''/'' q)))"

definition path_dir :: "string \<Rightarrow> string" where
  "path_dir p = path_clean (rev (dropWhile (\<lambda>c. c \<noteq> CHR ''/'') (rev p)))"

text \<open>A name of one segment: what the program joins to a directory.\<close>

definition path_seg :: "string \<Rightarrow> bool" where
  "path_seg n \<longleftrightarrow> n \<noteq> '''' \<and> n \<noteq> ''.'' \<and> n \<noteq> ''..'' \<and> CHR ''/'' \<notin> set n"

section \<open>Facts\<close>

lemma split_on_append_gen: "split_on c (a @ c # b) = split_on c a @ split_on c b"
proof (induction a)
  case (Cons x a)
  then show ?case by (cases "split_on c a") auto
qed simp

lemma last_split_on: "c \<notin> set n \<Longrightarrow> last (split_on c (a @ c # n)) = n"
  by (simp add: split_on_append_gen split_on_fresh)

lemma join_with_snoc:
  "join_with c (xs @ [y]) = (if xs = [] then y else join_with c xs @ c # y)"
  by (induction c xs rule: join_with.induct) auto

lemma is_abs_append: "d \<noteq> '''' \<Longrightarrow> is_abs (d @ e) = is_abs d"
  by (cases d) (auto simp: is_abs_def has_prefix_def)

lemma clean_stack_join:
  assumes "d \<noteq> ''''" "path_seg n"
  shows "clean_stack (d @ ''/'' @ n) = n # clean_stack d"
proof -
  have "path_comps (d @ ''/'' @ n) = path_comps d @ [n]"
    using assms(2) by (simp add: path_comps_def split_on_append_gen split_on_fresh path_seg_def)
  then show ?thesis
    using assms by (simp add: clean_stack_def is_abs_append clean_step_def path_seg_def)
qed

lemma path_join_render:
  "d \<noteq> '''' \<Longrightarrow> path_seg n \<Longrightarrow> path_join d n = render (is_abs d) (n # clean_stack d)"
  by (simp add: path_join_def path_clean_def is_abs_append clean_stack_join [simplified])

lemma render_Cons:
  "render rooted (n # st) =
     (if rooted then ''/'' else '''') @ (if st = [] then n else join_with CHR ''/'' (rev st) @ CHR ''/'' # n)"
  by (simp add: render_def Let_def join_with_snoc)

lemma dropWhile_slash_rev:
  "path_seg n \<Longrightarrow> dropWhile (\<lambda>c. c = CHR ''/'') (rev n @ r) = rev n @ r"
  by (cases "rev n") (auto simp: path_seg_def dest: arg_cong [of _ _ set])

lemma path_base_append:
  assumes "path_seg n"
  shows "path_base n = n" "path_base (a @ CHR ''/'' # n) = n"
proof -
  have n: "n \<noteq> ''''" "CHR ''/'' \<notin> set n" using assms by (auto simp: path_seg_def)
  show "path_base n = n"
    using n dropWhile_slash_rev [OF assms, of "[]"] by (simp add: path_base_def split_on_fresh)
  show "path_base (a @ CHR ''/'' # n) = n"
    using n dropWhile_slash_rev [OF assms, of "CHR ''/'' # rev a"]
    by (simp add: path_base_def last_split_on)
qed

lemma path_base_join [go_path]:
  assumes "d \<noteq> ''''" "path_seg n"
  shows "path_base (path_join d n) = n"
proof -
  have "path_base (CHR ''/'' # n) = n" using path_base_append(2) [OF assms(2), of "[]"] by simp
  moreover have "path_base (CHR ''/'' # a @ CHR ''/'' # n) = n" for a
    using path_base_append(2) [OF assms(2), of "CHR ''/'' # a"] by simp
  ultimately show ?thesis
    using path_base_append [OF assms(2)]
    by (auto simp: path_join_render [OF assms] render_Cons)
qed

lemma path_join_inj [go_path]:
  "d \<noteq> '''' \<Longrightarrow> path_seg n \<Longrightarrow> path_seg m \<Longrightarrow> path_join d n = path_join d m \<longleftrightarrow> n = m"
  by (metis path_base_join)

subsection \<open>A cleaned stack is its own normal form\<close>

fun normal_stack :: "bool \<Rightarrow> string list \<Rightarrow> bool" where
  "normal_stack rooted [] = True"
| "normal_stack rooted (p # st) =
     (p \<noteq> '''' \<and> p \<noteq> ''.'' \<and> CHR ''/'' \<notin> set p \<and> normal_stack rooted st \<and>
      (p = ''..'' \<longrightarrow> \<not> rooted \<and> (st = [] \<or> hd st = ''..'')))"

lemma normal_clean_step:
  "normal_stack r st \<Longrightarrow> p \<noteq> '''' \<Longrightarrow> p \<noteq> ''.'' \<Longrightarrow> CHR ''/'' \<notin> set p \<Longrightarrow> normal_stack r (clean_step r st p)"
  by (cases st) (auto simp: clean_step_def)

lemma normal_foldl:
  "\<forall>p \<in> set ps. p \<noteq> '''' \<and> p \<noteq> ''.'' \<and> CHR ''/'' \<notin> set p \<Longrightarrow> normal_stack r st \<Longrightarrow>
   normal_stack r (foldl (clean_step r) st ps)"
  by (induction ps arbitrary: st) (auto simp: normal_clean_step)

lemma normal_clean_stack: "normal_stack (is_abs s) (clean_stack s)"
  unfolding clean_stack_def
  by (rule normal_foldl) (auto simp: path_comps_def dest: split_on_elem)

lemma foldl_normal: "normal_stack r st \<Longrightarrow> foldl (clean_step r) [] (rev st) = st"
proof (induction st)
  case (Cons p st)
  then show ?case by (cases st) (auto simp: clean_step_def)
qed simp

lemma normal_stack_set: "normal_stack r st \<Longrightarrow> p \<in> set st \<Longrightarrow> p \<noteq> '''' \<and> p \<noteq> ''.'' \<and> CHR ''/'' \<notin> set p"
  by (induction st) auto

lemma filter_id: "\<forall>x \<in> set xs. P x \<Longrightarrow> filter P xs = xs"
  by (induction xs) auto

lemma path_comps_join:
  assumes "normal_stack r st" "st \<noteq> []"
  shows "path_comps (join_with CHR ''/'' (rev st) @ ''/'') = rev st"
    "path_comps (CHR ''/'' # join_with CHR ''/'' (rev st) @ ''/'') = rev st"
proof -
  have "split_on CHR ''/'' (join_with CHR ''/'' (rev st)) = rev st"
    using assms normal_stack_set [OF assms(1)] by (intro split_join) auto
  moreover have "filter (\<lambda>p. p \<noteq> '''' \<and> p \<noteq> ''.'') (rev st) = rev st"
    using normal_stack_set [OF assms(1)] by (intro filter_id) auto
  ultimately show "path_comps (join_with CHR ''/'' (rev st) @ ''/'') = rev st"
    "path_comps (CHR ''/'' # join_with CHR ''/'' (rev st) @ ''/'') = rev st"
    by (simp_all add: path_comps_def split_on_append_gen)
qed

lemma join_with_head:
  assumes "normal_stack r st" "st \<noteq> []"
  shows "\<not> has_prefix (join_with CHR ''/'' (rev st) @ e) ''/''"
proof -
  obtain p ps where ps: "rev st = p # ps" using assms(2) by (cases "rev st") auto
  then have "p \<in> set st" by (metis list.set_intros(1) set_rev)
  with normal_stack_set [OF assms(1)] have "p \<noteq> ''''" "CHR ''/'' \<notin> set p" by auto
  then obtain c q where p: "p = c # q" "c \<noteq> CHR ''/''" by (cases p) auto
  have "\<exists>t. join_with CHR ''/'' (rev st) = c # t"
    using ps p by (cases ps) auto
  with p(2) show ?thesis by (auto simp: has_prefix_def)
qed

lemma dropWhile_name: "CHR ''/'' \<notin> set n \<Longrightarrow> dropWhile (\<lambda>c. c \<noteq> CHR ''/'') (rev n @ CHR ''/'' # r) = CHR ''/'' # r"
  by (subst dropWhile_append2) auto

lemma path_dir_join [go_path]:
  assumes "d \<noteq> ''''" "path_seg n"
  shows "path_dir (path_join d n) = path_clean d"
proof -
  let ?st = "clean_stack d"
  have n: "CHR ''/'' \<notin> set n" using assms(2) by (simp add: path_seg_def)
  have dw: "dropWhile (\<lambda>c. c \<noteq> CHR ''/'') (rev n) = []" using n by (auto simp: dropWhile_eq_Nil_conv)
  note nrm = normal_clean_stack [of d]
  show ?thesis
  proof (cases "?st = []")
    case True
    then have "path_join d n = (if is_abs d then ''/'' else '''') @ n"
      by (simp add: path_join_render [OF assms] render_Cons)
    moreover have "path_dir n = ''.''"
      unfolding path_dir_def dw by code_simp
    moreover have "path_dir (''/'' @ n) = path_clean ''/''"
      unfolding path_dir_def using dropWhile_name [OF n, of "[]"] by simp
    moreover have "path_clean ''/'' = ''/''" by code_simp
    ultimately have "path_dir (path_join d n) = (if is_abs d then ''/'' else ''.'')"
      by simp
    with True assms(1) show ?thesis by (simp add: path_clean_def render_def)
  next
    case False
    let ?pre = "(if is_abs d then ''/'' else '''') @ join_with CHR ''/'' (rev ?st) @ ''/''"
    have "path_join d n = ?pre @ n"
      using False by (simp add: path_join_render [OF assms] render_Cons)
    moreover have "rev (dropWhile (\<lambda>c. c \<noteq> CHR ''/'') (rev (?pre @ n))) = ?pre"
      using dropWhile_name [OF n] by simp
    ultimately have dir: "path_dir (path_join d n) = path_clean ?pre"
      by (simp only: path_dir_def)
    have abs: "is_abs ?pre = is_abs d"
      using join_with_head [OF nrm False] by (auto simp: is_abs_def has_prefix_def)
    moreover have "path_comps ?pre = rev ?st"
      using path_comps_join [OF nrm False] by simp
    ultimately have "clean_stack ?pre = ?st"
      using foldl_normal [OF nrm] by (simp only: clean_stack_def)
    with abs dir show ?thesis using assms(1) by (simp add: path_clean_def)
  qed
qed

subsection \<open>A cleaned path is clean\<close>

lemma split_join_stack:
  assumes "normal_stack r st" "st \<noteq> []"
  shows "split_on CHR ''/'' (join_with CHR ''/'' (rev st)) = rev st"
  using assms normal_stack_set [OF assms(1)] by (intro split_join) auto

lemma filter_stack:
  "normal_stack r st \<Longrightarrow> filter (\<lambda>p. p \<noteq> '''' \<and> p \<noteq> ''.'') (rev st) = rev st"
  using normal_stack_set [of r st] by (intro filter_id) auto

lemma clean_render [go_path]:
  assumes "normal_stack r st" "st \<noteq> []"
  shows "path_clean (render r st) = render r st" "is_abs (render r st) = r" "clean_stack (render r st) = st"
proof -
  let ?b = "join_with CHR ''/'' (rev st)"
  have abs: "is_abs (render r st) = r"
    using join_with_head [OF assms, of "''''"] assms(2) by (auto simp: is_abs_def render_def has_prefix_def Let_def)
  have "path_comps ?b = rev st" "path_comps (CHR ''/'' # ?b) = rev st"
    by (simp_all add: path_comps_def split_join_stack [OF assms] filter_stack [OF assms(1)])
  then have "path_comps (render r st) = rev st" using assms(2) by (simp add: render_def Let_def)
  then have stack: "clean_stack (render r st) = st"
    using abs foldl_normal [OF assms(1)] by (simp add: clean_stack_def)
  have "render r st \<noteq> ''''"
    using normal_stack_set [OF assms(1)] assms(2) abs
    by (cases st) (auto simp: render_Cons)
  with abs stack show "path_clean (render r st) = render r st" by (simp add: path_clean_def)
  show "is_abs (render r st) = r" "clean_stack (render r st) = st" by fact+
qed

lemma path_join_clean [go_path]:
  assumes "d \<noteq> ''''" "path_seg n"
  shows "path_clean (path_join d n) = path_join d n" "is_abs (path_join d n) = is_abs d"
proof -
  have "normal_stack (is_abs d) (n # clean_stack d)"
    using normal_clean_stack [of d] assms(2) by (auto simp: path_seg_def)
  from clean_render [OF this] show "path_clean (path_join d n) = path_join d n" "is_abs (path_join d n) = is_abs d"
    by (simp_all add: path_join_render [OF assms])
qed

end
