(* ===== verification/GoJson.thy ===== *)
theory GoJson
  imports Prelude
begin

text \<open>
  JSON as \<open>encoding/json\<close> reads and writes it, at the level of values: a document is a JSON value, and
  a struct is read field by field. A key matches a field by name without regard to case, the last
  matching key wins, an absent key and \<open>null\<close> leave the zero value, and a value of another type is an
  error. A file holds raw bytes or a JSON document; raw bytes do not parse.
\<close>

datatype json =
    JNull
  | JBool bool
  | JInt int
  | JFloat string
  | JStr string
  | JArr "json list"
  | JObj "(string \<times> json) list"

datatype content = Raw bytes | Json json

fun parse_json :: "content \<Rightarrow> json option" where
  "parse_json (Json j) = Some j"
| "parse_json (Raw b) = None"

section \<open>Decimal numbers and document text\<close>

fun show_nat :: "nat \<Rightarrow> string" where
  "show_nat n = (if n < 10 then [char_of (48 + n)] else show_nat (n div 10) @ [char_of (48 + n mod 10)])"

declare show_nat.simps [simp del]

definition show_int :: "int \<Rightarrow> string" where
  "show_int i = (if i < 0 then CHR ''-'' # show_nat (nat (- i)) else show_nat (nat i))"

definition quote_char :: "char \<Rightarrow> string" where
  "quote_char c =
     (if c = CHR 0x22 then [CHR 0x5C, CHR 0x22]
      else if c = CHR 0x5C then [CHR 0x5C, CHR 0x5C]
      else if byte_val c < 32 then
        [CHR 0x5C, CHR ''u'', CHR ''0'', CHR ''0'', hex_digit (byte_val c div 16), hex_digit (byte_val c mod 16)]
      else [c])"

definition quote :: "string \<Rightarrow> string" where
  "quote s = [CHR 0x22] @ concat (map quote_char s) @ [CHR 0x22]"

fun json_text :: "json \<Rightarrow> string" where
  "json_text JNull = ''null''"
| "json_text (JBool b) = (if b then ''true'' else ''false'')"
| "json_text (JInt i) = show_int i"
| "json_text (JFloat s) = s"
| "json_text (JStr s) = quote s"
| "json_text (JArr js) = ''['' @ join_with CHR '','' (map json_text js) @ '']''"
| "json_text (JObj fs) =
     [CHR 0x7B] @ join_with CHR '','' (map (\<lambda>(k, v). quote k @ '':'' @ json_text v) fs) @ [CHR 0x7D]"

fun bytes_of :: "content \<Rightarrow> bytes" where
  "bytes_of (Raw b) = b"
| "bytes_of (Json j) = json_text j"

section \<open>Struct fields\<close>

definition jfield :: "(string \<times> json) list \<Rightarrow> string \<Rightarrow> json option" where
  "jfield fs name = map_of (rev (map (\<lambda>(k, v). (to_lower k, v)) fs)) name"

text \<open>The fields of a document that is decoded into a struct.\<close>

fun struct_fields :: "json \<Rightarrow> (string \<times> json) list option" where
  "struct_fields (JObj fs) = Some fs"
| "struct_fields JNull = Some []"
| "struct_fields _ = None"

definition get_str :: "(string \<times> json) list \<Rightarrow> string \<Rightarrow> string option" where
  "get_str fs name =
     (case jfield fs name of
        None \<Rightarrow> Some '''' | Some JNull \<Rightarrow> Some '''' | Some (JStr s) \<Rightarrow> Some s | _ \<Rightarrow> None)"

definition int64 :: "int \<Rightarrow> bool" where
  "int64 i \<longleftrightarrow> - (2 ^ 63) \<le> i \<and> i < 2 ^ 63"

definition get_int :: "(string \<times> json) list \<Rightarrow> string \<Rightarrow> int option" where
  "get_int fs name =
     (case jfield fs name of
        None \<Rightarrow> Some 0 | Some JNull \<Rightarrow> Some 0
      | Some (JInt i) \<Rightarrow> if int64 i then Some i else None
      | _ \<Rightarrow> None)"

definition get_bool :: "(string \<times> json) list \<Rightarrow> string \<Rightarrow> bool option" where
  "get_bool fs name =
     (case jfield fs name of
        None \<Rightarrow> Some False | Some JNull \<Rightarrow> Some False | Some (JBool b) \<Rightarrow> Some b | _ \<Rightarrow> None)"

text \<open>Two's complement arithmetic of Go's \<open>int\<close> and \<open>int64\<close>.\<close>

definition wrap64 :: "int \<Rightarrow> int" where
  "wrap64 i = (i + 2 ^ 63) mod 2 ^ 64 - 2 ^ 63"

lemma wrap64_id: "int64 i \<Longrightarrow> wrap64 i = i"
  by (simp add: wrap64_def int64_def)

lemma wrap64_range [simp]: "int64 (wrap64 i)"
proof -
  have "0 \<le> (i + 2 ^ 63) mod (2 ^ 64 :: int)" "(i + 2 ^ 63) mod (2 ^ 64 :: int) < 2 ^ 64" by simp_all
  then show ?thesis by (simp add: wrap64_def int64_def)
qed

text \<open>The \<open>omitempty\<close> option of a struct tag: an empty string, a zero or a false is not written.\<close>

definition omit_str :: "string \<Rightarrow> string \<Rightarrow> (string \<times> json) list" where
  "omit_str name s = (if s = '''' then [] else [(name, JStr s)])"

definition omit_int :: "string \<Rightarrow> int \<Rightarrow> (string \<times> json) list" where
  "omit_int name i = (if i = 0 then [] else [(name, JInt i)])"

lemma show_nat_digits: "c \<in> set (show_nat n) \<Longrightarrow> is_digit c"
proof (induction n rule: show_nat.induct)
  case (1 n)
  have d: "is_digit (char_of (48 + k))" if "k < 10" for k :: nat
    using that by (simp add: is_digit_def less_eq_char_def of_char_of)
  show ?case
  proof (cases "n < 10")
    case True
    with "1.prems" d [of n] show ?thesis by (simp add: show_nat.simps [of n])
  next
    case False
    with 1 d [of "n mod 10"] show ?thesis by (auto simp: show_nat.simps [of n])
  qed
qed

lemma jfield_Cons:
  "jfield ((k, v) # fs) name =
     (case jfield fs name of None \<Rightarrow> if to_lower k = name then Some v else None | Some x \<Rightarrow> Some x)"
  by (auto simp: jfield_def map_add_def split: option.splits)

lemma jfield_Nil [simp]: "jfield [] name = None"
  by (simp add: jfield_def)

lemma jfield_append:
  "jfield (fs @ gs) name = (case jfield gs name of None \<Rightarrow> jfield fs name | Some x \<Rightarrow> Some x)"
  by (simp add: jfield_def map_add_def split: option.splits)

end
