(* ===== verification/Os.thy ===== *)
theory Os
  imports GoPath GoJson "HOL-Library.Word"
begin

text \<open>
  The operating system as the program sees it. A directory tree is an association list from paths
  to entries; a system call may fail at will (a schedule of faults), and a power loss may happen
  between any two calls: the state keeps every tree it went through (\<open>hist\<close>) and, for each path, the
  earlier entries a loss of power may bring back because the directory was not synced yet
  (\<open>undo\<close>). The contents of a file that was not synced are lost with it. Paths are compared as they
  are spelled; the links the program follows are the last segment of a path.

  \<open>evolves P W w w'\<close> is the calculus of the development: between \<open>w\<close> and \<open>w'\<close> only the paths of
  \<open>P\<close> changed, and at each moment between, a power loss leaves at path \<open>q\<close> what it could have left
  there before, or an entry of \<open>W q\<close>.
\<close>

section \<open>State\<close>

datatype ent = EFile content nat int bool | ELink string | EDir

type_synonym tree = "(string \<times> ent) list"
type_synonym journal = "(string \<times> ent option) list"

record os =
  files :: tree
  undo :: journal
  faults :: "(err \<times> nat) option list"
  clock :: int
  rand :: "nat list"
  hist :: "(tree \<times> journal) list"

definition snap :: "'z os_scheme \<Rightarrow> tree \<times> journal" where
  "snap w = (files w, undo w)"

text \<open>What a power loss may leave at a path.\<close>

definition crash_ents :: "tree \<times> journal \<Rightarrow> string \<Rightarrow> ent option set" where
  "crash_ents s q = insert (map_of (fst s) q) {e. (q, e) \<in> set (snd s)}"

definition commit :: "tree \<Rightarrow> journal \<Rightarrow> 'z os_scheme \<Rightarrow> 'z os_scheme" where
  "commit fs un w = w\<lparr>files := fs, undo := un, hist := hist w @ [(fs, un)]\<rparr>"

text \<open>A directory entry is put or removed; the old one may come back until the directory is synced.\<close>

definition link_at :: "string \<Rightarrow> ent \<Rightarrow> 'z os_scheme \<Rightarrow> 'z os_scheme" where
  "link_at p e w = commit (put p e (files w)) ((p, map_of (files w) p) # undo w) w"

definition unlink_at :: "string \<Rightarrow> 'z os_scheme \<Rightarrow> 'z os_scheme" where
  "unlink_at p w = commit (del p (files w)) ((p, map_of (files w) p) # undo w) w"

text \<open>The file behind an entry changes in place.\<close>

definition inode_at :: "string \<Rightarrow> ent \<Rightarrow> 'z os_scheme \<Rightarrow> 'z os_scheme" where
  "inode_at p e w = commit (put p e (files w)) (undo w) w"

text \<open>The next fault of the schedule. A fault never pretends that a file is missing.\<close>

definition fault :: "'z os_scheme \<Rightarrow> (err \<times> nat) option" where
  "fault w =
     (case faults w of
        Some (e, n) # _ \<Rightarrow> Some (if errors_Is e ENOENT then EIO else e, n)
      | _ \<Rightarrow> None)"

definition tick :: "'z os_scheme \<Rightarrow> 'z os_scheme" where
  "tick w = w\<lparr>faults := tl (faults w)\<rparr>"

definition syscall :: "(err \<Rightarrow> 'a) \<Rightarrow> ('z os_scheme \<Rightarrow> 'a \<times> 'z os_scheme) \<Rightarrow> 'z os_scheme \<Rightarrow> 'a \<times> 'z os_scheme" where
  "syscall fail body w =
     (case fault w of Some (e, n) \<Rightarrow> (fail e, tick w) | None \<Rightarrow> body (tick w))"

section \<open>System calls\<close>

definition is_dir :: "'z os_scheme \<Rightarrow> string \<Rightarrow> bool" where
  "is_dir w d \<longleftrightarrow> map_of (files w) d = Some EDir"

text \<open>The kernel gives up after 40 links.\<close>

fun follow :: "nat \<Rightarrow> tree \<Rightarrow> string \<Rightarrow> err + string \<times> ent" where
  "follow 0 fs p = Inl ELOOP"
| "follow (Suc n) fs p =
     (case map_of fs p of
        None \<Rightarrow> Inl ENOENT
      | Some (ELink t) \<Rightarrow> follow n fs (if is_abs t then t else path_join (path_dir p) t)
      | Some e \<Rightarrow> Inr (p, e))"

definition os_Stat :: "string \<Rightarrow> 'z os_scheme \<Rightarrow> (err + ent) \<times> 'z os_scheme" where
  "os_Stat p = syscall Inl (\<lambda>w. (map_sum id snd (follow 40 (files w) p), w))"

definition os_Lstat :: "string \<Rightarrow> 'z os_scheme \<Rightarrow> (err + ent) \<times> 'z os_scheme" where
  "os_Lstat p = syscall Inl (\<lambda>w.
     (case map_of (files w) p of None \<Rightarrow> Inl ENOENT | Some e \<Rightarrow> Inr e, w))"

definition os_ReadFile :: "string \<Rightarrow> 'z os_scheme \<Rightarrow> (err + content) \<times> 'z os_scheme" where
  "os_ReadFile p = syscall Inl (\<lambda>w.
     (case follow 40 (files w) p of
        Inl e \<Rightarrow> Inl e
      | Inr (q, EFile c m t s) \<Rightarrow> Inr c
      | Inr _ \<Rightarrow> Inl EISDIR, w))"

definition os_Readlink :: "string \<Rightarrow> 'z os_scheme \<Rightarrow> (err + string) \<times> 'z os_scheme" where
  "os_Readlink p = syscall Inl (\<lambda>w.
     (case map_of (files w) p of
        None \<Rightarrow> Inl ENOENT | Some (ELink t) \<Rightarrow> Inr t | Some _ \<Rightarrow> Inl EINVAL, w))"

definition children :: "tree \<Rightarrow> string \<Rightarrow> string list" where
  "children fs d = map (path_base \<circ> fst) (filter (\<lambda>e. fst e \<noteq> d \<and> path_dir (fst e) = d) fs)"

definition os_Remove :: "string \<Rightarrow> 'z os_scheme \<Rightarrow> err option \<times> 'z os_scheme" where
  "os_Remove p = syscall Some (\<lambda>w.
     (case map_of (files w) p of
        None \<Rightarrow> (Some ENOENT, w)
      | Some EDir \<Rightarrow> if children (files w) p = [] then (None, unlink_at p w) else (Some ENOTEMPTY, w)
      | Some _ \<Rightarrow> (None, unlink_at p w)))"

definition os_Rename :: "string \<Rightarrow> string \<Rightarrow> 'z os_scheme \<Rightarrow> err option \<times> 'z os_scheme" where
  "os_Rename p q = syscall Some (\<lambda>w.
     (if is_dir w q then (Some EEXIST, w)
      else
        (case map_of (files w) p of
           None \<Rightarrow> (Some ENOENT, w)
         | Some e \<Rightarrow>
             if is_dir w (path_dir q) then
               (None, commit (put q e (del p (files w)))
                  ((q, map_of (files w) q) # (p, Some e) # undo w) w)
             else (Some ENOENT, w))))"

definition os_Symlink :: "string \<Rightarrow> string \<Rightarrow> 'z os_scheme \<Rightarrow> err option \<times> 'z os_scheme" where
  "os_Symlink target p = syscall Some (\<lambda>w.
     (if \<not> is_dir w (path_dir p) then (Some ENOENT, w)
      else if map_of (files w) p \<noteq> None then (Some EEXIST, w)
      else (None, link_at p (ELink target) w)))"

text \<open>
  \<open>os.CreateTemp\<close> with the pattern of a prefix and a star: the star becomes a decimal random number,
  and a name that is taken is tried again with the next one. The numbers are part of the state; when
  they run out the call fails, as the library does after 10,000 tries.
\<close>

fun pick_temp :: "nat list \<Rightarrow> string \<Rightarrow> string \<Rightarrow> tree \<Rightarrow> (string \<times> nat list) option" where
  "pick_temp [] d pre fs = None"
| "pick_temp (r # rs) d pre fs =
     (let p = path_join d (pre @ show_nat r)
      in if map_of fs p = None then Some (p, rs) else pick_temp rs d pre fs)"

definition os_CreateTemp :: "string \<Rightarrow> string \<Rightarrow> 'z os_scheme \<Rightarrow> (err + string) \<times> 'z os_scheme" where
  "os_CreateTemp d pre = syscall Inl (\<lambda>w.
     (if \<not> is_dir w d then (Inl ENOENT, w)
      else
        (case pick_temp (rand w) d pre (files w) of
           None \<Rightarrow> (Inl EEXIST, w)
         | Some (p, rs) \<Rightarrow>
             (Inr p, link_at p (EFile (Raw []) 384 (clock w) False) (w\<lparr>rand := rs\<rparr>)))))"

text \<open>Calls on an open file, named by the path it was opened at.\<close>

definition append_content :: "content \<Rightarrow> content \<Rightarrow> content" where
  "append_content c d = (if c = Raw [] then d else Raw (bytes_of c @ bytes_of d))"

definition cut_content :: "nat \<Rightarrow> content \<Rightarrow> content" where
  "cut_content n c = (if length (bytes_of c) \<le> n then c else Raw (take n (bytes_of c)))"

definition do_append :: "string \<Rightarrow> content \<Rightarrow> 'z os_scheme \<Rightarrow> 'z os_scheme" where
  "do_append p d w =
     (case map_of (files w) p of
        Some (EFile c m t s) \<Rightarrow> inode_at p (EFile (append_content c d) m (clock w) False) w
      | _ \<Rightarrow> w)"

text \<open>A failing write may have written a part of the data.\<close>

definition os_Write :: "string \<Rightarrow> content \<Rightarrow> 'z os_scheme \<Rightarrow> err option \<times> 'z os_scheme" where
  "os_Write p d w =
     (case fault w of
        Some (e, n) \<Rightarrow> (Some e, do_append p (cut_content n d) (tick w))
      | None \<Rightarrow> (None, do_append p d (tick w)))"

definition os_Chmod :: "string \<Rightarrow> nat \<Rightarrow> 'z os_scheme \<Rightarrow> err option \<times> 'z os_scheme" where
  "os_Chmod p mode = syscall Some (\<lambda>w.
     (None, case map_of (files w) p of
        Some (EFile c m t s) \<Rightarrow> inode_at p (EFile c mode t s) w
      | _ \<Rightarrow> w))"

definition os_Sync :: "string \<Rightarrow> 'z os_scheme \<Rightarrow> err option \<times> 'z os_scheme" where
  "os_Sync p = syscall Some (\<lambda>w.
     (None, case map_of (files w) p of
        Some (EFile c m t s) \<Rightarrow> inode_at p (EFile c m t True) w
      | _ \<Rightarrow> w))"

definition os_Close :: "'z os_scheme \<Rightarrow> err option \<times> 'z os_scheme" where
  "os_Close = syscall Some (\<lambda>w. (None, w))"

definition os_OpenDir :: "string \<Rightarrow> 'z os_scheme \<Rightarrow> err option \<times> 'z os_scheme" where
  "os_OpenDir d = syscall Some (\<lambda>w. (if is_dir w d then None else Some ENOENT, w))"

definition os_SyncDir :: "string \<Rightarrow> 'z os_scheme \<Rightarrow> err option \<times> 'z os_scheme" where
  "os_SyncDir d = syscall Some (\<lambda>w.
     (None, commit (files w) (filter (\<lambda>e. path_dir (fst e) \<noteq> d) (undo w)) w))"

text \<open>
  \<open>os.OpenFile\<close> for writing, creating the file if there is none; the result is the path of the file
  that was opened. \<open>Truncate(0)\<close>, \<open>Seek\<close> and writes at an offset: a gap is filled with zeros, what
  lies past the written part stays.
\<close>

definition os_OpenCreate :: "string \<Rightarrow> nat \<Rightarrow> 'z os_scheme \<Rightarrow> (err + string) \<times> 'z os_scheme" where
  "os_OpenCreate p mode = syscall Inl (\<lambda>w.
     (if map_of (files w) p = None then
        (if is_dir w (path_dir p) then (Inr p, link_at p (EFile (Raw []) mode (clock w) False) w)
         else (Inl ENOENT, w))
      else
        (case follow 40 (files w) p of
           Inl e \<Rightarrow> (Inl e, w)
         | Inr (q, EFile c m t s) \<Rightarrow> (Inr q, w)
         | Inr _ \<Rightarrow> (Inl EISDIR, w))))"

definition os_Truncate0 :: "string \<Rightarrow> 'z os_scheme \<Rightarrow> err option \<times> 'z os_scheme" where
  "os_Truncate0 p = syscall Some (\<lambda>w.
     (None, case map_of (files w) p of
        Some (EFile c m t s) \<Rightarrow> inode_at p (EFile (Raw []) m (clock w) False) w
      | _ \<Rightarrow> w))"

definition os_Seek :: "int \<Rightarrow> 'z os_scheme \<Rightarrow> err option \<times> 'z os_scheme" where
  "os_Seek off = syscall Some (\<lambda>w. (if off < 0 then Some EINVAL else None, w))"

definition splice :: "bytes \<Rightarrow> nat \<Rightarrow> bytes \<Rightarrow> bytes" where
  "splice c off d = take off c @ replicate (off - length c) (CHR 0x00) @ d @ drop (off + length d) c"

definition do_write_at :: "string \<Rightarrow> nat \<Rightarrow> bytes \<Rightarrow> 'z os_scheme \<Rightarrow> 'z os_scheme" where
  "do_write_at p off d w =
     (case map_of (files w) p of
        Some (EFile c m t s) \<Rightarrow>
          (if d = [] then w else inode_at p (EFile (Raw (splice (bytes_of c) off d)) m (clock w) False) w)
      | _ \<Rightarrow> w)"

definition os_WriteAt :: "string \<Rightarrow> nat \<Rightarrow> bytes \<Rightarrow> 'z os_scheme \<Rightarrow> (nat \<times> err option) \<times> 'z os_scheme" where
  "os_WriteAt p off d w =
     (case fault w of
        Some (e, n) \<Rightarrow> ((min n (length d), Some e), do_write_at p off (take n d) (tick w))
      | None \<Rightarrow> ((length d, None), do_write_at p off d (tick w)))"

text \<open>\<open>os.ReadDir\<close> sorts by name; \<open>entry.Info\<close> is a later \<open>Lstat\<close>.\<close>

definition os_ReadDir :: "string \<Rightarrow> 'z os_scheme \<Rightarrow> (err + string list) \<times> 'z os_scheme" where
  "os_ReadDir d = syscall Inl (\<lambda>w.
     (if is_dir w d then Inr (sort (children (files w) (path_clean d))) else Inl ENOENT, w))"

text \<open>\<open>time.Now\<close> in nanoseconds.\<close>

abbreviation os_Now :: "'z os_scheme \<Rightarrow> int" where
  "os_Now w \<equiv> clock w"

definition os_Sleep :: "int \<Rightarrow> 'z os_scheme \<Rightarrow> 'z os_scheme" where
  "os_Sleep d w = w\<lparr>clock := clock w + max 0 d\<rparr>"

subsection \<open>Contexts\<close>

text \<open>A context is the time at which it is cancelled, if it ever is.\<close>

type_synonym ctx = "int option"

definition ctx_Err :: "ctx \<Rightarrow> 'z os_scheme \<Rightarrow> err option" where
  "ctx_Err c w = (case c of Some t \<Rightarrow> if t \<le> clock w then Some Canceled else None | None \<Rightarrow> None)"

text \<open>Waiting on the context and a timer: the time passes until the first of the two.\<close>

definition select_after :: "ctx \<Rightarrow> int \<Rightarrow> 'z os_scheme \<Rightarrow> err option \<times> 'z os_scheme" where
  "select_after c d w =
     (case c of
        Some t \<Rightarrow> if t \<le> clock w + d then (Some Canceled, os_Sleep (t - clock w) w) else (None, os_Sleep d w)
      | None \<Rightarrow> (None, os_Sleep d w))"

fun ent_mtime :: "ent \<Rightarrow> int" where
  "ent_mtime (EFile c m t s) = t"
| "ent_mtime _ = 0"

fun ent_size :: "ent \<Rightarrow> int" where
  "ent_size (EFile c m t s) = int (length (bytes_of c))"
| "ent_size _ = 0"

section \<open>How calls change the tree\<close>

definition evolves ::
  "string set \<Rightarrow> (string \<Rightarrow> ent option set) \<Rightarrow> 'z os_scheme \<Rightarrow> 'z os_scheme \<Rightarrow> bool" where
  "evolves P W w w' \<longleftrightarrow>
     (\<forall>q. q \<notin> P \<longrightarrow> map_of (files w') q = map_of (files w) q) \<and>
     (\<exists>h. hist w' = hist w @ h \<and>
          (\<forall>s \<in> set (snap w' # h). \<forall>q. crash_ents s q \<subseteq> crash_ents (snap w) q \<union> W q))"

abbreviation at :: "string \<Rightarrow> ent option set \<Rightarrow> string \<Rightarrow> ent option set" where
  "at p E \<equiv> (\<lambda>q. if q = p then E else {})"

abbreviation nothing :: "string \<Rightarrow> ent option set" where
  "nothing \<equiv> (\<lambda>q. {})"

lemma evolves_refl [os_frame]: "evolves P W w w"
  by (auto simp: evolves_def)

lemma evolves_trans:
  assumes "evolves P W w1 w2" "evolves Q V w2 w3"
  shows "evolves (P \<union> Q) (\<lambda>q. W q \<union> V q) w1 w3"
proof -
  from assms(1) obtain h1 where h1: "hist w2 = hist w1 @ h1"
    "\<forall>s \<in> set (snap w2 # h1). \<forall>q. crash_ents s q \<subseteq> crash_ents (snap w1) q \<union> W q"
    unfolding evolves_def by blast
  from assms(2) obtain h2 where h2: "hist w3 = hist w2 @ h2"
    "\<forall>s \<in> set (snap w3 # h2). \<forall>q. crash_ents s q \<subseteq> crash_ents (snap w2) q \<union> V q"
    unfolding evolves_def by blast
  have "\<forall>q. crash_ents (snap w2) q \<subseteq> crash_ents (snap w1) q \<union> W q" using h1(2) by simp
  then have 2: "\<forall>s \<in> set (snap w3 # h2). \<forall>q. crash_ents s q \<subseteq> crash_ents (snap w1) q \<union> (W q \<union> V q)"
    using h2(2) by blast
  have 1: "\<forall>s \<in> set h1. \<forall>q. crash_ents s q \<subseteq> crash_ents (snap w1) q \<union> (W q \<union> V q)"
    using h1(2) by fastforce
  have "\<forall>s \<in> set (snap w3 # h1 @ h2). \<forall>q. crash_ents s q \<subseteq> crash_ents (snap w1) q \<union> (W q \<union> V q)"
    using 1 2 by (simp add: ball_Un)
  moreover have "hist w3 = hist w1 @ (h1 @ h2)" using h1(1) h2(1) by simp
  moreover have "\<forall>q. q \<notin> P \<union> Q \<longrightarrow> map_of (files w3) q = map_of (files w1) q"
    using assms unfolding evolves_def by simp
  ultimately show ?thesis unfolding evolves_def by blast
qed

lemma evolves_mono:
  assumes "evolves P W w w'" "P \<subseteq> Q" "\<And>q. W q \<subseteq> V q"
  shows "evolves Q V w w'"
proof -
  from assms(1) obtain h where h: "hist w' = hist w @ h"
    "\<forall>s \<in> set (snap w' # h). \<forall>q. crash_ents s q \<subseteq> crash_ents (snap w) q \<union> W q"
    unfolding evolves_def by blast
  then have "\<forall>s \<in> set (snap w' # h). \<forall>q. crash_ents s q \<subseteq> crash_ents (snap w) q \<union> V q"
    using assms(3) by blast
  with h(1) assms(1,2) show ?thesis unfolding evolves_def by blast
qed

lemma evolves_step:
  "evolves P W w1 w2 \<Longrightarrow> evolves P W w2 w3 \<Longrightarrow> evolves P W w1 w3"
  by (drule (1) evolves_trans) simp

lemma evolvesD: "evolves P W w w' \<Longrightarrow> q \<notin> P \<Longrightarrow> map_of (files w') q = map_of (files w) q"
  by (simp add: evolves_def)

lemma evolves_crash:
  "evolves P W w w' \<Longrightarrow> crash_ents (snap w') q \<subseteq> crash_ents (snap w) q \<union> W q"
  unfolding evolves_def by auto

text \<open>Only the paths of a set are touched, in any way.\<close>

definition any_at :: "string set \<Rightarrow> string \<Rightarrow> ent option set" where
  "any_at P q = (if q \<in> P then UNIV else {})"

lemma any_at_in [simp]: "q \<in> P \<Longrightarrow> any_at P q = UNIV"
  by (simp add: any_at_def)

lemma evolves_any: "evolves P W w w' \<Longrightarrow> P \<subseteq> Q \<Longrightarrow> (\<And>q. q \<notin> Q \<Longrightarrow> W q = {}) \<Longrightarrow> evolves Q (any_at Q) w w'"
  by (erule evolves_mono) (auto simp: any_at_def)

text \<open>Anything that leaves the tree, the journal and the history alone.\<close>

definition same_disk :: "'z os_scheme \<Rightarrow> 'y os_scheme \<Rightarrow> bool" where
  "same_disk w w' \<longleftrightarrow> files w' = files w \<and> undo w' = undo w \<and> hist w' = hist w"

lemma evolves_same: "same_disk w w' \<Longrightarrow> evolves P W w w'"
  unfolding evolves_def same_disk_def by (intro conjI exI [of _ "[]"]) (auto simp: snap_def)

lemma evolves_same_left: "same_disk w1 w2 \<Longrightarrow> evolves P W w2 w3 \<Longrightarrow> evolves P W w1 w3"
  by (rule evolves_step [OF evolves_same])

lemma tick_simps [simp]:
  "files (tick w) = files w" "undo (tick w) = undo w" "hist (tick w) = hist w"
  "clock (tick w) = clock w" "rand (tick w) = rand w" "os.more (tick w) = os.more w"
  "snap (tick w) = snap w" "is_dir (tick w) = is_dir w"
  by (simp_all add: tick_def snap_def is_dir_def fun_eq_iff)

lemma evolves_tick: "evolves P W (tick w) w' = evolves P W w w'"
  by (simp add: evolves_def)

lemma commit_simps [simp]:
  "files (commit fs un w) = fs" "undo (commit fs un w) = un"
  "hist (commit fs un w) = hist w @ [(fs, un)]" "clock (commit fs un w) = clock w"
  "faults (commit fs un w) = faults w" "rand (commit fs un w) = rand w"
  "os.more (commit fs un w) = os.more w" "snap (commit fs un w) = (fs, un)"
  by (simp_all add: commit_def snap_def)

lemma evolves_commit:
  assumes "\<And>q. q \<notin> P \<Longrightarrow> map_of fs q = map_of (files w) q"
    and "\<And>q. crash_ents (fs, un) q \<subseteq> crash_ents (snap w) q \<union> W q"
  shows "evolves P W w (commit fs un w)"
  using assms unfolding evolves_def by (intro conjI exI [of _ "[(fs, un)]"]) auto

lemma evolves_link_at: "p \<in> P \<Longrightarrow> Some e \<in> W p \<Longrightarrow> evolves P W w (link_at p e w)"
  unfolding link_at_def
  by (rule evolves_commit) (auto simp: crash_ents_def snap_def)

lemma evolves_unlink_at: "p \<in> P \<Longrightarrow> None \<in> W p \<Longrightarrow> evolves P W w (unlink_at p w)"
  unfolding unlink_at_def
  by (rule evolves_commit) (auto simp: crash_ents_def snap_def)

lemma evolves_inode_at: "p \<in> P \<Longrightarrow> Some e \<in> W p \<Longrightarrow> evolves P W w (inode_at p e w)"
  unfolding inode_at_def
  by (rule evolves_commit) (auto simp: crash_ents_def snap_def)

lemma link_at_simps [simp]:
  "files (link_at p e w) = put p e (files w)" "os.more (link_at p e w) = os.more w"
  "clock (link_at p e w) = clock w" "faults (link_at p e w) = faults w"
  by (simp_all add: link_at_def)

lemma unlink_at_simps [simp]:
  "files (unlink_at p w) = del p (files w)" "os.more (unlink_at p w) = os.more w"
  "clock (unlink_at p w) = clock w" "faults (unlink_at p w) = faults w"
  by (simp_all add: unlink_at_def)

lemma inode_at_simps [simp]:
  "files (inode_at p e w) = put p e (files w)" "os.more (inode_at p e w) = os.more w"
  "clock (inode_at p e w) = clock w" "faults (inode_at p e w) = faults w"
  by (simp_all add: inode_at_def)

section \<open>One lemma per call\<close>

lemma fault_not_ENOENT: "fault w = Some (e, n) \<Longrightarrow> \<not> errors_Is e ENOENT"
  by (auto simp: fault_def split: list.splits option.splits if_splits)

text \<open>A call leaves the clock and the rest of the world to others.\<close>

definition same_rest :: "'z os_scheme \<Rightarrow> 'z os_scheme \<Rightarrow> bool" where
  "same_rest w w' \<longleftrightarrow> clock w' = clock w \<and> os.more w' = os.more w"

lemma same_rest_refl [simp]: "same_rest w w"
  by (simp add: same_rest_def)

lemma same_rest_trans: "same_rest w1 w2 \<Longrightarrow> same_rest w2 w3 \<Longrightarrow> same_rest w1 w3"
  by (simp add: same_rest_def)

lemma same_disk_refl [simp]: "same_disk w w"
  by (simp add: same_disk_def)

lemma same_disk_trans: "same_disk w1 w2 \<Longrightarrow> same_disk w2 w3 \<Longrightarrow> same_disk w1 w3"
  by (simp add: same_disk_def)

lemma same_disk_tick [simp]: "same_disk w (tick w)"
  by (simp add: same_disk_def)

lemma syscall_reads:
  "syscall fl (\<lambda>w. (b w, w)) w = (r, w') \<Longrightarrow> same_disk w w' \<and> same_rest w w'"
  by (auto simp: syscall_def same_disk_def same_rest_def split: option.splits)

lemma os_reads [os_frame]:
  "os_Stat p w = (rs, w') \<Longrightarrow> same_disk w w' \<and> same_rest w w'"
  "os_Lstat p w = (rl, w') \<Longrightarrow> same_disk w w' \<and> same_rest w w'"
  "os_ReadFile p w = (rf, w') \<Longrightarrow> same_disk w w' \<and> same_rest w w'"
  "os_Readlink p w = (rk, w') \<Longrightarrow> same_disk w w' \<and> same_rest w w'"
  "os_ReadDir p w = (rd, w') \<Longrightarrow> same_disk w w' \<and> same_rest w w'"
  "os_OpenDir p w = (ro, w') \<Longrightarrow> same_disk w w' \<and> same_rest w w'"
  "os_Close w = (rc, w') \<Longrightarrow> same_disk w w' \<and> same_rest w w'"
  unfolding os_Stat_def os_Lstat_def os_ReadFile_def os_Readlink_def os_ReadDir_def os_OpenDir_def
    os_Close_def
  by (erule syscall_reads)+

lemma os_Remove_evolves [os_frame]:
  "os_Remove p w = (r, w') \<Longrightarrow> p \<in> P \<Longrightarrow> None \<in> W p \<Longrightarrow> evolves P W w w' \<and> same_rest w w'"
  by (auto simp: os_Remove_def syscall_def same_rest_def evolves_tick [symmetric, of P W w]
      intro: evolves_refl evolves_unlink_at split: option.splits ent.splits if_splits)

lemma os_Remove_files:
  "os_Remove p w = (r, w') \<Longrightarrow>
   files w' = (if r = None then del p (files w) else files w)"
  by (auto simp: os_Remove_def syscall_def split: option.splits ent.splits if_splits)

lemma os_Rename_evolves [os_frame]:
  assumes "os_Rename p q w = (r, w')" "p \<in> P" "q \<in> P" "None \<in> W p"
    and "p \<noteq> q" "\<And>e. map_of (files w) p = Some e \<Longrightarrow> Some e \<in> W q"
  shows "evolves P W w w' \<and> same_rest w w'"
proof (cases "r = None")
  case False
  with assms(1) have "same_disk w w' \<and> same_rest w w'"
    by (auto simp: os_Rename_def syscall_def same_disk_def same_rest_def split: option.splits if_splits)
  then show ?thesis by (auto intro: evolves_same)
next
  case True
  with assms(1) obtain e where e: "map_of (files w) p = Some e"
    and w': "w' = commit (put q e (del p (files w))) ((q, map_of (files w) q) # (p, Some e) # undo w) (tick w)"
    by (auto simp: os_Rename_def syscall_def split: option.splits if_splits)
  have "evolves P W (tick w) w'" unfolding w'
    using assms e by (intro evolves_commit) (auto simp: crash_ents_def snap_def)
  with w' show ?thesis by (simp add: evolves_tick same_rest_def)
qed

lemma os_Rename_ok:
  assumes "os_Rename p q w = (None, w')"
  obtains e where "map_of (files w) p = Some e" "files w' = put q e (del p (files w))"
    "undo w' = (q, map_of (files w) q) # (p, Some e) # undo w"
  using assms by (auto simp: os_Rename_def syscall_def split: option.splits if_splits)

lemma os_Rename_err: "os_Rename p q w = (Some x, w') \<Longrightarrow> same_disk w w'"
  by (auto simp: os_Rename_def syscall_def same_disk_def split: option.splits if_splits)

lemma os_Symlink_evolves [os_frame]:
  "os_Symlink t p w = (r, w') \<Longrightarrow> p \<in> P \<Longrightarrow> Some (ELink t) \<in> W p \<Longrightarrow> evolves P W w w' \<and> same_rest w w'"
  by (auto simp: os_Symlink_def syscall_def same_rest_def evolves_tick [symmetric, of P W w]
      intro: evolves_refl evolves_link_at split: option.splits if_splits)

lemma os_Symlink_files:
  "os_Symlink t p w = (r, w') \<Longrightarrow>
   files w' = (if r = None then put p (ELink t) (files w) else files w)"
  by (auto simp: os_Symlink_def syscall_def split: option.splits if_splits)

lemma pick_temp_Some:
  "pick_temp rs d pre fs = Some (p, rs') \<Longrightarrow> map_of fs p = None \<and> (\<exists>r. p = path_join d (pre @ show_nat r))"
  by (induction rs d pre fs rule: pick_temp.induct) (auto simp: Let_def split: if_splits)

lemma os_CreateTemp_evolves [os_frame]:
  assumes "os_CreateTemp d pre w = (r, w')"
    and "\<And>n e. path_join d (pre @ show_nat n) \<in> P \<and> Some e \<in> W (path_join d (pre @ show_nat n))"
  shows "evolves P W w w' \<and> same_rest w w'"
proof -
  consider "same_disk w w' \<and> same_rest w w'"
    | n v where "w' = link_at (path_join d (pre @ show_nat n)) (EFile (Raw []) 384 (clock w) False) v"
        "same_disk w v" "same_rest w v"
    using assms(1) by (auto simp: os_CreateTemp_def syscall_def same_disk_def same_rest_def
        dest!: pick_temp_Some split: option.splits if_splits)
  then show ?thesis
  proof cases
    case 2
    then show ?thesis
      using assms(2) by (auto intro!: evolves_same_left [OF 2(2)] evolves_link_at simp: same_rest_def)
  qed (auto intro: evolves_same)
qed

lemma os_CreateTemp_ok:
  assumes "os_CreateTemp d pre w = (Inr p, w')"
  shows "map_of (files w) p = None" "files w' = put p (EFile (Raw []) 384 (clock w) False) (files w)"
    "\<exists>n. p = path_join d (pre @ show_nat n)"
  using assms by (auto simp: os_CreateTemp_def syscall_def dest: pick_temp_Some split: option.splits if_splits)

lemma os_CreateTemp_err: "os_CreateTemp d pre w = (Inl e, w') \<Longrightarrow> same_disk w w'"
  by (auto simp: os_CreateTemp_def syscall_def same_disk_def split: option.splits if_splits)

lemma do_append_evolves:
  "p \<in> P \<Longrightarrow> W p = UNIV \<Longrightarrow> evolves P W w (do_append p d w)"
  by (auto simp: do_append_def intro: evolves_refl evolves_inode_at split: option.splits ent.splits)

lemma do_append_rest: "same_rest w (do_append p d w)"
  by (auto simp: do_append_def same_rest_def split: option.splits ent.splits)

lemma os_Write_evolves [os_frame]:
  "os_Write p d w = (r, w') \<Longrightarrow> p \<in> P \<Longrightarrow> W p = UNIV \<Longrightarrow> evolves P W w w' \<and> same_rest w w'"
  using do_append_evolves [of p P W "tick w"] do_append_rest [of "tick w" p]
  by (auto simp: os_Write_def evolves_tick same_rest_def split: option.splits)

lemma os_Chmod_evolves [os_frame]:
  "os_Chmod p m w = (r, w') \<Longrightarrow> p \<in> P \<Longrightarrow> W p = UNIV \<Longrightarrow> evolves P W w w' \<and> same_rest w w'"
  by (auto simp: os_Chmod_def syscall_def same_rest_def evolves_tick [symmetric, of P W w]
      intro: evolves_refl evolves_inode_at split: option.splits ent.splits)

lemma os_Sync_evolves [os_frame]:
  "os_Sync p w = (r, w') \<Longrightarrow> p \<in> P \<Longrightarrow> W p = UNIV \<Longrightarrow> evolves P W w w' \<and> same_rest w w'"
  by (auto simp: os_Sync_def syscall_def same_rest_def evolves_tick [symmetric, of P W w]
      intro: evolves_refl evolves_inode_at split: option.splits ent.splits)

lemma os_SyncDir_evolves [os_frame]:
  "os_SyncDir d w = (r, w') \<Longrightarrow> evolves P W w w' \<and> same_rest w w'"
  by (auto simp: os_SyncDir_def syscall_def same_rest_def evolves_tick [symmetric, of P W w] crash_ents_def snap_def
      intro!: evolves_refl evolves_commit split: option.splits)

lemma os_OpenCreate_evolves [os_frame]:
  "os_OpenCreate p m w = (r, w') \<Longrightarrow> p \<in> P \<Longrightarrow> W p = UNIV \<Longrightarrow> evolves P W w w' \<and> same_rest w w'"
  by (auto simp: os_OpenCreate_def syscall_def same_rest_def evolves_tick [symmetric, of P W w]
      intro: evolves_refl evolves_link_at split: option.splits if_splits sum.splits ent.splits)

lemma os_Truncate0_evolves [os_frame]:
  "os_Truncate0 p w = (r, w') \<Longrightarrow> p \<in> P \<Longrightarrow> W p = UNIV \<Longrightarrow> evolves P W w w' \<and> same_rest w w'"
  by (auto simp: os_Truncate0_def syscall_def same_rest_def evolves_tick [symmetric, of P W w]
      intro: evolves_refl evolves_inode_at split: option.splits ent.splits)

lemma os_Seek_reads [os_frame]: "os_Seek off w = (r, w') \<Longrightarrow> same_disk w w' \<and> same_rest w w'"
  unfolding os_Seek_def by (erule syscall_reads)

lemma do_write_at_evolves:
  "p \<in> P \<Longrightarrow> W p = UNIV \<Longrightarrow> evolves P W w (do_write_at p off d w)"
  by (auto simp: do_write_at_def intro: evolves_refl evolves_inode_at split: option.splits ent.splits)

lemma do_write_at_rest: "same_rest w (do_write_at p off d w)"
  by (auto simp: do_write_at_def same_rest_def split: option.splits ent.splits)

lemma os_WriteAt_evolves [os_frame]:
  "os_WriteAt p off d w = (r, w') \<Longrightarrow> p \<in> P \<Longrightarrow> W p = UNIV \<Longrightarrow> evolves P W w w' \<and> same_rest w w'"
  using do_write_at_evolves [of p P W "tick w"] do_write_at_rest [of "tick w" p]
  by (auto simp: os_WriteAt_def evolves_tick same_rest_def split: option.splits)

text \<open>A path that is no link is opened as itself.\<close>

definition no_link :: "string \<Rightarrow> tree \<Rightarrow> bool" where
  "no_link p fs \<longleftrightarrow> (case map_of fs p of Some (ELink t) \<Rightarrow> False | _ \<Rightarrow> True)"

lemma follow_file [simp]: "map_of fs p = Some (EFile c m t s) \<Longrightarrow> follow 40 fs p = Inr (p, EFile c m t s)"
  by (simp add: eval_nat_numeral)

lemma follow_dir [simp]: "map_of fs p = Some EDir \<Longrightarrow> follow 40 fs p = Inr (p, EDir)"
  by (simp add: eval_nat_numeral)

lemma follow_none [simp]: "map_of fs p = None \<Longrightarrow> follow 40 fs p = Inl ENOENT"
  by (simp add: eval_nat_numeral)

lemma os_OpenCreate_no_link:
  "os_OpenCreate p m w = (Inr q, w') \<Longrightarrow> no_link p (files w) \<Longrightarrow>
   q = p \<and> (\<exists>c m t s. map_of (files w') p = Some (EFile c m t s))"
  by (auto simp: os_OpenCreate_def syscall_def no_link_def split: option.splits if_splits sum.splits ent.splits)

text \<open>What the calls on an open file leave there.\<close>

lemma os_file_ok:
  assumes "map_of (files w) p = Some (EFile c m t s)"
  shows "os_Write p d w = (None, w1) \<Longrightarrow>
      files w1 = put p (EFile (append_content c d) m (clock w) False) (files w) \<and> undo w1 = undo w"
    "os_Chmod p mode w = (None, w2) \<Longrightarrow> files w2 = put p (EFile c mode t s) (files w) \<and> undo w2 = undo w"
    "os_Sync p w = (None, w3) \<Longrightarrow> files w3 = put p (EFile c m t True) (files w) \<and> undo w3 = undo w"
  using assms by (auto simp: os_Write_def os_Chmod_def os_Sync_def syscall_def do_append_def inode_at_def
      split: option.splits)

lemma os_SyncDir_ok:
  "os_SyncDir d w = (None, w') \<Longrightarrow> files w' = files w \<and> undo w' = filter (\<lambda>e. path_dir (fst e) \<noteq> d) (undo w)"
  by (auto simp: os_SyncDir_def syscall_def split: option.splits)

lemma os_SyncDir_files: "os_SyncDir d w = (r, w') \<Longrightarrow> files w' = files w"
  by (auto simp: os_SyncDir_def syscall_def split: option.splits)

end
