(* ===== verification/Atomicio.thy ===== *)
theory Atomicio
  imports Os
begin

text \<open>
  The package \<open>atomicio\<close>: durable atomic writes (temporary file, fsync, rename, fsync of the
  directory), the replacement of a symbolic link, the sweep of stale temporary files, and the two
  probes of the disk. The lemmas say what each call leaves at its path, at the end and at every
  moment a power loss may strike.
\<close>

section \<open>Definitions\<close>

subsection \<open>fsyncDir and writeAndSync\<close>

definition fsyncDir :: "string \<Rightarrow> 'z os_scheme \<Rightarrow> err option \<times> 'z os_scheme" where
  "fsyncDir d w =
     (case os_OpenDir d w of
        (Some e, w) \<Rightarrow> (Some (Wrap ''open dir'' e), w)
      | (None, w) \<Rightarrow>
          (case os_SyncDir d w of
             (Some e, w) \<Rightarrow> (Some (Wrap ''sync dir'' e), snd (os_Close w))
           | (None, w) \<Rightarrow> (None, snd (os_Close w))))"

definition writeAndSync :: "string \<Rightarrow> content \<Rightarrow> nat \<Rightarrow> 'z os_scheme \<Rightarrow> err option \<times> 'z os_scheme" where
  "writeAndSync f data mode w =
     (case os_Write f data w of
        (Some e, w) \<Rightarrow> (Some (Wrap ''atomicio: write'' e), w)
      | (None, w) \<Rightarrow>
          (case os_Chmod f mode w of
             (Some e, w) \<Rightarrow> (Some (Wrap ''atomicio: chmod'' e), w)
           | (None, w) \<Rightarrow>
               (case os_Sync f w of
                  (Some e, w) \<Rightarrow> (Some (Wrap ''atomicio: fsync'' e), w)
                | (None, w) \<Rightarrow> (None, w))))"

text \<open>The cleanup of an error path: close the file if it is open, remove it, keep the error.\<close>

definition discard :: "bool \<Rightarrow> string \<Rightarrow> 'z os_scheme \<Rightarrow> 'z os_scheme" where
  "discard opened tmp w = snd (os_Remove tmp (if opened then snd (os_Close w) else w))"

text \<open>The steps \<open>WriteFile\<close> and \<open>WriteReader\<close> share: rename into place and sync the directory.\<close>

definition rename_and_sync :: "string \<Rightarrow> string \<Rightarrow> string \<Rightarrow> 'z os_scheme \<Rightarrow> err option \<times> 'z os_scheme" where
  "rename_and_sync dir tmp path w =
     (case os_Rename tmp path w of
        (Some e, w) \<Rightarrow> (Some (Wrap ''atomicio: rename'' e), discard False tmp w)
      | (None, w) \<Rightarrow> (None, snd (fsyncDir dir w)))"

subsection \<open>WriteFile\<close>

definition WriteFile :: "string \<Rightarrow> content \<Rightarrow> nat \<Rightarrow> 'z os_scheme \<Rightarrow> err option \<times> 'z os_scheme" where
  "WriteFile path data mode w =
     (let dir = path_dir path
      in case os_CreateTemp dir ''.tmp-'' w of
           (Inl e, w) \<Rightarrow> (Some (Wrap ''atomicio: create temp'' e), w)
         | (Inr tmp, w) \<Rightarrow>
             (case writeAndSync tmp data mode w of
                (Some e, w) \<Rightarrow> (Some e, discard True tmp w)
              | (None, w) \<Rightarrow>
                  (case os_Close w of
                     (Some e, w) \<Rightarrow> (Some (Wrap ''atomicio: close temp'' e), discard False tmp w)
                   | (None, w) \<Rightarrow> rename_and_sync dir tmp path w)))"

subsection \<open>WriteReader\<close>

text \<open>
  A reader yields its chunks and then ends, or fails. \<open>io.Copy\<close> writes each chunk as it comes.
\<close>

type_synonym reader = "content list \<times> err option"

fun io_Copy :: "string \<Rightarrow> content list \<Rightarrow> err option \<Rightarrow> 'z os_scheme \<Rightarrow> err option \<times> 'z os_scheme" where
  "io_Copy f [] rerr w = (rerr, w)"
| "io_Copy f (c # cs) rerr w =
     (case os_Write f c w of
        (Some e, w) \<Rightarrow> (Some e, w)
      | (None, w) \<Rightarrow> io_Copy f cs rerr w)"

definition WriteReader :: "string \<Rightarrow> reader \<Rightarrow> nat \<Rightarrow> 'z os_scheme \<Rightarrow> err option \<times> 'z os_scheme" where
  "WriteReader path r mode w =
     (let dir = path_dir path
      in case os_CreateTemp dir ''.tmp-'' w of
           (Inl e, w) \<Rightarrow> (Some (Wrap ''atomicio: create temp'' e), w)
         | (Inr tmp, w) \<Rightarrow>
             (case io_Copy tmp (fst r) (snd r) w of
                (Some e, w) \<Rightarrow> (Some (Wrap ''atomicio: copy'' e), discard True tmp w)
              | (None, w) \<Rightarrow>
                  (case os_Chmod tmp mode w of
                     (Some e, w) \<Rightarrow> (Some (Wrap ''atomicio: chmod'' e), discard True tmp w)
                   | (None, w) \<Rightarrow>
                       (case os_Sync tmp w of
                          (Some e, w) \<Rightarrow> (Some (Wrap ''atomicio: fsync'' e), discard True tmp w)
                        | (None, w) \<Rightarrow>
                            (case os_Close w of
                               (Some e, w) \<Rightarrow>
                                 (Some (Wrap ''atomicio: close temp'' e), discard False tmp w)
                             | (None, w) \<Rightarrow> rename_and_sync dir tmp path w)))))"

subsection \<open>ReplaceSymlink\<close>

definition ReplaceSymlink :: "string \<Rightarrow> string \<Rightarrow> 'z os_scheme \<Rightarrow> err option \<times> 'z os_scheme" where
  "ReplaceSymlink target linkPath w =
     (let dir = path_dir linkPath;
          tmp = linkPath @ ''.tmp'';
          w = snd (os_Remove tmp w)
      in case os_Symlink target tmp w of
           (Some e, w) \<Rightarrow> (Some (Wrap ''atomicio: create temp symlink'' e), w)
         | (None, w) \<Rightarrow>
             (case os_Rename tmp linkPath w of
                (Some e, w) \<Rightarrow> (Some (Wrap ''atomicio: rename symlink'' e), discard False tmp w)
              | (None, w) \<Rightarrow> (None, snd (fsyncDir dir w))))"

subsection \<open>SweepStaleTemp\<close>

fun hasAnyPrefix :: "string \<Rightarrow> string list \<Rightarrow> bool" where
  "hasAnyPrefix s [] = False"
| "hasAnyPrefix s (p # ps) =
     (if length p \<le> length s \<and> take (length p) s = p then True else hasAnyPrefix s ps)"

fun sweep_entries ::
  "string \<Rightarrow> string list \<Rightarrow> int \<Rightarrow> string list \<Rightarrow> nat \<Rightarrow> nat \<Rightarrow> 'z os_scheme \<Rightarrow> (nat \<times> nat) \<times> 'z os_scheme" where
  "sweep_entries dir prefixes cutoff [] removed failed w = ((removed, failed), w)"
| "sweep_entries dir prefixes cutoff (name # names) removed failed w =
     (if \<not> hasAnyPrefix name prefixes then sweep_entries dir prefixes cutoff names removed failed w
      else
        (let path = path_join dir name
         in case os_Lstat path w of
              (Inl e, w) \<Rightarrow> sweep_entries dir prefixes cutoff names removed failed w
            | (Inr info, w) \<Rightarrow>
                if info = EDir \<or> cutoff < ent_mtime info
                then sweep_entries dir prefixes cutoff names removed failed w
                else
                  (case os_Remove path w of
                     (Some e, w) \<Rightarrow> sweep_entries dir prefixes cutoff names removed (failed + 1) w
                   | (None, w) \<Rightarrow> sweep_entries dir prefixes cutoff names (removed + 1) failed w)))"

definition SweepStaleTemp ::
  "string \<Rightarrow> string list \<Rightarrow> int \<Rightarrow> 'z os_scheme \<Rightarrow> (nat \<times> nat) \<times> 'z os_scheme" where
  "SweepStaleTemp dir prefixes maxAge w =
     (case os_ReadDir dir w of
        (Inl e, w) \<Rightarrow> ((0, 0), w)
      | (Inr entries, w) \<Rightarrow>
          sweep_entries dir prefixes (os_Now w - maxAge) entries 0 0 w)"

subsection \<open>IsDiskFull and Free\<close>

definition IsDiskFull :: "err option \<Rightarrow> bool" where
  "IsDiskFull e = (case e of None \<Rightarrow> False | Some x \<Rightarrow> errors_Is x ENOSPC)"

record statfs = Bavail :: "64 word"  Blocks :: "64 word"  Bsize :: "64 word"

definition Free :: "(string \<Rightarrow> err + statfs) \<Rightarrow> string \<Rightarrow> err + 64 word \<times> 64 word" where
  "Free statfs path =
     (case statfs path of
        Inl e \<Rightarrow> Inl (Wrap ''atomicio: statfs'' e)
      | Inr st \<Rightarrow> Inr (Bavail st * Bsize st, Blocks st * Bsize st))"

section \<open>Temporary names\<close>

definition is_tmp :: "string \<Rightarrow> bool" where
  "is_tmp q \<longleftrightarrow> has_prefix (path_base q) ''.tmp-''"

abbreviation tmps :: "string set" where
  "tmps \<equiv> {q. is_tmp q}"

lemma join_with_eq_Nil: "join_with c xs = '''' \<longleftrightarrow> xs = [] \<or> xs = ['''']"
  by (induction c xs rule: join_with.induct) auto

lemma path_clean_not_Nil [simp]: "path_clean s \<noteq> ''''"
proof (cases "clean_stack s")
  case (Cons p st)
  have "p \<noteq> ''''" using normal_clean_stack [of s] Cons by simp
  with Cons show ?thesis
    by (auto simp: path_clean_def render_def Let_def join_with_eq_Nil append_eq_Cons_conv)
qed (simp add: path_clean_def render_def)

lemma path_dir_not_Nil [simp]: "path_dir p \<noteq> ''''"
  by (simp add: path_dir_def)

lemma path_seg_tmp: "path_seg (''.tmp-'' @ show_nat n)"
  using show_nat_digits [of "CHR ''/''" n] by (auto simp: path_seg_def is_digit_def)

lemma is_tmp_created: "d \<noteq> '''' \<Longrightarrow> is_tmp (path_join d (''.tmp-'' @ show_nat n))"
  using path_base_join [OF _ path_seg_tmp, of d n] has_prefix_append [of "''.tmp-''" "show_nat n"]
  unfolding is_tmp_def by simp

section \<open>Atomic writes\<close>

text \<open>Temporary names may hold anything; the path \<open>p\<close> may hold an entry of \<open>E\<close>.\<close>

definition only_at :: "string \<Rightarrow> ent option set \<Rightarrow> string \<Rightarrow> ent option set" where
  "only_at p E q = (if is_tmp q then UNIV else if q = p then E else {})"

lemma only_at_tmp [simp]: "is_tmp q \<Longrightarrow> only_at p E q = UNIV"
  by (simp add: only_at_def)

lemma only_at_self [simp]: "\<not> is_tmp p \<Longrightarrow> only_at p E p = E"
  by (simp add: only_at_def)

lemma only_at_mono: "E \<subseteq> F \<Longrightarrow> only_at p E q \<subseteq> only_at p F q"
  by (auto simp: only_at_def)

abbreviation writes_at :: "string \<Rightarrow> ent option set \<Rightarrow> 'z os_scheme \<Rightarrow> 'z os_scheme \<Rightarrow> bool" where
  "writes_at p E w w' \<equiv> evolves (insert p tmps) (only_at p E) w w' \<and> same_rest w w'"

text \<open>Nothing but temporary files is touched.\<close>

abbreviation temp_only :: "'z os_scheme \<Rightarrow> 'z os_scheme \<Rightarrow> bool" where
  "temp_only w w' \<equiv> evolves tmps (only_at [] {}) w w' \<and> same_rest w w'"

lemma writes_at_trans: "writes_at p E w1 w2 \<Longrightarrow> writes_at p E w2 w3 \<Longrightarrow> writes_at p E w1 w3"
  using evolves_step same_rest_trans by blast

lemma temp_only_trans: "temp_only w1 w2 \<Longrightarrow> temp_only w2 w3 \<Longrightarrow> temp_only w1 w3"
  using evolves_step same_rest_trans by blast

lemma not_tmp_Nil [simp]: "\<not> is_tmp ''''"
  by (simp add: is_tmp_def path_base_def has_prefix_def)

lemma only_at_none: "only_at '''' {} q \<subseteq> only_at p E q"
  by (simp add: only_at_def)

lemma temp_only_writes: "temp_only w w' \<Longrightarrow> writes_at p E w w'"
  using evolves_mono [of tmps "only_at [] {}" w w' "insert p tmps" "only_at p E"] only_at_none
  by blast

lemma reads_temp_only: "same_disk w w' \<and> same_rest w w' \<Longrightarrow> temp_only w w'"
  by (simp add: evolves_same)

lemma temp_only_refl [simp]: "temp_only w w"
  by (simp add: evolves_refl)

lemma temp_calls:
  assumes "is_tmp tmp"
  shows "os_Write tmp c w = (r1, w1) \<Longrightarrow> temp_only w w1"
    "os_Chmod tmp m w = (r2, w2) \<Longrightarrow> temp_only w w2"
    "os_Sync tmp w = (r3, w3) \<Longrightarrow> temp_only w w3"
    "os_Remove tmp w = (r4, w4) \<Longrightarrow> temp_only w w4"
  using assms os_Write_evolves [of tmp c w r1 w1 tmps "only_at [] {}"]
    os_Chmod_evolves [of tmp m w r2 w2 tmps "only_at [] {}"]
    os_Sync_evolves [of tmp w r3 w3 tmps "only_at [] {}"]
    os_Remove_evolves [of tmp w r4 w4 tmps "only_at [] {}"]
  by simp_all

lemma os_Close_temp_only: "os_Close w = (r, w') \<Longrightarrow> temp_only w w'"
  by (rule reads_temp_only) (rule os_reads)

lemma os_Remove_temp_only: "is_tmp tmp \<Longrightarrow> temp_only w (snd (os_Remove tmp w))"
  by (rule temp_calls(4)) (auto intro: prod.collapse [symmetric])

lemma discard_temp_only: "is_tmp tmp \<Longrightarrow> temp_only w (discard b tmp w)"
proof -
  assume t: "is_tmp tmp"
  have "temp_only w (if b then snd (os_Close w) else w)"
    using os_Close_temp_only [of w] by (cases "os_Close w") auto
  with temp_calls(4) [OF t] show ?thesis
    unfolding discard_def by (metis prod.collapse temp_only_trans)
qed

text \<open>Syncing a directory adds no new outcome of a power loss anywhere.\<close>

lemma fsyncDir_evolves [os_frame]:
  "fsyncDir d w = (r, w') \<Longrightarrow> evolves P W w w' \<and> same_rest w w'"
proof -
  assume eq: "fsyncDir d w = (r, w')"
  obtain r1 w1 where 1: "os_OpenDir d w = (r1, w1)" by fastforce
  obtain r2 w2 where 2: "os_SyncDir d w1 = (r2, w2)" by fastforce
  obtain r3 w3 where 3: "os_Close w2 = (r3, w3)" by fastforce
  have "evolves P W w w1 \<and> same_rest w w1" using os_reads(6) [OF 1] by (simp add: evolves_same)
  moreover have "evolves P W w1 w2 \<and> same_rest w1 w2" by (rule os_SyncDir_evolves [OF 2])
  moreover have "evolves P W w2 w3 \<and> same_rest w2 w3"
    using os_reads(7) [OF 3] by (simp add: evolves_same)
  moreover have "w' = w1 \<or> w' = w3" using eq 1 2 3 by (auto simp: fsyncDir_def split: option.splits)
  ultimately show ?thesis using evolves_step same_rest_trans by blast
qed

lemmas fsyncDir_temp_only = fsyncDir_evolves [of _ _ _ _ tmps "only_at '''' {}"]

lemma fsyncDir_files: "fsyncDir d w = (r, w') \<Longrightarrow> files w' = files w"
proof -
  assume eq: "fsyncDir d w = (r, w')"
  obtain r1 w1 where 1: "os_OpenDir d w = (r1, w1)" by fastforce
  obtain r2 w2 where 2: "os_SyncDir d w1 = (r2, w2)" by fastforce
  obtain r3 w3 where 3: "os_Close w2 = (r3, w3)" by fastforce
  have "w' = w1 \<or> w' = w3" using eq 1 2 3 by (auto simp: fsyncDir_def split: option.splits)
  then show ?thesis
    using os_reads(6) [OF 1] os_SyncDir_files [OF 2] os_reads(7) [OF 3] by (auto simp: same_disk_def)
qed

text \<open>A synced directory has nothing left that a power loss could bring back.\<close>

lemma fsyncDir_durable:
  "fsyncDir d w = (None, w') \<Longrightarrow> path_dir q = d \<Longrightarrow> crash_ents (snap w') q = {map_of (files w') q}"
proof -
  assume eq: "fsyncDir d w = (None, w')" and q: "path_dir q = d"
  obtain r1 w1 where 1: "os_OpenDir d w = (r1, w1)" by fastforce
  obtain r2 w2 where 2: "os_SyncDir d w1 = (r2, w2)" by fastforce
  obtain r3 w3 where 3: "os_Close w2 = (r3, w3)" by fastforce
  have "r2 = None" "w' = w3" using eq 1 2 3 by (auto simp: fsyncDir_def split: option.splits)
  then have "undo w' = filter (\<lambda>e. path_dir (fst e) \<noteq> d) (undo w1)"
    using os_SyncDir_ok 2 os_reads(7) [OF 3] by (fastforce simp: same_disk_def)
  with q show ?thesis by (auto simp: crash_ents_def snap_def)
qed

lemma rename_and_sync_writes:
  assumes eq: "rename_and_sync dir tmp p w = (r, w')"
    and tmp: "is_tmp tmp" "\<not> is_tmp p" "map_of (files w) tmp = Some e" and E: "Some e \<in> E"
  shows "writes_at p E w w'"
    "map_of (files w') p = (if r = None then Some e else map_of (files w) p)"
proof -
  obtain r1 w1 where 1: "os_Rename tmp p w = (r1, w1)" by fastforce
  have ne: "tmp \<noteq> p" using tmp by auto
  have s1: "writes_at p E w w1"
    using os_Rename_evolves [OF 1, of "insert p tmps" "only_at p E"] tmp ne E by simp
  have "writes_at p E w w' \<and> map_of (files w') p = (if r = None then Some e else map_of (files w) p)"
  proof (cases r1)
    case None
    obtain r2 w2 where 2: "fsyncDir dir w1 = (r2, w2)" by fastforce
    have w': "w' = w2" "r = None" using eq 1 2 None by (simp_all add: rename_and_sync_def)
    have "map_of (files w1) p = Some e"
      using os_Rename_ok [OF 1 [unfolded None]] tmp(3) by (metis fun_upd_same map_of_put option.inject)
    then show ?thesis
      using writes_at_trans [OF s1 temp_only_writes [OF fsyncDir_temp_only [OF 2]]] w'
        fsyncDir_files [OF 2] by simp
  next
    case (Some x)
    have w': "w' = discard False tmp w1" "r \<noteq> None" using eq 1 Some by (auto simp: rename_and_sync_def)
    have d: "temp_only w1 w'" unfolding w' by (rule discard_temp_only [OF tmp(1)])
    have "map_of (files w') p = map_of (files w1) p"
      using d tmp(2) by (auto intro: evolvesD [of tmps])
    moreover have "files w1 = files w" using os_Rename_err [OF 1 [unfolded Some]] by (simp add: same_disk_def)
    ultimately show ?thesis using writes_at_trans [OF s1 temp_only_writes [OF d]] w'(2) by auto
  qed
  then show "writes_at p E w w'"
    "map_of (files w') p = (if r = None then Some e else map_of (files w) p)" by auto
qed

text \<open>The temporary file of a write: a fresh name, an empty file.\<close>

lemma CreateTemp_temp_only:
  "os_CreateTemp (path_dir p) ''.tmp-'' w = (r, w') \<Longrightarrow> temp_only w w'"
  by (rule os_CreateTemp_evolves, assumption) (simp add: is_tmp_created [simplified])

lemma CreateTemp_file:
  "os_CreateTemp (path_dir p) ''.tmp-'' w = (Inr tmp, w') \<Longrightarrow>
   is_tmp tmp \<and> map_of (files w') tmp = Some (EFile (Raw []) 384 (clock w) False)"
  using os_CreateTemp_ok [of "path_dir p" "''.tmp-''" w tmp w'] is_tmp_created [of "path_dir p"] by auto

lemma os_Close_files: "os_Close w = (r, w') \<Longrightarrow> files w' = files w"
  using os_reads(7) [of w r w'] by (simp add: same_disk_def)

lemma writeAndSync_ok:
  assumes eq: "writeAndSync f data mode w = (r, w')" and tmp: "is_tmp f"
  shows "temp_only w w'"
    "r = None \<Longrightarrow> map_of (files w) f = Some (EFile (Raw []) m t s) \<Longrightarrow>
     map_of (files w') f = Some (EFile data mode (clock w) True)"
proof -
  obtain r1 w1 where 1: "os_Write f data w = (r1, w1)" by fastforce
  obtain r2 w2 where 2: "os_Chmod f mode w1 = (r2, w2)" by fastforce
  obtain r3 w3 where 3: "os_Sync f w2 = (r3, w3)" by fastforce
  note steps = temp_calls(1) [OF tmp 1] temp_calls(2) [OF tmp 2] temp_calls(3) [OF tmp 3]
  have "w' = w1 \<or> w' = w2 \<or> w' = w3"
    using eq 1 2 3 by (auto simp: writeAndSync_def split: option.splits)
  with steps(1) temp_only_trans [OF steps(1,2)] temp_only_trans [OF temp_only_trans [OF steps(1,2)] steps(3)]
  show "temp_only w w'" by blast
  assume "r = None" and f: "map_of (files w) f = Some (EFile (Raw []) m t s)"
  then have ok: "r1 = None" "r2 = None" "r3 = None" "w' = w3"
    using eq 1 2 3 by (auto simp: writeAndSync_def split: option.splits)
  have f1: "map_of (files w1) f = Some (EFile data m (clock w) False)"
    using os_file_ok(1) [OF f, of data w1] 1 ok by (simp add: append_content_def)
  have f2: "map_of (files w2) f = Some (EFile data mode (clock w) False)"
    using os_file_ok(2) [OF f1, of mode w2] 2 ok by simp
  show "map_of (files w') f = Some (EFile data mode (clock w) True)"
    using os_file_ok(3) [OF f2, of w3] 3 ok by simp
qed

text \<open>
  The last steps of a write whose temporary file is complete and synced; the first component of
  each conclusion is what a power loss can leave, the second what is there in the end.
\<close>

definition atomic_write :: "string \<Rightarrow> ent \<Rightarrow> 'z os_scheme \<Rightarrow> err option \<Rightarrow> 'z os_scheme \<Rightarrow> bool" where
  "atomic_write p e w r w' \<longleftrightarrow>
     writes_at p {Some e} w w' \<and>
     map_of (files w') p = (if r = None then Some e else map_of (files w) p)"

lemma atomic_write_abort:
  "temp_only w w' \<Longrightarrow> \<not> is_tmp p \<Longrightarrow> r \<noteq> None \<Longrightarrow> atomic_write p e w r w'"
  using temp_only_writes [of w w' p "{Some e}"] evolvesD [of tmps _ w w' p] by (auto simp: atomic_write_def)

lemma atomic_write_after:
  "temp_only w w1 \<Longrightarrow> \<not> is_tmp p \<Longrightarrow> atomic_write p e w1 r w' \<Longrightarrow> atomic_write p e w r w'"
  using writes_at_trans [OF temp_only_writes [of w w1 p "{Some e}"], of w']
    evolvesD [of tmps _ w w1 p] by (auto simp: atomic_write_def)

lemma close_and_rename:
  assumes tmp: "is_tmp tmp" "\<not> is_tmp p" "map_of (files w) tmp = Some e"
    and eq: "(case os_Close w of
               (Some x, w) \<Rightarrow> (Some (Wrap m x), discard False tmp w)
             | (None, w) \<Rightarrow> rename_and_sync dir tmp p w) = (r, w')"
  shows "atomic_write p e w r w'"
proof -
  obtain r1 w1 where 1: "os_Close w = (r1, w1)" by fastforce
  have c: "temp_only w w1" by (rule os_Close_temp_only [OF 1])
  show ?thesis
  proof (cases r1)
    case None
    with eq 1 have "rename_and_sync dir tmp p w1 = (r, w')" by simp
    from rename_and_sync_writes [OF this tmp(1,2), of e "{Some e}"] os_Close_files [OF 1] tmp
    have "atomic_write p e w1 r w'" by (simp add: atomic_write_def)
    with c tmp(2) show ?thesis by (rule atomic_write_after)
  next
    case (Some x)
    with eq 1 have "w' = discard False tmp w1" "r \<noteq> None" by auto
    with temp_only_trans [OF c discard_temp_only [OF tmp(1)]] tmp(2) show ?thesis
      by (auto intro: atomic_write_abort)
  qed
qed

lemma WriteFile_atomic:
  assumes eq: "WriteFile p data mode w = (r, w')" and p: "\<not> is_tmp p"
  shows "atomic_write p (EFile data mode (clock w) True) w r w'"
proof -
  let ?e = "EFile data mode (clock w) True"
  obtain r1 w1 where 1: "os_CreateTemp (path_dir p) ''.tmp-'' w = (r1, w1)" by fastforce
  note t1 = CreateTemp_temp_only [OF 1]
  show ?thesis
  proof (cases r1)
    case (Inl x)
    with eq 1 have "w' = w1" "r \<noteq> None" by (auto simp: WriteFile_def)
    with t1 p show ?thesis by (auto intro: atomic_write_abort)
  next
    case (Inr tmp)
    note f1 = CreateTemp_file [OF 1 [unfolded Inr]]
    obtain r2 w2 where 2: "writeAndSync tmp data mode w1 = (r2, w2)" by fastforce
    note ws = writeAndSync_ok [OF 2 conjunct1 [OF f1]]
    note t2 = temp_only_trans [OF t1 ws(1)]
    show ?thesis
    proof (cases r2)
      case None
      have "map_of (files w2) tmp = Some ?e"
        using ws(2) [OF None conjunct2 [OF f1]] t1 by (simp add: same_rest_def)
      then have "atomic_write p ?e w2 r w'"
        using close_and_rename [of tmp p w2] f1 p eq 1 2 Inr None by (simp add: WriteFile_def)
      with t2 f1 p show ?thesis by (blast intro: atomic_write_after)
    next
      case (Some x)
      with eq 1 2 Inr have "w' = discard True tmp w2" "r \<noteq> None" by (auto simp: WriteFile_def)
      with t2 f1 p show ?thesis
        by (auto intro!: atomic_write_abort temp_only_trans [OF t2] discard_temp_only)
    qed
  qed
qed

subsection \<open>Streams\<close>

definition joined :: "content list \<Rightarrow> content" where
  "joined cs = foldl append_content (Raw []) cs"

lemma joined_single [simp]: "joined [c] = c"
  by (simp add: joined_def append_content_def)

lemma io_Copy_temp_only:
  "io_Copy f cs rerr w = (r, w') \<Longrightarrow> is_tmp f \<Longrightarrow> temp_only w w'"
proof (induction f cs rerr w rule: io_Copy.induct)
  case (2 f c cs rerr w)
  obtain r1 w1 where 1: "os_Write f c w = (r1, w1)" by fastforce
  note t1 = temp_calls(1) [OF 2(3) 1]
  show ?case
  proof (cases r1)
    case None
    with 2 1 have "temp_only w1 w'" by simp
    with t1 show ?thesis by (rule temp_only_trans)
  next
    case Some
    with 2 1 t1 show ?thesis by simp
  qed
qed simp

lemma io_Copy_ok:
  "io_Copy f cs rerr w = (None, w') \<Longrightarrow> map_of (files w) f = Some (EFile c m (clock w) s) \<Longrightarrow>
   rerr = None \<and> (\<exists>s'. map_of (files w') f = Some (EFile (foldl append_content c cs) m (clock w) s'))"
proof (induction f cs rerr w arbitrary: c s rule: io_Copy.induct)
  case (2 f d cs rerr w)
  obtain r1 w1 where 1: "os_Write f d w = (r1, w1)" by fastforce
  with 2 have r1: "r1 = None" and rest: "io_Copy f cs rerr w1 = (None, w')"
    by (auto split: option.splits)
  have "clock w1 = clock w"
    using os_Write_evolves [OF 1, of UNIV "\<lambda>_. UNIV"] by (simp add: same_rest_def)
  moreover have "map_of (files w1) f = Some (EFile (append_content c d) m (clock w) False)"
    using os_file_ok(1) [OF 2(3), of d w1] 1 r1 by simp
  ultimately show ?case using 2(1) [OF 1 [symmetric] r1 rest] by fastforce
qed auto

lemma WriteReader_atomic:
  assumes eq: "WriteReader p (cs, rerr) mode w = (r, w')" and p: "\<not> is_tmp p"
  shows "atomic_write p (EFile (joined cs) mode (clock w) True) w r w'"
proof -
  let ?e = "EFile (joined cs) mode (clock w) True"
  obtain r1 w1 where 1: "os_CreateTemp (path_dir p) ''.tmp-'' w = (r1, w1)" by fastforce
  note t1 = CreateTemp_temp_only [OF 1]
  have abort: "atomic_write p ?e w r w'" if "r \<noteq> None" "temp_only w w'"
    using that p by (auto intro: atomic_write_abort)
  show ?thesis
  proof (cases r1)
    case (Inl x)
    with eq 1 t1 abort show ?thesis by (auto simp: WriteReader_def)
  next
    case (Inr tmp)
    note f1 = CreateTemp_file [OF 1 [unfolded Inr]]
    note tmp = conjunct1 [OF f1]
    have drop: "atomic_write p ?e w r w'" if "r \<noteq> None" "temp_only w v" "w' = discard True tmp v" for v
      using that temp_only_trans [OF that(2) discard_temp_only [OF tmp]] abort by auto
    obtain r2 w2 where 2: "io_Copy tmp cs rerr w1 = (r2, w2)" by fastforce
    obtain r3 w3 where 3: "os_Chmod tmp mode w2 = (r3, w3)" by fastforce
    obtain r4 w4 where 4: "os_Sync tmp w3 = (r4, w4)" by fastforce
    note t2 = temp_only_trans [OF t1 io_Copy_temp_only [OF 2 tmp]]
    note t3 = temp_only_trans [OF t2 temp_calls(2) [OF tmp 3]]
    note t4 = temp_only_trans [OF t3 temp_calls(3) [OF tmp 4]]
    consider "r2 \<noteq> None" | "r2 = None" "r3 \<noteq> None" | "r2 = None" "r3 = None" "r4 \<noteq> None"
      | "r2 = None" "r3 = None" "r4 = None" by blast
    then show ?thesis
    proof cases
      case 1
      with eq \<open>os_CreateTemp _ _ _ = _\<close> Inr 2 show ?thesis
        by (intro drop [OF _ t2]) (auto simp: WriteReader_def)
    next
      case a: 2
      with eq 1 Inr 2 3 show ?thesis by (intro drop [OF _ t3]) (auto simp: WriteReader_def)
    next
      case a: 3
      with eq 1 Inr 2 3 4 show ?thesis by (intro drop [OF _ t4]) (auto simp: WriteReader_def)
    next
      case ok: 4
      have c1: "clock w1 = clock w" using t1 by (simp add: same_rest_def)
      obtain s where f2: "map_of (files w2) tmp = Some (EFile (joined cs) 384 (clock w) s)"
        using io_Copy_ok [OF 2 [unfolded ok]] f1 c1 unfolding joined_def by metis
      have f3: "map_of (files w3) tmp = Some (EFile (joined cs) mode (clock w) s)"
        using os_file_ok(2) [OF f2, of mode w3] 3 ok by simp
      have "map_of (files w4) tmp = Some ?e"
        using os_file_ok(3) [OF f3, of w4] 4 ok by simp
      then have "atomic_write p ?e w4 r w'"
        using close_and_rename [of tmp p w4] tmp p eq 1 2 3 4 Inr ok by (simp add: WriteReader_def)
      with t4 p show ?thesis by (rule atomic_write_after)
    qed
  qed
qed

subsection \<open>Replacing a link\<close>

abbreviation link_paths :: "string \<Rightarrow> string set" where
  "link_paths l \<equiv> {l, l @ ''.tmp''}"

definition only_link :: "string \<Rightarrow> ent option set \<Rightarrow> string \<Rightarrow> ent option set" where
  "only_link l E q = (if q = l @ ''.tmp'' then UNIV else if q = l then E else {})"

definition atomic_link :: "string \<Rightarrow> string \<Rightarrow> 'z os_scheme \<Rightarrow> err option \<Rightarrow> 'z os_scheme \<Rightarrow> bool" where
  "atomic_link l t w r w' \<longleftrightarrow>
     evolves (link_paths l) (only_link l {Some (ELink t)}) w w' \<and> same_rest w w' \<and>
     map_of (files w') l = (if r = None then Some (ELink t) else map_of (files w) l)"

lemma ReplaceSymlink_atomic:
  assumes eq: "ReplaceSymlink t l w = (r, w')"
  shows "atomic_link l t w r w'"
proof -
  let ?tmp = "l @ ''.tmp''" and ?P = "link_paths l" and ?W = "only_link l {Some (ELink t)}"
  have W: "?W ?tmp = UNIV" "Some (ELink t) \<in> ?W l" by (simp_all add: only_link_def)
  obtain r0 w0 where 0: "os_Remove ?tmp w = (r0, w0)" by fastforce
  obtain r1 w1 where 1: "os_Symlink t ?tmp w0 = (r1, w1)" by fastforce
  obtain r2 w2 where 2: "os_Rename ?tmp l w1 = (r2, w2)" by fastforce
  have s0: "evolves ?P ?W w w0 \<and> same_rest w w0"
    using os_Remove_evolves [OF 0, of ?P ?W] W by simp
  have f0: "map_of (files w0) l = map_of (files w) l"
    using os_Remove_files [OF 0] by auto
  have s1: "evolves ?P ?W w0 w1 \<and> same_rest w0 w1"
    using os_Symlink_evolves [OF 1, of ?P ?W] W by simp
  have f1: "map_of (files w1) l = map_of (files w) l"
    using os_Symlink_files [OF 1] f0 by auto
  note s01 = evolves_step [OF conjunct1 [OF s0] conjunct1 [OF s1]]
    same_rest_trans [OF conjunct2 [OF s0] conjunct2 [OF s1]]
  show ?thesis
  proof (cases r1)
    case (Some x)
    with eq 0 1 have "w' = w1" "r \<noteq> None" by (auto simp: ReplaceSymlink_def Let_def)
    with s01 f1 show ?thesis by (auto simp: atomic_link_def)
  next
    case None
    have e1: "map_of (files w1) ?tmp = Some (ELink t)" using os_Symlink_files [OF 1] None by simp
    have s2: "evolves ?P ?W w1 w2 \<and> same_rest w1 w2"
      using os_Rename_evolves [OF 2, of ?P ?W] W e1 by simp
    note s02 = evolves_step [OF s01(1) conjunct1 [OF s2]] same_rest_trans [OF s01(2) conjunct2 [OF s2]]
    show ?thesis
    proof (cases r2)
      case (Some x)
      have f2: "files w2 = files w1" using os_Rename_err [OF 2 [unfolded Some]] by (simp add: same_disk_def)
      obtain r3 w3 where 3: "os_Remove ?tmp w2 = (r3, w3)" by fastforce
      have w': "w' = w3" "r \<noteq> None"
        using eq 0 1 2 3 None Some by (auto simp: ReplaceSymlink_def Let_def discard_def)
      have s3: "evolves ?P ?W w2 w3 \<and> same_rest w2 w3"
        using os_Remove_evolves [OF 3, of ?P ?W] W by simp
      have "map_of (files w3) l = map_of (files w) l"
        using os_Remove_files [OF 3] f2 f1 by auto
      with s02 s3 w' show ?thesis
        unfolding atomic_link_def using evolves_step same_rest_trans by auto
    next
      case ok: None
      obtain r3 w3 where 3: "fsyncDir (path_dir l) w2 = (r3, w3)" by fastforce
      have w': "w' = w3" "r = None"
        using eq 0 1 2 3 None ok by (auto simp: ReplaceSymlink_def Let_def)
      have "map_of (files w2) l = Some (ELink t)"
        using os_Rename_ok [OF 2 [unfolded ok]] e1 by (metis fun_upd_same map_of_put option.inject)
      moreover have "evolves ?P ?W w2 w3 \<and> same_rest w2 w3" by (rule fsyncDir_evolves [OF 3])
      ultimately show ?thesis
        using s02 w' fsyncDir_files [OF 3] evolves_step same_rest_trans unfolding atomic_link_def by auto
    qed
  qed
qed

section \<open>Sweeping\<close>

lemma hasAnyPrefix_iff: "hasAnyPrefix s ps \<longleftrightarrow> (\<exists>p \<in> set ps. has_prefix s p)"
  by (induction ps) (auto simp: has_prefix_def)

text \<open>What a sweep may remove: a file or link of the directory with a listed prefix, past its age.\<close>

definition stale :: "string \<Rightarrow> string set \<Rightarrow> string list \<Rightarrow> int \<Rightarrow> tree \<Rightarrow> string set" where
  "stale dir names prefixes cutoff fs =
     {path_join dir n | n e. n \<in> names \<and> hasAnyPrefix n prefixes \<and> map_of fs (path_join dir n) = Some e \<and>
                             e \<noteq> EDir \<and> ent_mtime e \<le> cutoff}"

definition removes :: "string set \<Rightarrow> nat \<Rightarrow> 'z os_scheme \<Rightarrow> 'z os_scheme \<Rightarrow> bool" where
  "removes P n w w' \<longleftrightarrow>
     (\<exists>R. R \<subseteq> P \<and> card R = n \<and> finite R \<and> (\<forall>q. map_of (files w') q = (if q \<in> R then None else map_of (files w) q)))"

lemma removes_cong: "files w1 = files w2 \<Longrightarrow> removes P n w1 w' = removes P n w2 w'"
  by (simp add: removes_def)

lemma sweep_entries_removes:
  "sweep_entries dir prefixes cutoff names removed failed w = ((rm, fl), w') \<Longrightarrow> set names \<subseteq> N \<Longrightarrow>
   removed \<le> rm \<and> removes (stale dir N prefixes cutoff (files w)) (rm - removed) w w'"
proof (induction dir prefixes cutoff names removed failed w rule: sweep_entries.induct)
  case (1 dir prefixes cutoff removed failed w)
  then show ?case by (auto simp: removes_def intro!: exI [of _ "{}"])
next
  case (2 dir prefixes cutoff name names removed failed w)
  let ?p = "path_join dir name"
  show ?case
  proof (cases "hasAnyPrefix name prefixes")
    case False
    with 2 show ?thesis by simp
  next
    case pre: True
    obtain r1 w1 where 1: "os_Lstat ?p w = (r1, w1)" by fastforce
    have f1: "files w1 = files w" using os_reads(2) [OF 1] by (simp add: same_disk_def)
    show ?thesis
    proof (cases r1)
      case (Inl e)
      with 2 pre 1 f1 removes_cong [OF f1] show ?thesis by (simp add: Let_def)
    next
      case (Inr info)
      have live: "map_of (files w) ?p = Some info"
        using 1 Inr by (auto simp: os_Lstat_def syscall_def split: option.splits)
      show ?thesis
      proof (cases "info = EDir \<or> cutoff < ent_mtime info")
        case True
        with 2 pre 1 Inr f1 removes_cong [OF f1] show ?thesis by (simp add: Let_def)
      next
        case False
        obtain r2 w2 where r2: "os_Remove ?p w1 = (r2, w2)" by fastforce
        note f2 = os_Remove_files [OF r2, unfolded f1]
        show ?thesis
        proof (cases r2)
          case (Some e)
          with f2 have f2: "files w2 = files w" by simp
          from Some 2 pre 1 Inr False r2 f2 removes_cong [OF f2] show ?thesis by (simp add: Let_def)
        next
          case None
          have IH: "removed + 1 \<le> rm" "removes (stale dir N prefixes cutoff (files w2)) (rm - (removed + 1)) w2 w'"
            using 2(4) [OF _ refl 1 [symmetric] Inr False r2 [symmetric] None] 2(6,7) pre 1 Inr False r2 None
            by (simp_all add: Let_def)
          then obtain R where R: "R \<subseteq> stale dir N prefixes cutoff (files w2)" "card R = rm - (removed + 1)"
            "finite R" "\<forall>q. map_of (files w') q = (if q \<in> R then None else map_of (files w2) q)"
            unfolding removes_def by blast
          have "stale dir N prefixes cutoff (files w2) \<subseteq> stale dir N prefixes cutoff (files w) - {?p}"
            using None f2 by (auto simp: stale_def split: if_splits)
          moreover have "?p \<in> stale dir N prefixes cutoff (files w)"
            using pre live False "2.prems"(2) by (auto simp: stale_def not_less)
          ultimately have "insert ?p R \<subseteq> stale dir N prefixes cutoff (files w)" "?p \<notin> R"
            using R(1) by auto
          moreover have "\<forall>q. map_of (files w') q = (if q \<in> insert ?p R then None else map_of (files w) q)"
            using R(4) None f2 by auto
          moreover have "card (insert ?p R) = rm - removed" using R(2,3) IH(1) \<open>?p \<notin> R\<close> by simp
          ultimately show ?thesis using IH(1) R(3) unfolding removes_def by (intro conjI exI [of _ "insert ?p R"]) auto
        qed
      qed
    qed
  qed
qed

section \<open>Success\<close>

text \<open>Without a fault of the system, a write into an existing directory succeeds and is durable.\<close>

lemma no_fault [simp]: "faults w = [] \<Longrightarrow> fault w = None" "faults w = [] \<Longrightarrow> faults (tick w) = []"
  by (simp_all add: fault_def tick_def)

lemma syscall_no_fault [simp]: "faults w = [] \<Longrightarrow> syscall fl b w = b (tick w)"
  by (simp add: syscall_def)

lemma is_dir_put: "map_of (files w) d \<noteq> map_of (files w) p \<or> e = EDir \<or> d \<noteq> p \<Longrightarrow>
    is_dir w d \<Longrightarrow> \<not> is_dir w p \<Longrightarrow> map_of (put p e (files w)) d = Some EDir"
  by (auto simp: is_dir_def)

lemma WriteFile_no_fault:
  assumes "faults w = []" "is_dir w (path_dir p)" "\<not> is_dir w p" "\<not> is_tmp p"
    and temp: "pick_temp (rand w) (path_dir p) ''.tmp-'' (files w) = Some (tmp, rs)"
  shows "\<exists>w'. WriteFile p data mode w = (None, w') \<and> faults w' = [] \<and>
    crash_ents (snap w') p = {Some (EFile data mode (clock w) True)}"
proof -
  have tmp: "map_of (files w) tmp = None" "is_tmp tmp"
    using pick_temp_Some [OF temp] is_tmp_created [of "path_dir p"] by auto
  have ne: "tmp \<noteq> p" "tmp \<noteq> path_dir p" "path_dir p \<noteq> p"
    using tmp assms(2-4) by (auto simp: is_dir_def)
  define w' where "w' = snd (WriteFile p data mode w)"
  have "WriteFile p data mode w = (None, w') \<and> faults w' = [] \<and>
    crash_ents (snap w') p = {map_of (files w') p}"
    using assms(1-4) tmp ne temp unfolding w'_def
    by (simp add: WriteFile_def Let_def os_CreateTemp_def writeAndSync_def os_Write_def os_Chmod_def
        os_Sync_def os_Close_def rename_and_sync_def os_Rename_def do_append_def is_dir_def inode_at_def
        fsyncDir_def os_OpenDir_def os_SyncDir_def crash_ents_def link_at_def append_content_def)
  moreover from this have "map_of (files w') p = Some (EFile data mode (clock w) True)"
    using WriteFile_atomic [of p data mode w None w'] assms(4) by (simp add: atomic_write_def)
  ultimately show ?thesis by auto
qed

lemma pick_temp_exists:
  "n \<in> set rs \<Longrightarrow> map_of fs (path_join d (pre @ show_nat n)) = None \<Longrightarrow> \<exists>p rs'. pick_temp rs d pre fs = Some (p, rs')"
  by (induction rs) (auto simp: Let_def)

text \<open>The same for a reader of one chunk and for a link.\<close>

lemma WriteReader_no_fault:
  assumes eq: "WriteReader p ([d], None) mode w = (r, w')" and nf: "faults w = []" and p: "\<not> is_tmp p"
  shows "faults w' = []" "r = None \<Longrightarrow> crash_ents (snap w') p = {Some (EFile d mode (clock w) True)}"
proof -
  have "faults w' = [] \<and> (r = None \<longrightarrow> crash_ents (snap w') p = {map_of (files w') p})"
  proof (cases "is_dir w (path_dir p)")
    case False
    with eq nf show ?thesis
      by (auto simp: WriteReader_def Let_def os_CreateTemp_def)
  next
    case True
    show ?thesis
    proof (cases "pick_temp (rand w) (path_dir p) ''.tmp-'' (files w)")
      case None
      with eq nf True show ?thesis by (auto simp: WriteReader_def Let_def os_CreateTemp_def is_dir_def)
    next
      case (Some trs)
      obtain tmp rs where temp: "trs = (tmp, rs)" by fastforce
      have tmp: "map_of (files w) tmp = None" "is_tmp tmp"
        using pick_temp_Some [OF Some [unfolded temp]] is_tmp_created [of "path_dir p"] by auto
      have ne: "tmp \<noteq> p" "tmp \<noteq> path_dir p" using tmp p True by (auto simp: is_dir_def)
      show ?thesis
      proof (cases "is_dir w p")
        case True2: True
        with eq nf True Some temp tmp ne show ?thesis
          by (auto simp: WriteReader_def Let_def os_CreateTemp_def os_Write_def os_Chmod_def discard_def
              os_Sync_def os_Close_def rename_and_sync_def os_Rename_def do_append_def is_dir_def inode_at_def
              os_Remove_def unlink_at_def link_at_def append_content_def split: option.splits)
      next
        case False
        have ne3: "path_dir p \<noteq> p" using True False by auto
        have w': "w' = snd (WriteReader p ([d], None) mode w)" using eq by simp
        from nf True False Some temp tmp ne ne3 show ?thesis unfolding w'
          by (simp add: WriteReader_def Let_def os_CreateTemp_def os_Write_def os_Chmod_def
              os_Sync_def os_Close_def rename_and_sync_def os_Rename_def do_append_def is_dir_def inode_at_def
              fsyncDir_def os_OpenDir_def os_SyncDir_def crash_ents_def link_at_def append_content_def)
      qed
    qed
  qed
  moreover have "r = None \<Longrightarrow> map_of (files w') p = Some (EFile d mode (clock w) True)"
    using WriteReader_atomic [OF eq p] by (simp add: atomic_write_def)
  ultimately show "faults w' = []" "r = None \<Longrightarrow> crash_ents (snap w') p = {Some (EFile d mode (clock w) True)}" by auto
qed

lemma ReplaceSymlink_no_fault:
  assumes "faults w = []" "is_dir w (path_dir l)" "\<not> is_dir w l" "\<not> is_dir w (l @ ''.tmp'')"
    "path_dir (l @ ''.tmp'') = path_dir l"
  shows "fst (ReplaceSymlink t l w) = None" "faults (snd (ReplaceSymlink t l w)) = []"
    "rand (snd (ReplaceSymlink t l w)) = rand w"
proof -
  have ne: "l @ ''.tmp'' \<noteq> path_dir l" "l \<noteq> path_dir l" using assms(2-4) by auto
  have "fst (ReplaceSymlink t l w) = None \<and> faults (snd (ReplaceSymlink t l w)) = [] \<and>
      rand (snd (ReplaceSymlink t l w)) = rand w"
    using assms ne
    by (auto simp: ReplaceSymlink_def Let_def os_Remove_def os_Symlink_def os_Rename_def is_dir_def
        fsyncDir_def os_OpenDir_def os_SyncDir_def os_Close_def unlink_at_def link_at_def commit_def
        split: option.splits ent.splits)
  then show "fst (ReplaceSymlink t l w) = None" "faults (snd (ReplaceSymlink t l w)) = []"
    "rand (snd (ReplaceSymlink t l w)) = rand w" by auto
qed

section \<open>Properties\<close>

text \<open>C14. Whatever system call of \<open>WriteFile\<close> fails, and whenever the power is lost: the path holds
  what it held before, or the complete, synced new file; nothing else changes but temporary files. The
  call returns no error exactly when the new file is in place.\<close>

theorem WriteFile_crash_safe:
  assumes "\<not> is_tmp p"
  shows "case WriteFile p data mode w of (r, w') \<Rightarrow>
    map_of (files w') p =
      (if r = None then Some (EFile data mode (clock w) True) else map_of (files w) p) \<and>
    evolves (insert p tmps) (only_at p {Some (EFile data mode (clock w) True)}) w w' \<and>
    same_rest w w'"
proof -
  obtain r w' where eq: "WriteFile p data mode w = (r, w')" by fastforce
  from WriteFile_atomic [OF eq assms] eq show ?thesis by (simp add: atomic_write_def)
qed

definition sample_os :: os where
  "sample_os = \<lparr>files = [(''/s'', EDir), (''/s/f'', EFile (Raw ''old'') 420 5 True),
                        (''/s/.tmp-7'', EFile (Raw ''x'') 384 5 False)],
               undo = [], faults = [], clock = 100, rand = [7, 8], hist = []\<rparr>"

lemma sample_path: "\<not> is_tmp ''/s/f''" by code_simp

theorem WriteFile_crash_safe_witness:
  "case WriteFile ''/s/f'' (Raw ''new'') 420 sample_os of (r, w') \<Rightarrow>
    map_of (files w') ''/s/f'' =
      (if r = None then Some (EFile (Raw ''new'') 420 (clock sample_os) True)
       else map_of (files sample_os) ''/s/f'') \<and>
    evolves (insert ''/s/f'' tmps)
      (only_at ''/s/f'' {Some (EFile (Raw ''new'') 420 (clock sample_os) True)}) sample_os w' \<and>
    same_rest sample_os w'"
  by (rule WriteFile_crash_safe [OF sample_path])

text \<open>C32. When no system call fails, a write to an existing directory succeeds, and afterwards a loss
  of power can leave nothing but the new file at the path.\<close>

theorem WriteFile_durable:
  assumes "faults w = []" "is_dir w (path_dir p)" "\<not> is_dir w p" "\<not> is_tmp p"
    and "pick_temp (rand w) (path_dir p) ''.tmp-'' (files w) = Some (tmp, rs)"
  shows "fst (WriteFile p data mode w) = None \<and>
    crash_ents (snap (snd (WriteFile p data mode w))) p = {Some (EFile data mode (clock w) True)}"
proof -
  obtain w' where "WriteFile p data mode w = (None, w')"
    "crash_ents (snap w') p = {Some (EFile data mode (clock w) True)}"
    using WriteFile_no_fault [OF assms, of data mode] by blast
  then show ?thesis by simp
qed

theorem WriteFile_durable_witness:
  "pick_temp (rand sample_os) (path_dir ''/s/f'') ''.tmp-'' (files sample_os) = Some (''/s/.tmp-8'', []) \<and>
   fst (WriteFile ''/s/f'' (Raw ''new'') 420 sample_os) = None \<and>
   crash_ents (snap (snd (WriteFile ''/s/f'' (Raw ''new'') 420 sample_os))) ''/s/f'' =
     {Some (EFile (Raw ''new'') 420 100 True)}"
proof -
  have t: "pick_temp (rand sample_os) (path_dir ''/s/f'') ''.tmp-'' (files sample_os) = Some (''/s/.tmp-8'', [])"
    by code_simp
  have "faults sample_os = []" "clock sample_os = 100" by (simp_all add: sample_os_def)
  moreover have "is_dir sample_os (path_dir ''/s/f'')" "\<not> is_dir sample_os ''/s/f''" by code_simp+
  ultimately show ?thesis
    using WriteFile_durable [OF _ _ _ sample_path t, of "Raw ''new''" 420] t by simp
qed

text \<open>Replacing a link: at every moment the link is the old one or the new one, it is the new one
  exactly when no error is returned, and nothing changes but the link and its temporary sibling.\<close>

theorem ReplaceSymlink_crash_safe:
  "case ReplaceSymlink t l w of (r, w') \<Rightarrow>
    map_of (files w') l = (if r = None then Some (ELink t) else map_of (files w) l) \<and>
    evolves (link_paths l) (only_link l {Some (ELink t)}) w w' \<and> same_rest w w'"
proof -
  obtain r w' where eq: "ReplaceSymlink t l w = (r, w')" by fastforce
  from ReplaceSymlink_atomic [OF eq] eq show ?thesis by (simp add: atomic_link_def)
qed

text \<open>A sweep removes only files and links of its directory that carry one of the prefixes and are
  at least as old as the given age, it counts what it removed, and leaves every other path alone.\<close>

theorem SweepStaleTemp_removes_only_stale:
  "case SweepStaleTemp dir prefixes maxAge w of ((rm, fl), w') \<Rightarrow>
    removes (stale dir (set (children (files w) (path_clean dir))) prefixes (clock w - maxAge) (files w)) rm w w'"
proof -
  obtain r1 w1 where 1: "os_ReadDir dir w = (r1, w1)" by fastforce
  have same: "files w1 = files w" "clock w1 = clock w"
    using os_reads(5) [OF 1] by (simp_all add: same_disk_def same_rest_def)
  have none: "removes P 0 w w1" for P
    using same by (auto simp: removes_def intro!: exI [of _ "{}"])
  show ?thesis
  proof (cases r1)
    case Inl
    with 1 none show ?thesis by (simp add: SweepStaleTemp_def)
  next
    case (Inr names)
    obtain rm fl w' where 2: "sweep_entries dir prefixes (clock w1 - maxAge) names 0 0 w1 = ((rm, fl), w')"
      by (metis prod.collapse)
    have "names = sort (children (files w) (path_clean dir))"
      using 1 Inr by (auto simp: os_ReadDir_def syscall_def split: option.splits if_splits)
    with sweep_entries_removes [OF 2, of "set names"] 1 Inr 2 same removes_cong [OF same(1)] show ?thesis
      by (simp add: SweepStaleTemp_def)
  qed
qed

end
