(* ===== verification/Lru.thy ===== *)
theory Lru
  imports Prelude
begin

text \<open>
  The two caches of \<open>pkg/server/lru.go\<close>: \<open>entryLRU\<close>, bounded by the number of entries, and
  \<open>byteBudgetLRU\<close>, bounded by the sum of the lengths of its values. The list is kept with the most
  recently used entry at its head; the index is the set of the keys it points to, and the element it
  points to is the one that carries the key. The locale \<open>cache\<close> is what the manifest cache and the
  hot delta cache rely on.
\<close>

section \<open>entryLRU\<close>

record 'v entryLRU =
  e_cap :: int
  e_ll :: "(string \<times> 'v) list"
  e_idx :: "string set"

definition newEntryLRU :: "int \<Rightarrow> 'v entryLRU" where
  "newEntryLRU cap = \<lparr>e_cap = (if cap \<le> 0 then 1 else cap), e_ll = [], e_idx = {}\<rparr>"

text \<open>\<open>MoveToFront\<close> of the element with a key; the value may be replaced on the way.\<close>

definition to_front :: "string \<Rightarrow> 'v \<Rightarrow> (string \<times> 'v) list \<Rightarrow> (string \<times> 'v) list" where
  "to_front k v ll = (k, v) # del k ll"

definition e_Get :: "string \<Rightarrow> 'v entryLRU \<Rightarrow> 'v option \<times> 'v entryLRU" where
  "e_Get k c =
     (if k \<in> e_idx c then
        (case map_of (e_ll c) k of
           Some v \<Rightarrow> (Some v, c\<lparr>e_ll := to_front k v (e_ll c)\<rparr>)
         | None \<Rightarrow> (None, c))
      else (None, c))"

definition e_Put :: "string \<Rightarrow> 'v \<Rightarrow> 'v entryLRU \<Rightarrow> 'v entryLRU" where
  "e_Put k v c =
     (if k \<in> e_idx c then c\<lparr>e_ll := to_front k v (e_ll c)\<rparr>
      else
        (let ll = (k, v) # e_ll c; idx = insert k (e_idx c)
         in if e_cap c < int (length ll)
            then c\<lparr>e_ll := butlast ll, e_idx := idx - {fst (last ll)}\<rparr>
            else c\<lparr>e_ll := ll, e_idx := idx\<rparr>))"

definition e_Clear :: "'v entryLRU \<Rightarrow> 'v entryLRU" where
  "e_Clear c = c\<lparr>e_ll := [], e_idx := {}\<rparr>"

definition e_Len :: "'v entryLRU \<Rightarrow> nat" where
  "e_Len c = length (e_ll c)"

section \<open>byteBudgetLRU\<close>

record byteBudgetLRU =
  b_capBytes :: int
  b_ll :: "(string \<times> bytes) list"
  b_idx :: "string set"
  b_totalBytes :: int

definition newByteBudgetLRU :: "int \<Rightarrow> byteBudgetLRU" where
  "newByteBudgetLRU cap =
     \<lparr>b_capBytes = (if cap \<le> 0 then 1 else cap), b_ll = [], b_idx = {}, b_totalBytes = 0\<rparr>"

definition b_Get :: "string \<Rightarrow> byteBudgetLRU \<Rightarrow> bytes option \<times> byteBudgetLRU" where
  "b_Get k c =
     (if k \<in> b_idx c then
        (case map_of (b_ll c) k of
           Some v \<Rightarrow> (Some v, c\<lparr>b_ll := to_front k v (b_ll c)\<rparr>)
         | None \<Rightarrow> (None, c))
      else (None, c))"

text \<open>The eviction loop, over the list from its least recently used end.\<close>

fun b_evict ::
  "int \<Rightarrow> int \<Rightarrow> (string \<times> bytes) list \<Rightarrow> string set \<Rightarrow> int \<times> (string \<times> bytes) list \<times> string set" where
  "b_evict cap tot [] idx = (tot, [], idx)"
| "b_evict cap tot ((k, v) # back) idx =
     (if cap < tot then b_evict cap (tot - int (length v)) back (idx - {k})
      else (tot, (k, v) # back, idx))"

definition b_Put :: "string \<Rightarrow> bytes \<Rightarrow> byteBudgetLRU \<Rightarrow> bool \<times> byteBudgetLRU" where
  "b_Put k v c =
     (let size = int (length v)
      in if b_capBytes c < size then (False, c)
         else
           (let c = (if k \<in> b_idx c then
                       (case map_of (b_ll c) k of
                          Some old \<Rightarrow>
                            c\<lparr>b_totalBytes := b_totalBytes c - int (length old) + size,
                              b_ll := to_front k v (b_ll c)\<rparr>
                        | None \<Rightarrow> c)
                     else
                       c\<lparr>b_ll := (k, v) # b_ll c, b_idx := insert k (b_idx c),
                         b_totalBytes := b_totalBytes c + size\<rparr>);
                (tot, back, idx) = b_evict (b_capBytes c) (b_totalBytes c) (rev (b_ll c)) (b_idx c)
            in (True, c\<lparr>b_ll := rev back, b_idx := idx, b_totalBytes := tot\<rparr>)))"

definition b_Clear :: "byteBudgetLRU \<Rightarrow> byteBudgetLRU" where
  "b_Clear c = c\<lparr>b_ll := [], b_idx := {}, b_totalBytes := 0\<rparr>"

definition b_Len :: "byteBudgetLRU \<Rightarrow> nat" where
  "b_Len c = length (b_ll c)"

definition b_Bytes :: "byteBudgetLRU \<Rightarrow> int" where
  "b_Bytes c = b_totalBytes c"

definition b_MaxValueBytes :: "byteBudgetLRU \<Rightarrow> int" where
  "b_MaxValueBytes c = b_capBytes c"

section \<open>What a cache promises\<close>

text \<open>
  A cache is seen through the partial map of what it holds. It may forget, it never invents: a value
  it returns was put under that key after the last clear.
\<close>

locale cache =
  fixes inv :: "'c \<Rightarrow> bool"
    and view :: "'c \<Rightarrow> string \<Rightarrow> 'v option"
    and get :: "string \<Rightarrow> 'c \<Rightarrow> 'v option \<times> 'c"
    and insert_kv :: "string \<Rightarrow> 'v \<Rightarrow> 'c \<Rightarrow> 'c"
    and clear :: "'c \<Rightarrow> 'c"
  assumes get_inv: "inv c \<Longrightarrow> inv (snd (get k c))"
    and get_view: "inv c \<Longrightarrow> fst (get k c) = view c k"
    and get_keeps: "inv c \<Longrightarrow> view (snd (get k c)) = view c"
    and insert_inv: "inv c \<Longrightarrow> inv (insert_kv k v c)"
    and insert_view: "inv c \<Longrightarrow> view (insert_kv k v c) q = Some x \<Longrightarrow> view c q = Some x \<or> q = k \<and> x = v"
    and clear_inv: "inv c \<Longrightarrow> inv (clear c)"
    and clear_view: "inv c \<Longrightarrow> view (clear c) q = None"
begin

text \<open>Every value held satisfies \<open>P\<close>.\<close>

definition holds :: "(string \<Rightarrow> 'v \<Rightarrow> bool) \<Rightarrow> 'c \<Rightarrow> bool" where
  "holds P c \<longleftrightarrow> inv c \<and> (\<forall>k v. view c k = Some v \<longrightarrow> P k v)"

lemma holds_get: "holds P c \<Longrightarrow> get k c = (r, c') \<Longrightarrow> holds P c' \<and> (\<forall>v. r = Some v \<longrightarrow> P k v)"
  using get_inv [of c k] get_view [of c k] get_keeps [of c k] by (auto simp: holds_def)

lemma holds_insert: "holds P c \<Longrightarrow> P k v \<Longrightarrow> holds P (insert_kv k v c)"
proof -
  assume c: "holds P c" and v: "P k v"
  have "P q x" if "view (insert_kv k v c) q = Some x" for q x
    using insert_view [OF _ that] c v by (auto simp: holds_def)
  with c insert_inv show ?thesis by (simp add: holds_def)
qed

lemma holds_clear: "holds P c \<Longrightarrow> holds Q (clear c)"
  using clear_inv clear_view by (fastforce simp: holds_def)

text \<open>Looking a value up in the cache before computing it.\<close>

definition memo :: "(string \<Rightarrow> 'v) \<Rightarrow> string \<Rightarrow> 'c \<Rightarrow> 'v \<times> 'c" where
  "memo f k c = (case get k c of (Some v, c) \<Rightarrow> (v, c) | (None, c) \<Rightarrow> (f k, insert_kv k (f k) c))"

lemma memo_transparent:
  "holds (\<lambda>k v. v = f k) c \<Longrightarrow> memo f k c = (v, c') \<Longrightarrow> v = f k \<and> holds (\<lambda>k v. v = f k) c'"
  using holds_get [of "\<lambda>k v. v = f k" c k] holds_insert [of "\<lambda>k v. v = f k" _ k "f k"]
  by (cases "get k c") (auto simp: memo_def split: option.splits)

end

text \<open>A cache whose size is bounded, and which keeps a value it accepts.\<close>

locale bounded_cache = cache inv view get insert_kv clear
  for inv :: "'c \<Rightarrow> bool"
    and view :: "'c \<Rightarrow> string \<Rightarrow> 'v option"
    and get :: "string \<Rightarrow> 'c \<Rightarrow> 'v option \<times> 'c"
    and insert_kv :: "string \<Rightarrow> 'v \<Rightarrow> 'c \<Rightarrow> 'c"
    and clear :: "'c \<Rightarrow> 'c" +
  fixes weight :: "'c \<Rightarrow> int" and limit :: "'c \<Rightarrow> int" and accepts :: "'c \<Rightarrow> 'v \<Rightarrow> bool"
  assumes bounded: "inv c \<Longrightarrow> weight c \<le> limit c"
    and limit_insert: "limit (insert_kv k v c) = limit c"
    and limit_get: "limit (snd (get k c)) = limit c"
    and accepted: "inv c \<Longrightarrow> accepts c v \<Longrightarrow> view (insert_kv k v c) k = Some v"
begin

lemma insert_get:
  assumes "inv c" "accepts c v"
  shows "fst (get k (insert_kv k v c)) = Some v"
  using assms get_view insert_inv accepted by metis

lemma insert_bounded: "inv c \<Longrightarrow> weight (insert_kv k v c) \<le> limit c"
  using bounded [OF insert_inv] limit_insert by metis

end

section \<open>entryLRU keeps the promise\<close>

definition e_inv :: "'v entryLRU \<Rightarrow> bool" where
  "e_inv c \<longleftrightarrow> 1 \<le> e_cap c \<and> wf_map (e_ll c) \<and> e_idx c = keys (e_ll c) \<and> int (length (e_ll c)) \<le> e_cap c"

lemma map_of_to_front [simp]: "map_of (to_front k v ll) = (map_of ll)(k \<mapsto> v)"
  by (auto simp: to_front_def)

lemma keys_to_front [simp]: "keys (to_front k v ll) = insert k (keys ll)"
proof -
  have "keys (del k ll) = keys ll - {k}" by (rule keys_del)
  then show ?thesis unfolding to_front_def by auto
qed

lemma wf_to_front [simp]: "wf_map ll \<Longrightarrow> wf_map (to_front k v ll)"
proof -
  assume "wf_map ll"
  then have "wf_map (del k ll)" by simp
  moreover have "k \<notin> keys (del k ll)" by (auto simp: del_def)
  ultimately show ?thesis by (simp add: to_front_def wf_map_def)
qed

lemma length_to_front: "wf_map ll \<Longrightarrow> k \<in> keys ll \<Longrightarrow> length (to_front k v ll) = length ll"
proof (induction ll)
  case (Cons e ll)
  have "del k ll = ll" if "k \<notin> keys ll"
    using that by (auto simp: del_def intro!: filter_True)
  with Cons show ?case by (auto simp: to_front_def wf_map_def del_def)
qed simp

lemma del_fresh: "k \<notin> keys ll \<Longrightarrow> del k ll = ll"
  by (auto simp: del_def intro!: filter_True)

lemma wf_butlast:
  assumes "wf_map ll" "ll \<noteq> []"
  shows "wf_map (butlast ll)" "keys (butlast ll) = keys ll - {fst (last ll)}"
    "map_of (butlast ll) q = (if q = fst (last ll) then None else map_of ll q)"
proof -
  obtain xs k v where ll: "ll = xs @ [(k, v)]" using assms(2) by (metis rev_exhaust surj_pair)
  have k: "wf_map xs" "k \<notin> keys xs" using assms(1) ll by (auto simp: wf_map_def)
  then have "map_of xs k = None" by (simp add: map_of_eq_None_iff)
  with k ll show "wf_map (butlast ll)" "keys (butlast ll) = keys ll - {fst (last ll)}"
    "map_of (butlast ll) q = (if q = fst (last ll) then None else map_of ll q)"
    by (auto simp: map_add_def split: option.split)
qed

lemma e_inv_index: "e_inv c \<Longrightarrow> k \<in> e_idx c \<longleftrightarrow> map_of (e_ll c) k \<noteq> None"
  by (auto simp: e_inv_def map_of_eq_None_iff)

lemma e_Get_view: "e_inv c \<Longrightarrow> fst (e_Get k c) = map_of (e_ll c) k"
  by (auto simp: e_Get_def e_inv_index split: option.split)

lemma e_Get_inv: "e_inv c \<Longrightarrow> e_inv (snd (e_Get k c)) \<and> map_of (e_ll (snd (e_Get k c))) = map_of (e_ll c)"
proof (cases "map_of (e_ll c) k")
  case (Some v)
  assume c: "e_inv c"
  have "k \<in> keys (e_ll c)" using Some by (metis map_of_None_keys option.distinct(1))
  moreover have "snd (e_Get k c) = c\<lparr>e_ll := to_front k v (e_ll c)\<rparr>"
    using Some c by (simp add: e_Get_def e_inv_index)
  ultimately show ?thesis using c Some by (auto simp: e_inv_def length_to_front fun_upd_idem)
qed (simp add: e_Get_def e_inv_index)

text \<open>The list after a put: the entry at the head, the rest in order, cut to the capacity.\<close>

lemma e_Put_list:
  assumes "e_inv c"
  shows "e_ll (e_Put k v c) = take (nat (e_cap c)) (to_front k v (e_ll c))"
proof (cases "k \<in> e_idx c")
  case True
  with assms have "length (to_front k v (e_ll c)) = length (e_ll c)"
    by (simp add: e_inv_def length_to_front)
  with True assms show ?thesis by (simp add: e_Put_def e_inv_def le_nat_iff)
next
  case False
  with assms have "to_front k v (e_ll c) = (k, v) # e_ll c"
    by (simp add: to_front_def e_inv_def del_fresh)
  moreover have "nat (e_cap c) = length (e_ll c) \<or> int (Suc (length (e_ll c))) \<le> e_cap c"
    using assms by (auto simp: e_inv_def)
  ultimately show ?thesis using False
    by (auto simp: e_Put_def Let_def butlast_conv_take le_nat_iff simp del: take_Suc_Cons)
qed

lemma e_Put_inv: "e_inv c \<Longrightarrow> e_inv (e_Put k v c)"
proof -
  assume c: "e_inv c"
  let ?l = "(k, v) # e_ll c"
  show ?thesis
  proof (cases "k \<in> e_idx c")
    case True
    with c show ?thesis by (auto simp: e_Put_def e_inv_def length_to_front)
  next
    case False
    then have "wf_map ?l" using c by (simp add: e_inv_def wf_map_def)
    with wf_butlast [of ?l] False c show ?thesis by (auto simp: e_Put_def Let_def e_inv_def)
  qed
qed

lemma map_of_take: "wf_map ll \<Longrightarrow> map_of (take n ll) q = Some x \<Longrightarrow> map_of ll q = Some x"
  by (metis append_take_drop_id map_add_Some_iff map_of_append map_of_SomeD map_of_eq_Some_iff
      wf_map_def in_set_takeD)

interpretation entry: bounded_cache e_inv "\<lambda>c. map_of (e_ll c)" e_Get e_Put e_Clear
  "\<lambda>c. int (e_Len c)" e_cap "\<lambda>c v. True"
proof unfold_locales
  fix c :: "'v entryLRU" and k v q x
  assume c: "e_inv c"
  show "e_inv (snd (e_Get k c))" "map_of (e_ll (snd (e_Get k c))) = map_of (e_ll c)"
    using e_Get_inv [OF c] by auto
  show "fst (e_Get k c) = map_of (e_ll c) k" by (rule e_Get_view [OF c])
  show "e_inv (e_Put k v c)" by (rule e_Put_inv [OF c])
  have wf: "wf_map (to_front k v (e_ll c))" using c by (simp add: e_inv_def)
  show "map_of (e_ll c) q = Some x \<or> q = k \<and> x = v" if "map_of (e_ll (e_Put k v c)) q = Some x"
    using map_of_take [OF wf, of "nat (e_cap c)" q x] that by (auto simp: e_Put_list [OF c] split: if_splits)
  show "e_inv (e_Clear c)" "map_of (e_ll (e_Clear c)) q = None"
    using c by (simp_all add: e_Clear_def e_inv_def)
  show "int (e_Len c) \<le> e_cap c" using c by (simp add: e_inv_def e_Len_def)
  have "e_cap c \<ge> 1" using c by (simp add: e_inv_def)
  then obtain n where "nat (e_cap c) = Suc n" by (metis Suc_pred nat_0_less_mult_iff zero_less_nat_eq
      less_le_trans mult_1 zero_less_one)
  then show "map_of (e_ll (e_Put k v c)) k = Some v" by (simp add: e_Put_list [OF c] to_front_def)
next
  fix c :: "'v entryLRU" and k v
  show "e_cap (e_Put k v c) = e_cap c" by (simp add: e_Put_def Let_def)
  show "e_cap (snd (e_Get k c)) = e_cap c" by (auto simp: e_Get_def split: option.split)
qed

section \<open>byteBudgetLRU keeps the promise\<close>

definition size_of :: "(string \<times> bytes) list \<Rightarrow> int" where
  "size_of ll = (\<Sum>e\<leftarrow>ll. int (length (snd e)))"

lemma size_of_simps [simp]:
  "size_of [] = 0" "size_of (e # ll) = int (length (snd e)) + size_of ll"
  "size_of (xs @ ys) = size_of xs + size_of ys" "size_of (rev ll) = size_of ll"
  by (simp_all add: size_of_def rev_map [symmetric] sum_list_rev)

lemma size_of_nonneg [simp]: "0 \<le> size_of ll"
  by (induction ll) auto

lemma size_of_del:
  "wf_map ll \<Longrightarrow> map_of ll k = Some old \<Longrightarrow> size_of (del k ll) = size_of ll - int (length old)"
proof (induction ll)
  case (Cons e ll)
  then show ?case
  proof (cases "fst e = k")
    case True
    then have "k \<notin> keys ll" using Cons.prems by (auto simp: wf_map_def)
    then have "del k ll = ll" by (rule del_fresh)
    with True Cons.prems show ?thesis by (auto simp: del_def)
  next
    case False
    with Cons show ?thesis by (cases e) (auto simp: del_def wf_map_def)
  qed
qed simp

definition b_inv :: "byteBudgetLRU \<Rightarrow> bool" where
  "b_inv c \<longleftrightarrow> 1 \<le> b_capBytes c \<and> wf_map (b_ll c) \<and> b_idx c = keys (b_ll c) \<and>
     b_totalBytes c = size_of (b_ll c) \<and> size_of (b_ll c) \<le> b_capBytes c"

lemma b_evict_result:
  "b_evict cap tot bk idx = (t, b, i) \<Longrightarrow> 0 \<le> cap \<Longrightarrow> wf_map bk \<Longrightarrow> idx = keys bk \<Longrightarrow>
   tot = size_of bk \<Longrightarrow>
   i = keys b \<and> t = size_of b \<and> t \<le> cap \<and>
   (\<exists>n \<le> length bk. b = drop n bk \<and> (0 < n \<longrightarrow> cap < size_of (drop (n - 1) bk)))"
proof (induction cap tot bk idx rule: b_evict.induct)
  case (2 cap tot k v bk idx)
  show ?case
  proof (cases "cap < tot")
    case True
    have idx: "idx - {k} = keys bk" using 2(4,5) by (auto simp: wf_map_def)
    have "b_evict cap (tot - int (length v)) bk (idx - {k}) = (t, b, i)" using 2(2) True by simp
    from 2(1) [OF True this 2(3) _ idx] 2(4,6) obtain n where n: "i = keys b" "t = size_of b" "t \<le> cap"
      "n \<le> length bk" "b = drop n bk" "0 < n \<longrightarrow> cap < size_of (drop (n - 1) bk)"
      by (auto simp: wf_map_def)

    with n(6) True 2(6) have "cap < size_of (drop n ((k, v) # bk))" by (cases n) auto
    with n show ?thesis by (intro conjI exI [of _ "Suc n"]) auto
  next
    case False
    with 2 show ?thesis by (auto intro!: exI [of _ 0])
  qed
qed auto

text \<open>The state of \<open>Put\<close> before its eviction loop.\<close>

lemma b_Put_mid:
  assumes c: "b_inv c" and v: "int (length v) \<le> b_capBytes c"
  shows "b_Put k v c =
    (let (tot, bk, idx) = b_evict (b_capBytes c) (size_of (to_front k v (b_ll c)))
           (rev (to_front k v (b_ll c))) (keys (to_front k v (b_ll c)))
     in (True, c\<lparr>b_ll := rev bk, b_idx := idx, b_totalBytes := tot\<rparr>))"
proof (cases "k \<in> b_idx c")
  case True
  then obtain old where old: "map_of (b_ll c) k = Some old"
    using c by (metis b_inv_def map_of_None_keys not_None_eq)
  have "size_of (to_front k v (b_ll c)) = b_totalBytes c - int (length old) + int (length v)"
    using size_of_del [OF _ old] c by (simp add: to_front_def b_inv_def)
  moreover have "keys (to_front k v (b_ll c)) = b_idx c" using True c by (simp add: b_inv_def insert_absorb)
  ultimately show ?thesis using True v old by (simp add: b_Put_def Let_def split: prod.split)
next
  case False
  then have "to_front k v (b_ll c) = (k, v) # b_ll c"
    using c by (simp add: b_inv_def to_front_def del_fresh)
  with False c v show ?thesis by (simp add: b_Put_def Let_def b_inv_def add.commute split: prod.split)
qed

lemma b_Put_list:
  assumes c: "b_inv c" and v: "int (length v) \<le> b_capBytes c" and eq: "b_Put k v c = (ok, c')"
  shows "ok \<and> b_inv c' \<and> b_capBytes c' = b_capBytes c \<and>
    (\<exists>m. 1 \<le> m \<and> b_ll c' = take m (to_front k v (b_ll c)) \<and>
      (m < length (to_front k v (b_ll c)) \<longrightarrow> b_capBytes c < size_of (take (Suc m) (to_front k v (b_ll c)))))"
proof -
  let ?l = "to_front k v (b_ll c)"
  obtain t b i where ev: "b_evict (b_capBytes c) (size_of ?l) (rev ?l) (keys ?l) = (t, b, i)"
    by (metis prod_cases3)
  have wf: "wf_map ?l" using c by (simp add: b_inv_def)
  then have "wf_map (rev ?l)" by (simp add: wf_map_def rev_map [symmetric])
  from b_evict_result [OF ev _ this] c obtain n where n: "n \<le> length ?l" "b = drop n (rev ?l)"
    "0 < n \<Longrightarrow> b_capBytes c < size_of (drop (n - 1) (rev ?l))"
    and t: "i = keys b" "t = size_of b" "t \<le> b_capBytes c"
    by (auto simp: b_inv_def)
  define m where "m = length ?l - n"
  have b: "rev b = take m ?l" using n(2) by (simp add: m_def drop_rev)
  have big: "b_capBytes c < size_of (take (Suc m) ?l)" if "m < length ?l"
  proof -
    have "0 < n" "length ?l - (n - 1) = Suc m" using that n(1) by (auto simp: m_def)
    with n(3) show ?thesis by (simp add: drop_rev del: take_Suc_Cons)
  qed
  have m: "1 \<le> m"
  proof (rule ccontr)
    assume "\<not> 1 \<le> m"
    then have "m = 0" by simp
    with big v show False by (simp add: to_front_def)
  qed
  have "wf_map (rev b)" using wf unfolding b by (simp add: wf_map_def take_map [symmetric])
  then have c': "b_inv (c\<lparr>b_ll := rev b, b_idx := i, b_totalBytes := t\<rparr>)"
    using c t by (simp add: b_inv_def)
  moreover have "ok" "c' = c\<lparr>b_ll := rev b, b_idx := i, b_totalBytes := t\<rparr>"
    using eq b_Put_mid [OF c v, of k] ev by (auto simp: Let_def)
  ultimately show ?thesis using b m big by auto
qed

lemma b_Put_reject: "b_capBytes c < int (length v) \<Longrightarrow> b_Put k v c = (False, c)"
  by (simp add: b_Put_def)

lemma b_inv_index: "b_inv c \<Longrightarrow> k \<in> b_idx c \<longleftrightarrow> map_of (b_ll c) k \<noteq> None"
  by (auto simp: b_inv_def map_of_eq_None_iff)

lemma b_Get_view: "b_inv c \<Longrightarrow> fst (b_Get k c) = map_of (b_ll c) k"
  by (auto simp: b_Get_def b_inv_index split: option.split)

lemma b_Get_inv: "b_inv c \<Longrightarrow> b_inv (snd (b_Get k c)) \<and> map_of (b_ll (snd (b_Get k c))) = map_of (b_ll c)"
proof (cases "map_of (b_ll c) k")
  case (Some v)
  assume c: "b_inv c"
  have "k \<in> keys (b_ll c)" using Some by (metis map_of_None_keys option.distinct(1))
  moreover have "snd (b_Get k c) = c\<lparr>b_ll := to_front k v (b_ll c)\<rparr>"
    using Some c by (simp add: b_Get_def b_inv_index)
  moreover have "size_of (to_front k v (b_ll c)) = size_of (b_ll c)"
    using size_of_del [OF _ Some] c by (simp add: to_front_def b_inv_def)
  ultimately show ?thesis using c Some by (auto simp: b_inv_def fun_upd_idem)
qed (simp add: b_Get_def b_inv_index)

interpretation bytes_lru: bounded_cache b_inv "\<lambda>c. map_of (b_ll c)" b_Get "\<lambda>k v c. snd (b_Put k v c)"
  b_Clear b_Bytes b_MaxValueBytes "\<lambda>c v. int (length v) \<le> b_MaxValueBytes c"
proof unfold_locales
  fix c k v q x
  assume c: "b_inv c"
  obtain ok c' where p: "b_Put k v c = (ok, c')" by fastforce
  have fits: "b_inv c' \<and> (\<exists>m \<ge> 1. b_ll c' = take m (to_front k v (b_ll c)))"
    if "int (length v) \<le> b_capBytes c"
    using b_Put_list [OF c that p] by auto
  have rejects: "c' = c" if "\<not> int (length v) \<le> b_capBytes c" using b_Put_reject p that by simp
  show "b_inv (snd (b_Get k c))" "map_of (b_ll (snd (b_Get k c))) = map_of (b_ll c)"
    using b_Get_inv [OF c] by auto
  show "fst (b_Get k c) = map_of (b_ll c) k" by (rule b_Get_view [OF c])
  show "b_inv (snd (b_Put k v c))" using fits rejects c p by (cases "int (length v) \<le> b_capBytes c") auto
  have wf: "wf_map (to_front k v (b_ll c))" using c by (simp add: b_inv_def)
  show "map_of (b_ll c) q = Some x \<or> q = k \<and> x = v" if a: "map_of (b_ll (snd (b_Put k v c))) q = Some x"
  proof (cases "int (length v) \<le> b_capBytes c")
    case True
    with fits obtain m where "b_ll c' = take m (to_front k v (b_ll c))" by auto
    with a p map_of_take [OF wf, of m q x] show ?thesis by (auto split: if_splits)
  qed (use a p rejects in auto)
  show "b_inv (b_Clear c)" "map_of (b_ll (b_Clear c)) q = None"
    using c by (simp_all add: b_Clear_def b_inv_def)
  show "b_Bytes c \<le> b_MaxValueBytes c" using c by (simp add: b_inv_def b_Bytes_def b_MaxValueBytes_def)
  show "map_of (b_ll (snd (b_Put k v c))) k = Some v" if a: "int (length v) \<le> b_MaxValueBytes c"
  proof -
    obtain m where "1 \<le> m" "b_ll c' = take m (to_front k v (b_ll c))"
      using fits a by (auto simp: b_MaxValueBytes_def)
    with p show ?thesis by (cases m) (auto simp: to_front_def)
  qed
next
  fix c k v
  show "b_MaxValueBytes (snd (b_Put k v c)) = b_MaxValueBytes c"
    by (auto simp: b_Put_def b_MaxValueBytes_def Let_def split: option.split prod.split)
  show "b_MaxValueBytes (snd (b_Get k c)) = b_MaxValueBytes c"
    by (auto simp: b_Get_def b_MaxValueBytes_def split: option.split)
qed

section \<open>Properties\<close>

text \<open>A put into the entry cache leaves the new entry at the head, the others in the order of
  their last use, and drops exactly those past the capacity, the least recently used first; the index
  agrees with the list and the capacity is never exceeded.\<close>

theorem e_Put_evicts_oldest:
  assumes "e_inv c"
  shows "e_inv (e_Put k v c) \<and>
    e_ll (e_Put k v c) = take (nat (e_cap c)) ((k, v) # filter (\<lambda>e. fst e \<noteq> k) (e_ll c)) \<and>
    fst (e_Get k (e_Put k v c)) = Some v"
  using e_Put_inv [OF assms] e_Put_list [OF assms] entry.insert_get [OF assms]
  by (auto simp: to_front_def del_def)

lemma newEntryLRU_inv: "e_inv (newEntryLRU n)"
  by (simp add: newEntryLRU_def e_inv_def)

theorem e_Put_evicts_oldest_witness:
  "e_ll (e_Put ''b'' (2::nat) (e_Put ''a'' 1 (newEntryLRU 1))) = [(''b'', 2)]"
  using e_Put_evicts_oldest [OF e_Put_inv [OF newEntryLRU_inv, where k = "''a''" and v = "1::nat" and n1 = 1],
      where k = "''b''" and v = 2]
  by (simp add: newEntryLRU_def e_Put_def Let_def)

text \<open>C37. A put into the byte cache rejects a value larger than the whole budget and changes nothing;
  otherwise the value is held afterwards, the budget is respected, the running total is the sum of the
  sizes held, and what was evicted is the shortest tail of the recency order that had to go.\<close>

theorem b_Put_budget:
  assumes "b_inv c"
  shows "case b_Put k v c of (ok, c') \<Rightarrow>
    b_inv c' \<and> b_Bytes c' \<le> b_capBytes c \<and>
    (if b_capBytes c < int (length v) then \<not> ok \<and> c' = c
     else ok \<and> fst (b_Get k c') = Some v \<and>
       (let l = (k, v) # filter (\<lambda>e. fst e \<noteq> k) (b_ll c); m = length (b_ll c')
        in b_ll c' = take m l \<and> b_totalBytes c' = size_of (b_ll c') \<and>
           (m < length l \<longrightarrow> b_capBytes c < size_of (take (Suc m) l))))"
proof -
  obtain ok c' where p: "b_Put k v c = (ok, c')" by fastforce
  show ?thesis
  proof (cases "b_capBytes c < int (length v)")
    case True
    with b_Put_reject [OF True, of k] p assms show ?thesis by (simp add: b_inv_def b_Bytes_def)
  next
    case False
    let ?l = "to_front k v (b_ll c)"
    from b_Put_list [OF assms _ p] False obtain m where m: "ok" "b_inv c'" "b_capBytes c' = b_capBytes c"
      "b_ll c' = take m ?l" "m < length ?l \<longrightarrow> b_capBytes c < size_of (take (Suc m) ?l)" by auto
    have "fst (b_Get k c') = Some v"
      using bytes_lru.insert_get [OF assms, of v k] False p by (simp add: b_MaxValueBytes_def)
    moreover have "length (b_ll c') = min m (length ?l)" using m(4) by simp
    moreover have "take (min m (length ?l)) ?l = take m ?l" by (simp add: min_def)
    ultimately show ?thesis using p m False
      by (auto simp: to_front_def del_def Let_def b_inv_def b_Bytes_def min_def)
  qed
qed

lemma newByteBudgetLRU_inv: "b_inv (newByteBudgetLRU n)"
  by (simp add: newByteBudgetLRU_def b_inv_def)

theorem b_Put_budget_witness:
  "snd (b_Put ''c'' ''zz'' (snd (b_Put ''b'' ''yy'' (snd (b_Put ''a'' ''x'' (newByteBudgetLRU 4)))))) =
     \<lparr>b_capBytes = 4, b_ll = [(''c'', ''zz''), (''b'', ''yy'')], b_idx = {''b'', ''c''}, b_totalBytes = 4\<rparr> \<and>
   b_Bytes (snd (b_Put ''a'' ''x'' (newByteBudgetLRU 4))) \<le> 4"
proof
  show "b_Bytes (snd (b_Put ''a'' ''x'' (newByteBudgetLRU 4))) \<le> 4"
    using b_Put_budget [OF newByteBudgetLRU_inv, of 4 "''x''" "''a''"]
    by (simp add: newByteBudgetLRU_def split: prod.splits)
qed (auto simp: b_Put_def newByteBudgetLRU_def Let_def to_front_def del_def)

end
