(* ===== verification/Policy.thy ===== *)
theory Policy
  imports Prelude
begin

text \<open>
  The version policy of the agent (\<open>pkg/agent/policy.go\<close>): how a semver step is classified and which
  steps the operator's cap lets through. The package \<open>golang.org/x/mod/semver\<close> is not part of the
  repository; its four functions are the record \<open>semver\<close>, a parameter of \<open>ComputeBump\<close>.
\<close>

section \<open>Levels\<close>

datatype BumpLevel = BumpNone | BumpPatch | BumpMinor | BumpMajor | BumpUnknown

datatype MaxBump = MaxBumpNone | MaxBumpPatch | MaxBumpMinor | MaxBumpMajor

datatype UnknownVersionPolicy = UnknownDeny | UnknownAllow

text \<open>The integer values the Go constants have.\<close>

fun bump_ord :: "BumpLevel \<Rightarrow> int" where
  "bump_ord BumpNone = 0"
| "bump_ord BumpPatch = 1"
| "bump_ord BumpMinor = 2"
| "bump_ord BumpMajor = 3"
| "bump_ord BumpUnknown = 4"

fun max_ord :: "MaxBump \<Rightarrow> int" where
  "max_ord MaxBumpNone = 0"
| "max_ord MaxBumpPatch = 1"
| "max_ord MaxBumpMinor = 2"
| "max_ord MaxBumpMajor = 3"

instantiation BumpLevel :: linorder
begin
definition less_eq_BumpLevel :: "BumpLevel \<Rightarrow> BumpLevel \<Rightarrow> bool" where
  "a \<le> b \<longleftrightarrow> bump_ord a \<le> bump_ord b"
definition less_BumpLevel :: "BumpLevel \<Rightarrow> BumpLevel \<Rightarrow> bool" where
  "a < b \<longleftrightarrow> bump_ord a < bump_ord b"
instance
proof
  fix x y z :: BumpLevel
  show "x < y \<longleftrightarrow> x \<le> y \<and> \<not> y \<le> x" by (auto simp: less_eq_BumpLevel_def less_BumpLevel_def)
  show "x \<le> x" "x \<le> y \<Longrightarrow> y \<le> z \<Longrightarrow> x \<le> z" "x \<le> y \<or> y \<le> x"
    by (auto simp: less_eq_BumpLevel_def)
  show "x \<le> y \<Longrightarrow> y \<le> x \<Longrightarrow> x = y"
    by (cases x; cases y) (auto simp: less_eq_BumpLevel_def)
qed
end

instantiation MaxBump :: linorder
begin
definition less_eq_MaxBump :: "MaxBump \<Rightarrow> MaxBump \<Rightarrow> bool" where
  "a \<le> b \<longleftrightarrow> max_ord a \<le> max_ord b"
definition less_MaxBump :: "MaxBump \<Rightarrow> MaxBump \<Rightarrow> bool" where
  "a < b \<longleftrightarrow> max_ord a < max_ord b"
instance
proof
  fix x y z :: MaxBump
  show "x < y \<longleftrightarrow> x \<le> y \<and> \<not> y \<le> x" by (auto simp: less_eq_MaxBump_def less_MaxBump_def)
  show "x \<le> x" "x \<le> y \<Longrightarrow> y \<le> z \<Longrightarrow> x \<le> z" "x \<le> y \<or> y \<le> x"
    by (auto simp: less_eq_MaxBump_def)
  show "x \<le> y \<Longrightarrow> y \<le> x \<Longrightarrow> x = y"
    by (cases x; cases y) (auto simp: less_eq_MaxBump_def)
qed
end

section \<open>Labels\<close>

fun MaxBump_String :: "MaxBump \<Rightarrow> string" where
  "MaxBump_String MaxBumpNone = ''none''"
| "MaxBump_String MaxBumpPatch = ''patch''"
| "MaxBump_String MaxBumpMinor = ''minor''"
| "MaxBump_String MaxBumpMajor = ''major''"

definition ParseMaxBump :: "string \<Rightarrow> MaxBump option" where
  "ParseMaxBump s =
     (let t = to_lower (trim_space s)
      in if t = '''' \<or> t = ''major'' then Some MaxBumpMajor
         else if t = ''minor'' then Some MaxBumpMinor
         else if t = ''patch'' then Some MaxBumpPatch
         else if t = ''none'' then Some MaxBumpNone
         else None)"

definition UnknownVersionPolicy_String :: "UnknownVersionPolicy \<Rightarrow> string" where
  "UnknownVersionPolicy_String u = (if u = UnknownAllow then ''allow'' else ''deny'')"

definition ParseUnknownVersionPolicy :: "string \<Rightarrow> UnknownVersionPolicy option" where
  "ParseUnknownVersionPolicy s =
     (let t = to_lower (trim_space s)
      in if t = '''' \<or> t = ''deny'' then Some UnknownDeny
         else if t = ''allow'' then Some UnknownAllow
         else None)"

section \<open>Classification\<close>

record semver =
  IsValid :: "string \<Rightarrow> bool"
  Compare :: "string \<Rightarrow> string \<Rightarrow> int"
  Major :: "string \<Rightarrow> string"
  MajorMinor :: "string \<Rightarrow> string"

definition ensureSemverPrefix :: "string \<Rightarrow> string" where
  "ensureSemverPrefix s0 =
     (let s = trim_space s0
      in if s = '''' then ''''
         else if has_prefix s ''v'' \<or> has_prefix s ''V''
         then ''v'' @ trim_prefix (trim_prefix s ''v'') ''V''
         else ''v'' @ s)"

definition ComputeBump :: "semver \<Rightarrow> string \<Rightarrow> string \<Rightarrow> BumpLevel" where
  "ComputeBump sv local remote =
     (let l = ensureSemverPrefix local; r = ensureSemverPrefix remote
      in if \<not> IsValid sv l \<or> \<not> IsValid sv r then BumpUnknown
         else
           (let cmp = Compare sv l r
            in if cmp \<ge> 0 then BumpNone
               else if Major sv l \<noteq> Major sv r then BumpMajor
               else if MajorMinor sv l \<noteq> MajorMinor sv r then BumpMinor
               else BumpPatch))"

definition AllowedByPolicy :: "BumpLevel \<Rightarrow> MaxBump \<Rightarrow> bool" where
  "AllowedByPolicy bump mx =
     (if bump = BumpUnknown \<or> bump = BumpNone then False
      else
        (case bump of
           BumpPatch \<Rightarrow> MaxBumpPatch \<le> mx
         | BumpMinor \<Rightarrow> MaxBumpMinor \<le> mx
         | BumpMajor \<Rightarrow> MaxBumpMajor \<le> mx
         | _ \<Rightarrow> False))"

section \<open>Facts\<close>

lemma AllowedByPolicy_iff:
  "AllowedByPolicy b mx \<longleftrightarrow> BumpPatch \<le> b \<and> b \<le> BumpMajor \<and> bump_ord b \<le> max_ord mx"
  by (cases b; cases mx) (auto simp: AllowedByPolicy_def less_eq_MaxBump_def less_eq_BumpLevel_def)

lemma AllowedByPolicy_mono: "AllowedByPolicy b mx \<Longrightarrow> mx \<le> my \<Longrightarrow> AllowedByPolicy b my"
  by (simp add: AllowedByPolicy_iff less_eq_MaxBump_def)

lemma ComputeBump_upgrade:
  "BumpPatch \<le> ComputeBump sv l r \<Longrightarrow> ComputeBump sv l r \<le> BumpMajor \<Longrightarrow>
   IsValid sv (ensureSemverPrefix l) \<and> IsValid sv (ensureSemverPrefix r) \<and>
   Compare sv (ensureSemverPrefix l) (ensureSemverPrefix r) < 0"
  by (auto simp: ComputeBump_def Let_def less_eq_BumpLevel_def split: if_splits)

text \<open>The major number of a version under the real package: what stands before the first dot.\<close>

definition major_of :: "string \<Rightarrow> string" where
  "major_of v = takeWhile (\<lambda>c. c \<noteq> CHR ''.'') v"

section \<open>Properties\<close>

text \<open>C30. An automatic update is always an upgrade between two valid versions, whatever the semver
  package answers: when the policy lets the step from the local to the remote version through, both
  parse, the remote one is strictly newer, and the step is no larger than the cap. Raising the cap
  never blocks a step that was allowed.\<close>

theorem policy_only_upgrades:
  assumes "AllowedByPolicy (ComputeBump sv l r) mx"
  shows "IsValid sv (ensureSemverPrefix l) \<and> IsValid sv (ensureSemverPrefix r) \<and>
    Compare sv (ensureSemverPrefix l) (ensureSemverPrefix r) < 0 \<and>
    bump_ord (ComputeBump sv l r) \<le> max_ord mx \<and>
    (mx \<le> my \<longrightarrow> AllowedByPolicy (ComputeBump sv l r) my)"
  using assms ComputeBump_upgrade [of sv l r] AllowedByPolicy_mono [OF assms]
  by (auto simp: AllowedByPolicy_iff)

definition sample_semver :: semver where
  "sample_semver =
     \<lparr>IsValid = (\<lambda>v. has_prefix v ''v'' \<and> 1 < length v),
      Compare = (\<lambda>a b. if a = b then 0 else if a < b then - 1 else 1),
      Major = major_of, MajorMinor = take 4\<rparr>"

theorem policy_only_upgrades_witness:
  "AllowedByPolicy (ComputeBump sample_semver ''1.2.3'' '' v1.3.0'') MaxBumpMinor \<and>
   \<not> AllowedByPolicy (ComputeBump sample_semver ''1.2.3'' '' v1.3.0'') MaxBumpPatch \<and>
   Compare sample_semver ''v1.2.3'' ''v1.3.0'' < 0"
proof -
  have a: "AllowedByPolicy (ComputeBump sample_semver ''1.2.3'' '' v1.3.0'') MaxBumpMinor"
    and b: "\<not> AllowedByPolicy (ComputeBump sample_semver ''1.2.3'' '' v1.3.0'') MaxBumpPatch"
    and e: "ensureSemverPrefix ''1.2.3'' = ''v1.2.3''" "ensureSemverPrefix '' v1.3.0'' = ''v1.3.0''"
    by code_simp+
  show ?thesis using policy_only_upgrades [OF a] a b e by simp
qed

text \<open>The labels of the cap and of the policy for unknown versions are read back as the value they
  stand for, in any case and with blanks around, and the empty label means the default.\<close>

theorem policy_labels_roundtrip:
  "ParseMaxBump (MaxBump_String m) = Some m \<and>
   ParseUnknownVersionPolicy (UnknownVersionPolicy_String u) = Some u \<and>
   ParseMaxBump '' MAJOR '' = Some MaxBumpMajor \<and> ParseMaxBump '''' = Some MaxBumpMajor \<and>
   ParseUnknownVersionPolicy '''' = Some UnknownDeny"
proof -
  have 1: "ParseMaxBump (MaxBump_String MaxBumpNone) = Some MaxBumpNone"
    "ParseMaxBump (MaxBump_String MaxBumpPatch) = Some MaxBumpPatch"
    "ParseMaxBump (MaxBump_String MaxBumpMinor) = Some MaxBumpMinor"
    "ParseMaxBump (MaxBump_String MaxBumpMajor) = Some MaxBumpMajor"
    by code_simp+
  have 2: "ParseUnknownVersionPolicy (UnknownVersionPolicy_String UnknownDeny) = Some UnknownDeny"
    "ParseUnknownVersionPolicy (UnknownVersionPolicy_String UnknownAllow) = Some UnknownAllow"
    by code_simp+
  have 3: "ParseMaxBump '' MAJOR '' = Some MaxBumpMajor" "ParseMaxBump '''' = Some MaxBumpMajor"
    "ParseUnknownVersionPolicy '''' = Some UnknownDeny" by code_simp+
  show ?thesis using 1 2 3 by (cases m; cases u) simp_all
qed

end
