(* ===== verification/Slots.thy ===== *)
theory Slots
  imports Atomicio
begin

text \<open>
  The A/B slots of the agent (\<open>pkg/agent/slots.go\<close>): two slot files and a symbolic link that names
  the active one. SHA-256 is a parameter \<open>H\<close> of the definitions that hash. The abstract view of a
  device is the name of its active slot and what the two slots hold; the lemmas say what each operation
  does to that view.
\<close>

section \<open>Definitions\<close>

type_synonym hashfn = "bytes \<Rightarrow> bytes"

definition sha256_hex :: "hashfn \<Rightarrow> bytes \<Rightarrow> string" where
  "sha256_hex H b = hex_encode (H b)"

definition SlotNameA :: string where "SlotNameA = ''A''"
definition SlotNameB :: string where "SlotNameB = ''B''"

record slot_manager =
  slotsDir :: string
  activeSymlink :: string

fun check_slots :: "string \<Rightarrow> string list \<Rightarrow> 'z os_scheme \<Rightarrow> err option \<times> 'z os_scheme" where
  "check_slots dir [] w = (None, w)"
| "check_slots dir (name # names) w =
     (case os_Stat (path_join dir name) w of
        (Inl e, w) \<Rightarrow> (Some (Wrap ''slot missing (provisioning must seed both slots)'' e), w)
      | (Inr i, w) \<Rightarrow> check_slots dir names w)"

definition NewSlotManager :: "string \<Rightarrow> string \<Rightarrow> 'z os_scheme \<Rightarrow> (err + slot_manager) \<times> 'z os_scheme" where
  "NewSlotManager dir link w =
     (if dir = '''' then (Inl (Msg ''slots_dir is required''), w)
      else if link = '''' then (Inl (Msg ''active_symlink is required''), w)
      else
        (case os_Stat dir w of
           (Inl e, w) \<Rightarrow> (Inl (Wrap ''stat slots_dir'' e), w)
         | (Inr info, w) \<Rightarrow>
             if info \<noteq> EDir then (Inl (Msg ''slots_dir is not a directory''), w)
             else
               (case check_slots dir [SlotNameA, SlotNameB] w of
                  (Some e, w) \<Rightarrow> (Inl e, w)
                | (None, w) \<Rightarrow>
                    (case os_Lstat link w of
                       (Inl e, w) \<Rightarrow> (Inl (Wrap ''active symlink missing'' e), w)
                     | (Inr i, w) \<Rightarrow> (Inr \<lparr>slotsDir = dir, activeSymlink = link\<rparr>, w)))))"

text \<open>The link's target as \<open>resolveActive\<close> spells it, and the name it ends in.\<close>

definition link_target :: "slot_manager \<Rightarrow> string \<Rightarrow> string" where
  "link_target s dst =
     path_clean (if is_abs dst then dst else path_join (path_dir (activeSymlink s)) dst)"

definition resolveActive :: "slot_manager \<Rightarrow> 'z os_scheme \<Rightarrow> (err + string \<times> string) \<times> 'z os_scheme" where
  "resolveActive s w =
     (case os_Readlink (activeSymlink s) w of
        (Inl e, w) \<Rightarrow> (Inl (Wrap ''readlink'' e), w)
      | (Inr dst, w) \<Rightarrow>
          (let dst = link_target s dst; base = path_base dst
           in if base \<noteq> SlotNameA \<and> base \<noteq> SlotNameB
              then (Inl (Msg ''active symlink points at an unexpected name''), w)
              else (Inr (dst, base), w)))"

definition hashFile :: "hashfn \<Rightarrow> string \<Rightarrow> 'z os_scheme \<Rightarrow> (err + string) \<times> 'z os_scheme" where
  "hashFile H path w =
     (case os_ReadFile path w of
        (Inl e, w) \<Rightarrow> (Inl e, w)
      | (Inr c, w) \<Rightarrow> (Inr (sha256_hex H (bytes_of c)), w))"

definition ActiveSlot ::
  "hashfn \<Rightarrow> slot_manager \<Rightarrow> 'z os_scheme \<Rightarrow> (err + string \<times> string \<times> string) \<times> 'z os_scheme" where
  "ActiveSlot H s w =
     (case resolveActive s w of
        (Inl e, w) \<Rightarrow> (Inl e, w)
      | (Inr (path, name), w) \<Rightarrow>
          (case hashFile H path w of
             (Inl e, w) \<Rightarrow> (Inl (Wrap ''hash active slot'' e), w)
           | (Inr h, w) \<Rightarrow> (Inr (path, h, name), w)))"

definition InactiveSlot :: "slot_manager \<Rightarrow> 'z os_scheme \<Rightarrow> (err + string \<times> string) \<times> 'z os_scheme" where
  "InactiveSlot s w =
     (case resolveActive s w of
        (Inl e, w) \<Rightarrow> (Inl e, w)
      | (Inr (path, activeName), w) \<Rightarrow>
          (let other = (if activeName = SlotNameB then SlotNameA else SlotNameB)
           in (Inr (path_join (slotsDir s) other, other), w)))"

definition WriteToInactive :: "slot_manager \<Rightarrow> reader \<Rightarrow> 'z os_scheme \<Rightarrow> err option \<times> 'z os_scheme" where
  "WriteToInactive s r w =
     (case InactiveSlot s w of
        (Inl e, w) \<Rightarrow> (Some e, w)
      | (Inr (dst, name), w) \<Rightarrow>
          (case WriteReader dst r 493 w of
             (Some e, w) \<Rightarrow> (Some (Wrap ''write inactive slot'' e), w)
           | (None, w) \<Rightarrow> (None, w)))"

definition Swap :: "slot_manager \<Rightarrow> 'z os_scheme \<Rightarrow> err option \<times> 'z os_scheme" where
  "Swap s w =
     (case InactiveSlot s w of
        (Inl e, w) \<Rightarrow> (Some e, w)
      | (Inr (inactivePath, name), w) \<Rightarrow>
          (case ReplaceSymlink inactivePath (activeSymlink s) w of
             (Some e, w) \<Rightarrow> (Some (Wrap ''swap symlink'' e), w)
           | (None, w) \<Rightarrow> (None, w)))"

definition Rollback :: "slot_manager \<Rightarrow> 'z os_scheme \<Rightarrow> err option \<times> 'z os_scheme" where
  "Rollback s w =
     (case InactiveSlot s w of
        (Inl e, w) \<Rightarrow> (Some e, w)
      | (Inr (inactivePath, name), w) \<Rightarrow>
          (case ReplaceSymlink inactivePath (activeSymlink s) w of
             (Some e, w) \<Rightarrow> (Some (Wrap ''rollback symlink'' e), w)
           | (None, w) \<Rightarrow> (None, w)))"

definition assertInactiveHash ::
  "hashfn \<Rightarrow> slot_manager \<Rightarrow> string \<Rightarrow> string \<Rightarrow> 'z os_scheme \<Rightarrow> err option \<times> 'z os_scheme" where
  "assertInactiveHash H s expectedHash op w =
     (if expectedHash = '''' then (Some (Msg (op @ '': expected hash is required'')), w)
      else
        (case InactiveSlot s w of
           (Inl e, w) \<Rightarrow> (Some (Wrap op e), w)
         | (Inr (path, name), w) \<Rightarrow>
             (case hashFile H path w of
                (Inl e, w) \<Rightarrow> (Some (Wrap (op @ '': hash inactive slot'') e), w)
              | (Inr actual, w) \<Rightarrow>
                  if actual \<noteq> expectedHash then (Some (Msg (op @ '' refused'')), w) else (None, w))))"

definition SwapTo :: "hashfn \<Rightarrow> slot_manager \<Rightarrow> string \<Rightarrow> 'z os_scheme \<Rightarrow> err option \<times> 'z os_scheme" where
  "SwapTo H s expectedHash w =
     (case assertInactiveHash H s expectedHash ''swap'' w of
        (Some e, w) \<Rightarrow> (Some e, w)
      | (None, w) \<Rightarrow> Swap s w)"

definition RollbackTo :: "hashfn \<Rightarrow> slot_manager \<Rightarrow> string \<Rightarrow> 'z os_scheme \<Rightarrow> err option \<times> 'z os_scheme" where
  "RollbackTo H s expectedHash w =
     (case assertInactiveHash H s expectedHash ''rollback'' w of
        (Some e, w) \<Rightarrow> (Some e, w)
      | (None, w) \<Rightarrow> Rollback s w)"

section \<open>The abstract device\<close>

text \<open>A device whose paths do not run into each other; every configuration the program ships is one.\<close>

definition layout :: "slot_manager \<Rightarrow> bool" where
  "layout s \<longleftrightarrow>
     is_abs (slotsDir s) \<and>
     (let a = path_join (slotsDir s) SlotNameA; b = path_join (slotsDir s) SlotNameB; l = activeSymlink s
      in \<not> is_tmp l \<and> \<not> is_tmp (l @ ''.tmp'') \<and> l \<noteq> a \<and> l \<noteq> b \<and> l @ ''.tmp'' \<noteq> a \<and> l @ ''.tmp'' \<noteq> b)"

definition active_name :: "slot_manager \<Rightarrow> tree \<Rightarrow> string option" where
  "active_name s fs =
     (case map_of fs (activeSymlink s) of
        Some (ELink t) \<Rightarrow>
          (let base = path_base (link_target s t)
           in if base = SlotNameA \<or> base = SlotNameB then Some base else None)
      | _ \<Rightarrow> None)"

definition other :: "string \<Rightarrow> string" where
  "other n = (if n = SlotNameB then SlotNameA else SlotNameB)"

definition slot_path :: "slot_manager \<Rightarrow> string \<Rightarrow> string" where
  "slot_path s n = path_join (slotsDir s) n"

text \<open>What the device holds: the active slot's name and the entries of both slots.\<close>

definition device :: "slot_manager \<Rightarrow> tree \<Rightarrow> string option \<times> ent option \<times> ent option" where
  "device s fs =
     (active_name s fs, map_of fs (slot_path s SlotNameA), map_of fs (slot_path s SlotNameB))"

section \<open>Facts\<close>

lemma slot_names [simp]: "path_seg SlotNameA" "path_seg SlotNameB" "SlotNameA \<noteq> SlotNameB"
  by (simp_all add: SlotNameA_def SlotNameB_def path_seg_def)

lemma other_simps [simp]: "other SlotNameA = SlotNameB" "other SlotNameB = SlotNameA"
  using slot_names(3) by (auto simp: other_def)

lemma layout_dir: "layout s \<Longrightarrow> slotsDir s \<noteq> ''''"
  by (auto simp: layout_def is_abs_def has_prefix_def)

lemma slot_path_facts:
  assumes "layout s" "n = SlotNameA \<or> n = SlotNameB"
  shows "\<not> is_tmp (slot_path s n)" "path_base (slot_path s n) = n"
    "link_target s (slot_path s n) = slot_path s n"
    "slot_path s n \<noteq> activeSymlink s" "slot_path s n \<noteq> activeSymlink s @ ''.tmp''"
proof -
  note d = layout_dir [OF assms(1)]
  have n: "path_seg n" using assms(2) by auto
  show b: "path_base (slot_path s n) = n" using path_base_join [OF d n] by (simp add: slot_path_def)
  show "\<not> is_tmp (slot_path s n)"
    using assms(2) b by (auto simp: is_tmp_def has_prefix_def SlotNameA_def SlotNameB_def)
  show "link_target s (slot_path s n) = slot_path s n"
    using path_join_clean [OF d n] assms(1) by (simp add: link_target_def slot_path_def layout_def)
  show "slot_path s n \<noteq> activeSymlink s" "slot_path s n \<noteq> activeSymlink s @ ''.tmp''"
    using assms by (auto simp: layout_def slot_path_def Let_def)
qed

lemma slot_paths_distinct: "layout s \<Longrightarrow> slot_path s SlotNameA \<noteq> slot_path s SlotNameB"
  using path_join_inj [OF layout_dir, of s SlotNameA SlotNameB] by (simp add: slot_path_def)

lemma resolveActive_result:
  assumes "resolveActive s w = (r, w')"
  shows "same_disk w w' \<and> same_rest w w'"
    "r = Inr (p, n) \<Longrightarrow> active_name s (files w) = Some n \<and> (n = SlotNameA \<or> n = SlotNameB)"
    "r = Inr (p, n) \<Longrightarrow> \<exists>t. map_of (files w) (activeSymlink s) = Some (ELink t) \<and> p = link_target s t"
proof -
  obtain r1 w1 where 1: "os_Readlink (activeSymlink s) w = (r1, w1)" by fastforce
  have w': "w' = w1" using assms 1 by (auto simp: resolveActive_def Let_def split: sum.splits if_splits)
  with os_reads(4) [OF 1] show "same_disk w w' \<and> same_rest w w'" by simp
  assume r: "r = Inr (p, n)"
  with assms 1 obtain t where t: "r1 = Inr t" "p = link_target s t" "n = path_base p"
    "n = SlotNameA \<or> n = SlotNameB"
    by (auto simp: resolveActive_def Let_def split: sum.splits if_splits)
  moreover have "map_of (files w) (activeSymlink s) = Some (ELink t)"
    using 1 t(1) by (auto simp: os_Readlink_def syscall_def split: option.splits ent.splits)
  ultimately show "active_name s (files w) = Some n \<and> (n = SlotNameA \<or> n = SlotNameB)"
    "\<exists>t. map_of (files w) (activeSymlink s) = Some (ELink t) \<and> p = link_target s t"
    by (auto simp: active_name_def Let_def)
qed

lemma InactiveSlot_result:
  assumes "InactiveSlot s w = (r, w')"
  shows "same_disk w w' \<and> same_rest w w'"
    "r = Inr (p, n) \<Longrightarrow>
     \<exists>a. active_name s (files w) = Some a \<and> n = other a \<and> p = slot_path s n \<and>
         (a = SlotNameA \<or> a = SlotNameB) \<and> (n = SlotNameA \<or> n = SlotNameB)"
proof -
  obtain r1 w1 where 1: "resolveActive s w = (r1, w1)" by fastforce
  have w': "w' = w1" using assms 1 by (auto simp: InactiveSlot_def Let_def split: sum.splits)
  with resolveActive_result(1) [OF 1] show "same_disk w w' \<and> same_rest w w'" by simp
  assume "r = Inr (p, n)"
  with assms 1 obtain q a where a: "r1 = Inr (q, a)" "n = other a" "p = slot_path s n"
    by (auto simp: InactiveSlot_def Let_def other_def slot_path_def split: sum.splits)
  with resolveActive_result(2) [OF 1 a(1)] show
    "\<exists>a. active_name s (files w) = Some a \<and> n = other a \<and> p = slot_path s n \<and>
         (a = SlotNameA \<or> a = SlotNameB) \<and> (n = SlotNameA \<or> n = SlotNameB)" by auto
qed

lemma hashFile_result:
  assumes "hashFile H p w = (r, w')"
  shows "same_disk w w' \<and> same_rest w w'"
    "r = Inr h \<Longrightarrow> map_of (files w) p = Some (EFile c m t sy) \<Longrightarrow> h = sha256_hex H (bytes_of c)"
proof -
  obtain r1 w1 where 1: "os_ReadFile p w = (r1, w1)" by fastforce
  have "w' = w1" using assms 1 by (auto simp: hashFile_def split: sum.splits)
  with os_reads(3) [OF 1] show "same_disk w w' \<and> same_rest w w'" by simp
  assume "r = Inr h" "map_of (files w) p = Some (EFile c m t sy)"
  with assms 1 show "h = sha256_hex H (bytes_of c)"
    by (auto simp: hashFile_def os_ReadFile_def syscall_def eval_nat_numeral split: sum.splits option.splits)
qed

section \<open>What the operations do to the device\<close>

definition abs_swap :: "string option \<times> ent option \<times> ent option \<Rightarrow> string option \<times> ent option \<times> ent option" where
  "abs_swap d = (case d of (a, x, y) \<Rightarrow> (map_option other a, x, y))"

definition abs_write :: "ent \<Rightarrow> string option \<times> ent option \<times> ent option \<Rightarrow> string option \<times> ent option \<times> ent option" where
  "abs_write e d = (case d of (a, x, y) \<Rightarrow> if a = Some SlotNameA then (a, x, Some e) else (a, Some e, y))"

lemma device_cong:
  assumes "layout s"
    and "map_of fs (activeSymlink s) = map_of gs (activeSymlink s)"
    and "\<And>n. n = SlotNameA \<or> n = SlotNameB \<Longrightarrow> map_of fs (slot_path s n) = map_of gs (slot_path s n)"
  shows "device s fs = device s gs"
  using assms by (simp add: device_def active_name_def)

lemma device_temp_only: "layout s \<Longrightarrow> temp_only w w' \<Longrightarrow> device s (files w') = device s (files w)"
  by (rule device_cong)
    (auto intro!: evolvesD [of tmps] simp: slot_path_facts(1) layout_def Let_def)

lemma link_slot_device:
  assumes "layout s" "atomic_link (activeSymlink s) (slot_path s n) w r w'" "n = SlotNameA \<or> n = SlotNameB"
  shows "r = None \<Longrightarrow> device s (files w') = (Some n, snd (device s (files w)))"
    "r \<noteq> None \<Longrightarrow> device s (files w') = device s (files w)"
proof -
  have slots: "map_of (files w') (slot_path s k) = map_of (files w) (slot_path s k)"
    if "k = SlotNameA \<or> k = SlotNameB" for k
    using assms(2) slot_path_facts(4,5) [OF assms(1) that]
    by (auto simp: atomic_link_def intro: evolvesD)
  show "r = None \<Longrightarrow> device s (files w') = (Some n, snd (device s (files w)))"
    using slots assms(2,3) slot_path_facts(2,3) [OF assms(1,3)]
    by (auto simp: device_def active_name_def atomic_link_def Let_def)
  show "r \<noteq> None \<Longrightarrow> device s (files w') = device s (files w)"
    using slots assms(2) by (intro device_cong [OF assms(1)]) (auto simp: atomic_link_def)
qed

text \<open>Both \<open>Swap\<close> and \<open>Rollback\<close> are this step.\<close>

definition flip :: "string \<Rightarrow> slot_manager \<Rightarrow> 'z os_scheme \<Rightarrow> err option \<times> 'z os_scheme" where
  "flip m s w =
     (case InactiveSlot s w of
        (Inl e, w) \<Rightarrow> (Some e, w)
      | (Inr (p, n), w) \<Rightarrow>
          (case ReplaceSymlink p (activeSymlink s) w of
             (Some e, w) \<Rightarrow> (Some (Wrap m e), w)
           | (None, w) \<Rightarrow> (None, w)))"

lemma flips: "Swap = flip ''swap symlink''" "Rollback = flip ''rollback symlink''"
  by (simp_all add: fun_eq_iff Swap_def Rollback_def flip_def)

lemma flip_result:
  assumes "flip m s w = (r, w')" "layout s"
  shows "device s (files w') = (if r = None then abs_swap (device s (files w)) else device s (files w))"
    "r = None \<Longrightarrow> active_name s (files w) \<noteq> None"
    "same_rest w w' \<and> (\<forall>a. active_name s (files w) = Some a \<longrightarrow>
       evolves (link_paths (activeSymlink s)) (only_link (activeSymlink s) {Some (ELink (slot_path s (other a)))}) w w')"
proof -
  obtain r1 w1 where 1: "InactiveSlot s w = (r1, w1)" by fastforce
  note same = InactiveSlot_result(1) [OF 1]
  have "device s (files w') = (if r = None then abs_swap (device s (files w)) else device s (files w)) \<and>
    (r = None \<longrightarrow> active_name s (files w) \<noteq> None) \<and> same_rest w w' \<and> (\<forall>a. active_name s (files w) = Some a \<longrightarrow>
       evolves (link_paths (activeSymlink s)) (only_link (activeSymlink s) {Some (ELink (slot_path s (other a)))}) w w')"
  proof (cases r1)
    case (Inl e)
    with assms(1) 1 same show ?thesis by (auto simp: flip_def evolves_same) (auto simp: same_disk_def)
  next
    case (Inr pn)
    obtain p n where pn: "pn = (p, n)" by fastforce
    from InactiveSlot_result(2) [OF 1 Inr [unfolded pn]] obtain a where
      a: "active_name s (files w) = Some a" "n = other a" "p = slot_path s n" "n = SlotNameA \<or> n = SlotNameB" by blast
    obtain r2 w2 where 2: "ReplaceSymlink p (activeSymlink s) w1 = (r2, w2)" by fastforce
    have w': "w' = w2" "(r = None) = (r2 = None)"
      using assms(1) 1 2 Inr pn by (auto simp: flip_def split: option.splits)
    note at = ReplaceSymlink_atomic [OF 2, unfolded a(3)]
    have f: "files w1 = files w" using same by (simp add: same_disk_def)
    have "device s (files w') = (if r = None then abs_swap (device s (files w)) else device s (files w))"
      using link_slot_device [OF assms(2) at a(4)] w' f a(1,2) by (auto simp: device_def abs_swap_def)
    moreover have "same_rest w w'" using same at w' same_rest_trans by (auto simp: atomic_link_def)
    ultimately show ?thesis using at w' a same
      by (auto simp: atomic_link_def intro: evolves_same_left)
  qed
  then show "device s (files w') = (if r = None then abs_swap (device s (files w)) else device s (files w))"
    "r = None \<Longrightarrow> active_name s (files w) \<noteq> None"
    "same_rest w w' \<and> (\<forall>a. active_name s (files w) = Some a \<longrightarrow>
       evolves (link_paths (activeSymlink s)) (only_link (activeSymlink s) {Some (ELink (slot_path s (other a)))}) w w')"
    by blast+
qed

lemma flip_link:
  assumes "flip m s w = (None, w')" "active_name s (files w) = Some a"
  shows "map_of (files w') (activeSymlink s) = Some (ELink (slot_path s (other a)))"
proof -
  obtain r1 w1 where 1: "InactiveSlot s w = (r1, w1)" by fastforce
  with assms(1) obtain p n where pn: "r1 = Inr (p, n)" by (auto simp: flip_def split: sum.splits)
  from InactiveSlot_result(2) [OF 1 pn] assms(2) have p: "p = slot_path s (other a)" by auto
  obtain r2 w2 where 2: "ReplaceSymlink p (activeSymlink s) w1 = (r2, w2)" by fastforce
  have "w' = w2" "r2 = None" using assms(1) 1 2 pn by (auto simp: flip_def split: option.splits)
  with ReplaceSymlink_atomic [OF 2] p show ?thesis by (simp add: atomic_link_def)
qed

text \<open>Writing the inactive slot.\<close>

lemma WriteToInactive_result:
  assumes "WriteToInactive s (cs, rerr) w = (r, w')" "layout s"
  shows "device s (files w') =
      (if r = None then abs_write (EFile (joined cs) 493 (clock w) True) (device s (files w)) else device s (files w))"
    "r = None \<Longrightarrow> active_name s (files w) \<noteq> None"
    "same_rest w w' \<and> (\<forall>a. active_name s (files w) = Some a \<longrightarrow>
       writes_at (slot_path s (other a)) {Some (EFile (joined cs) 493 (clock w) True)} w w')"
proof -
  let ?e = "EFile (joined cs) 493 (clock w) True"
  obtain r1 w1 where 1: "InactiveSlot s w = (r1, w1)" by fastforce
  note same = InactiveSlot_result(1) [OF 1]
  have "device s (files w') = (if r = None then abs_write ?e (device s (files w)) else device s (files w)) \<and>
    (r = None \<longrightarrow> active_name s (files w) \<noteq> None) \<and> same_rest w w' \<and> (\<forall>a. active_name s (files w) = Some a \<longrightarrow>
       writes_at (slot_path s (other a)) {Some ?e} w w')"
  proof (cases r1)
    case (Inl e)
    with assms(1) 1 same show ?thesis by (auto simp: WriteToInactive_def evolves_same) (auto simp: same_disk_def)
  next
    case (Inr pn)
    obtain p n where pn: "pn = (p, n)" by fastforce
    from InactiveSlot_result(2) [OF 1 Inr [unfolded pn]] obtain a where
      a: "active_name s (files w) = Some a" "n = other a" "p = slot_path s n"
        "a = SlotNameA \<or> a = SlotNameB" "n = SlotNameA \<or> n = SlotNameB" by blast
    obtain r2 w2 where 2: "WriteReader p (cs, rerr) 493 w1 = (r2, w2)" by fastforce
    have w': "w' = w2" "(r = None) = (r2 = None)"
      using assms(1) 1 2 Inr pn by (auto simp: WriteToInactive_def split: option.splits)
    have f: "files w1 = files w" "clock w1 = clock w" using same by (simp_all add: same_disk_def same_rest_def)
    note facts = slot_path_facts [OF assms(2) a(5)]
    have at: "atomic_write (slot_path s n) ?e w1 r2 w2"
      using WriteReader_atomic [OF 2] facts(1) a(3) f(2) by simp
    then have keep: "map_of (files w2) q = map_of (files w) q" if "q \<noteq> slot_path s n" "\<not> is_tmp q" for q
      using that f(1) by (auto simp: atomic_write_def dest: evolvesD [of _ _ _ _ q])
    have link: "map_of (files w2) (activeSymlink s) = map_of (files w) (activeSymlink s)"
      using keep facts(4) assms(2) by (auto simp: layout_def Let_def)
    have slot: "map_of (files w2) (slot_path s k) = map_of (files w) (slot_path s k)"
      if "k = a" for k
    proof (rule keep)
      show "slot_path s k \<noteq> slot_path s n"
        using slot_paths_distinct [OF assms(2)] a(2,4) that by auto
      show "\<not> is_tmp (slot_path s k)" using slot_path_facts(1) [OF assms(2)] a(4) that by blast
    qed
    have new: "map_of (files w2) (slot_path s n) = (if r2 = None then Some ?e else map_of (files w) (slot_path s n))"
      using at f(1) by (simp add: atomic_write_def)
    have "device s (files w') = (if r = None then abs_write ?e (device s (files w)) else device s (files w))"
      using link slot new w' a by (auto simp: device_def active_name_def abs_write_def)
    moreover have "writes_at (slot_path s n) {Some ?e} w w'"
      using at w' same by (auto simp: atomic_write_def intro: evolves_same_left same_rest_trans)
    ultimately show ?thesis using a by auto
  qed
  then show "device s (files w') = (if r = None then abs_write ?e (device s (files w)) else device s (files w))"
    "r = None \<Longrightarrow> active_name s (files w) \<noteq> None"
    "same_rest w w' \<and> (\<forall>a. active_name s (files w) = Some a \<longrightarrow>
       writes_at (slot_path s (other a)) {Some ?e} w w')"
    by blast+
qed

text \<open>The checked swap: a slot that is a plain file must hash to what the caller expects.\<close>

lemma assertInactiveHash_result:
  assumes "assertInactiveHash H s h op w = (r, w')"
  shows "same_disk w w' \<and> same_rest w w'"
    "r = None \<Longrightarrow> \<exists>a. active_name s (files w) = Some a \<and>
       (\<forall>c m t sy. map_of (files w) (slot_path s (other a)) = Some (EFile c m t sy) \<longrightarrow>
          sha256_hex H (bytes_of c) = h)"
proof -
  obtain r1 w1 where 1: "InactiveSlot s w = (r1, w1)" by fastforce
  note same = InactiveSlot_result(1) [OF 1]
  have "(same_disk w w' \<and> same_rest w w') \<and> (r = None \<longrightarrow> (\<exists>a. active_name s (files w) = Some a \<and>
       (\<forall>c m t sy. map_of (files w) (slot_path s (other a)) = Some (EFile c m t sy) \<longrightarrow>
          sha256_hex H (bytes_of c) = h)))"
  proof (cases "h = '''' \<or> (\<exists>e. r1 = Inl e)")
    case True
    with assms 1 same show ?thesis by (auto simp: assertInactiveHash_def split: if_splits)
  next
    case False
    then obtain p n where r1: "r1 = Inr (p, n)" by (cases r1) auto
    from InactiveSlot_result(2) [OF 1 r1] obtain a where
      a: "active_name s (files w) = Some a" "n = other a" "p = slot_path s n" by blast
    obtain r2 w2 where 2: "hashFile H p w1 = (r2, w2)" by fastforce
    have w': "w' = w2" "r = None \<Longrightarrow> r2 = Inr h"
      using assms 1 2 r1 False by (auto simp: assertInactiveHash_def split: sum.splits if_splits)
    have "files w1 = files w" using same by (simp add: same_disk_def)
    then have "sha256_hex H (bytes_of c) = h"
      if "r = None" "map_of (files w) (slot_path s (other a)) = Some (EFile c m t sy)" for c m t sy
      using hashFile_result(2) [OF 2 w'(2) [OF that(1)]] that(2) a(2,3) by simp
    moreover have "same_disk w w' \<and> same_rest w w'"
      using same hashFile_result(1) [OF 2] w'(1) same_disk_trans same_rest_trans by blast
    ultimately show ?thesis using a(1) by blast
  qed
  then show "same_disk w w' \<and> same_rest w w'"
    "r = None \<Longrightarrow> \<exists>a. active_name s (files w) = Some a \<and>
       (\<forall>c m t sy. map_of (files w) (slot_path s (other a)) = Some (EFile c m t sy) \<longrightarrow>
          sha256_hex H (bytes_of c) = h)" by blast+
qed

lemma checked_flip:
  assumes "(case assertInactiveHash H s h op w of (Some e, w) \<Rightarrow> (Some e, w) | (None, w) \<Rightarrow> flip m s w) = (r, w')"
    and "layout s"
  shows "if r = None
    then device s (files w') = abs_swap (device s (files w)) \<and>
      (\<exists>a. active_name s (files w) = Some a \<and>
        (\<forall>c m t sy. map_of (files w) (slot_path s (other a)) = Some (EFile c m t sy) \<longrightarrow>
           sha256_hex H (bytes_of c) = h))
    else device s (files w') = device s (files w)"
proof -
  obtain r1 w1 where 1: "assertInactiveHash H s h op w = (r1, w1)" by fastforce
  have f: "files w1 = files w" using assertInactiveHash_result(1) [OF 1] by (simp add: same_disk_def)
  show ?thesis
  proof (cases r1)
    case None
    with assms(1) 1 have "flip m s w1 = (r, w')" by simp
    from flip_result(1) [OF this assms(2)] assertInactiveHash_result(2) [OF 1 None] f show ?thesis
      by auto
  next
    case Some
    with assms(1) 1 f show ?thesis by auto
  qed
qed

section \<open>Properties\<close>

text \<open>A device for the witnesses: slot A is active, slot B holds another binary.\<close>

definition sample_slots :: slot_manager where
  "sample_slots = \<lparr>slotsDir = ''/o/s'', activeSymlink = ''/o/c''\<rparr>"

definition sample_device :: os where
  "sample_device = \<lparr>files = [(''/o'', EDir), (''/o/s'', EDir), (''/o/s/A'', EFile (Raw ''a'') 493 1 True),
       (''/o/s/B'', EFile (Raw ''b'') 493 1 True), (''/o/c'', ELink ''/o/s/A'')],
     undo = [], faults = [], clock = 100, rand = [1], hist = []\<rparr>"

lemma sample_layout: "layout sample_slots"
  by code_simp



text \<open>C28. \<open>WriteToInactive\<close> never touches the active slot or the link: without an error the inactive
  slot holds the whole stream, synced, with mode 0755; with an error the device is unchanged. At every
  moment a loss of power leaves the inactive slot with its old content or with the whole new one.\<close>

theorem write_inactive_refines:
  assumes "layout s" "active_name s (files w) = Some a"
  shows "case WriteToInactive s (cs, rerr) w of (r, w') \<Rightarrow>
    device s (files w') =
      (if r = None then abs_write (EFile (joined cs) 493 (clock w) True) (device s (files w))
       else device s (files w)) \<and>
    writes_at (slot_path s (other a)) {Some (EFile (joined cs) 493 (clock w) True)} w w'"
proof -
  obtain r w' where eq: "WriteToInactive s (cs, rerr) w = (r, w')" by fastforce
  from WriteToInactive_result [OF eq assms(1)] assms(2) eq show ?thesis by simp
qed

theorem write_inactive_refines_witness:
  "(case WriteToInactive sample_slots ([Raw ''ne'', Raw ''w''], None) sample_device of (r, w') \<Rightarrow>
     r = None \<and> device sample_slots (files w') =
       (Some ''A'', Some (EFile (Raw ''a'') 493 1 True), Some (EFile (Raw ''new'') 493 100 True)))"
proof -
  have a: "active_name sample_slots (files sample_device) = Some ''A''"
    and r: "fst (WriteToInactive sample_slots ([Raw ''ne'', Raw ''w''], None) sample_device) = None"
    and j: "abs_write (EFile (joined [Raw ''ne'', Raw ''w'']) 493 (clock sample_device) True)
              (device sample_slots (files sample_device)) =
            (Some ''A'', Some (EFile (Raw ''a'') 493 1 True), Some (EFile (Raw ''new'') 493 100 True))"
    by code_simp+
  show ?thesis
    using write_inactive_refines [OF sample_layout a, of "[Raw ''ne'', Raw ''w'']" None] r j
    by (simp add: split_beta)
qed

text \<open>C29. \<open>SwapTo\<close> is a swap that asserts where the device ends up: it returns no error only if the
  slot it activated hashes to the expected digest, and otherwise the device is as before.\<close>

theorem SwapTo_checked:
  assumes "layout s"
  shows "case SwapTo H s h w of (r, w') \<Rightarrow>
    if r = None
    then device s (files w') = abs_swap (device s (files w)) \<and>
      (\<exists>a. active_name s (files w) = Some a \<and>
        (\<forall>c m t sy. map_of (files w) (slot_path s (other a)) = Some (EFile c m t sy) \<longrightarrow>
           sha256_hex H (bytes_of c) = h))
    else device s (files w') = device s (files w)"
proof -
  obtain r w' where eq: "SwapTo H s h w = (r, w')" by fastforce
  have "(case assertInactiveHash H s h ''swap'' w of (Some e, w) \<Rightarrow> (Some e, w)
         | (None, w) \<Rightarrow> flip ''swap symlink'' s w) = (r, w')"
    using eq unfolding SwapTo_def flips .
  from checked_flip [OF this assms] eq show ?thesis by simp
qed

theorem SwapTo_checked_witness:
  "fst (SwapTo id sample_slots ''62'' sample_device) = None \<and>
   fst (SwapTo id sample_slots ''61'' sample_device) \<noteq> None \<and>
   device sample_slots (files (snd (SwapTo id sample_slots ''62'' sample_device))) =
     abs_swap (device sample_slots (files sample_device))"
proof -
  have r: "fst (SwapTo id sample_slots ''62'' sample_device) = None"
    and q: "fst (SwapTo id sample_slots ''61'' sample_device) \<noteq> None" by code_simp+
  show ?thesis
    using SwapTo_checked [OF sample_layout, where H = id and h = "''62''" and w = sample_device] r q
    by (simp add: split_beta)
qed

text \<open>
  A slots directory given as a relative path, with the link in another directory: the swap reports
  success and leaves a link that does not resolve, because the link's target is written relative to the
  working directory and read relative to the link's own directory.
\<close>

lemma Swap_relative_slots_dir_dangles:
  "let s = \<lparr>slotsDir = ''s'', activeSymlink = ''b/c''\<rparr>;
       w = \<lparr>files = [(''.'', EDir), (''s'', EDir), (''b'', EDir), (''s/A'', EFile (Raw ''a'') 493 1 True),
             (''s/B'', EFile (Raw ''b'') 493 1 True), (''b/c'', ELink ''../s/A'')],
            undo = [], faults = [], clock = 100, rand = [1], hist = []\<rparr> :: os
   in fst (NewSlotManager ''s'' ''b/c'' w) = Inr s \<and>
      (case Swap s w of (r, w') \<Rightarrow>
         r = None \<and> map_of (files w') ''b/c'' = Some (ELink ''s/B'') \<and>
         fst (hashFile id ''b/c'' w') = Inl ENOENT)"
  by code_simp

end
