(* ===== verification/Crypto.thy ===== *)
theory Crypto
  imports Slots Policy Protocol
begin

text \<open>
  The packages \<open>crypto\<close>, \<open>delta\<close> and \<open>compression\<close>: thin layers over libraries that are not in the
  repository (Ed25519, SHA-256, bsdiff, zstd, semver). The libraries are the record \<open>lib\<close>; what the
  program relies on is the predicate \<open>lib_ok\<close>: signing then verifying, compressing then decompressing,
  and diffing then patching give back what went in. Nothing is assumed of a forged signature or of two
  inputs with one digest.
\<close>

section \<open>The libraries\<close>

record lib =
  lib_sha :: hashfn
  lib_Verify :: "bytes \<Rightarrow> bytes \<Rightarrow> bytes \<Rightarrow> bool"
  lib_Sign :: "bytes \<Rightarrow> bytes \<Rightarrow> bytes"
  lib_Public :: "bytes \<Rightarrow> bytes"
  lib_zstd_enc :: "bytes \<Rightarrow> err + bytes"
  lib_zstd_dec :: "bytes \<Rightarrow> err + bytes"
  lib_bsdiff :: "bytes \<Rightarrow> bytes \<Rightarrow> err + bytes"
  lib_bspatch :: "bytes \<Rightarrow> bytes \<Rightarrow> err + bytes"
  lib_semver :: semver

section \<open>compression\<close>

definition CompressBytes :: "lib \<Rightarrow> bytes \<Rightarrow> err + bytes" where
  "CompressBytes L b = (case lib_zstd_enc L b of Inl e \<Rightarrow> Inl (Wrap ''zstd compress'' e) | Inr z \<Rightarrow> Inr z)"

definition DecompressBytes :: "lib \<Rightarrow> bytes \<Rightarrow> err + bytes" where
  "DecompressBytes L b = (case lib_zstd_dec L b of Inl e \<Rightarrow> Inl (Wrap ''zstd decompress'' e) | Inr z \<Rightarrow> Inr z)"

section \<open>delta\<close>

definition delta_Generate :: "lib \<Rightarrow> bytes \<Rightarrow> bytes \<Rightarrow> err + bytes" where
  "delta_Generate L oldBin newBin =
     (case lib_bsdiff L oldBin newBin of
        Inl e \<Rightarrow> Inl (Wrap ''bsdiff'' e)
      | Inr patch \<Rightarrow>
          (case CompressBytes L patch of
             Inl e \<Rightarrow> Inl (Wrap ''compress delta'' e)
           | Inr compressed \<Rightarrow> Inr compressed))"

definition delta_Apply :: "lib \<Rightarrow> bytes \<Rightarrow> bytes \<Rightarrow> err + bytes" where
  "delta_Apply L oldBin compressedPatch =
     (case DecompressBytes L compressedPatch of
        Inl e \<Rightarrow> Inl (Wrap ''decompress delta'' e)
      | Inr patch \<Rightarrow>
          (case lib_bspatch L oldBin patch of
             Inl e \<Rightarrow> Inl (Wrap ''bspatch'' e)
           | Inr newBin \<Rightarrow> Inr newBin))"

section \<open>crypto\<close>

definition PublicKeySize :: nat where "PublicKeySize = 32"
definition PrivateKeySize :: nat where "PrivateKeySize = 64"

definition ErrInvalidSignature :: err where
  "ErrInvalidSignature = Sentinel ''invalid signature''"

definition crypto_Sign :: "lib \<Rightarrow> bytes \<Rightarrow> bytes \<Rightarrow> err + bytes" where
  "crypto_Sign L priv msg =
     (if length priv \<noteq> PrivateKeySize then Inl (Msg ''invalid private key size'')
      else Inr (lib_Sign L priv msg))"

definition crypto_Verify :: "lib \<Rightarrow> bytes \<Rightarrow> bytes \<Rightarrow> bytes \<Rightarrow> err option" where
  "crypto_Verify L pub msg sig =
     (if length pub \<noteq> PublicKeySize then Some (Msg ''invalid public key size'')
      else if \<not> lib_Verify L pub msg sig then Some ErrInvalidSignature
      else None)"

definition sha256HexBytes :: "lib \<Rightarrow> bytes \<Rightarrow> string" where
  "sha256HexBytes L b = hex_encode (lib_sha L b)"

section \<open>What the program relies on\<close>

definition lib_ok :: "lib \<Rightarrow> bool" where
  "lib_ok L \<longleftrightarrow>
     (\<forall>b. length (lib_sha L b) = 32) \<and>
     (\<forall>k m. length k = PrivateKeySize \<longrightarrow> lib_Verify L (lib_Public L k) m (lib_Sign L k m)) \<and>
     (\<forall>k. length k = PrivateKeySize \<longrightarrow> length (lib_Public L k) = PublicKeySize) \<and>
     (\<forall>b z. lib_zstd_enc L b = Inr z \<longrightarrow> lib_zstd_dec L z = Inr b) \<and>
     (\<forall>a b p. lib_bsdiff L a b = Inr p \<longrightarrow> lib_bspatch L a p = Inr b)"

lemma sign_verify:
  "lib_ok L \<Longrightarrow> crypto_Sign L priv msg = Inr sig \<Longrightarrow> crypto_Verify L (lib_Public L priv) msg sig = None"
  by (auto simp: lib_ok_def crypto_Sign_def crypto_Verify_def split: if_splits)

lemma compress_decompress: "lib_ok L \<Longrightarrow> CompressBytes L b = Inr z \<Longrightarrow> DecompressBytes L z = Inr b"
  by (auto simp: lib_ok_def CompressBytes_def DecompressBytes_def split: sum.splits)

lemma generate_apply: "lib_ok L \<Longrightarrow> delta_Generate L a b = Inr d \<Longrightarrow> delta_Apply L a d = Inr b"
  using compress_decompress [of L] unfolding lib_ok_def
  by (auto simp: delta_Generate_def delta_Apply_def split: sum.splits)

lemma sha256_hex_lib: "sha256_hex (lib_sha L) b = sha256HexBytes L b"
  by (simp add: sha256_hex_def sha256HexBytes_def)

text \<open>A library for the witnesses, with the laws and small enough to compute with.\<close>

definition pad32 :: "bytes \<Rightarrow> bytes" where
  "pad32 b = take 32 (b @ replicate 32 (CHR 0x00))"

definition sample_lib :: lib where
  "sample_lib =
     \<lparr>lib_sha = pad32, lib_Verify = (\<lambda>p m s. s = take 1 m @ take 1 p), lib_Sign = (\<lambda>k m. take 1 m @ take 1 k),
      lib_Public = take 32, lib_zstd_enc = (\<lambda>b. Inr (CHR ''z'' # b)),
      lib_zstd_dec = (\<lambda>b. case b of [] \<Rightarrow> Inl EINVAL | x # r \<Rightarrow> if x = CHR ''z'' then Inr r else Inl EINVAL),
      lib_bsdiff = (\<lambda>a b. Inr b), lib_bspatch = (\<lambda>a p. Inr p), lib_semver = sample_semver\<rparr>"

lemma sample_lib_ok: "lib_ok sample_lib"
  by (auto simp: lib_ok_def sample_lib_def pad32_def PrivateKeySize_def PublicKeySize_def)

section \<open>Properties\<close>

text \<open>The pipelines are inverse to each other: a patch made by \<open>Generate\<close> and applied to the
  binary it was made from gives the target, and a signature made by \<open>Sign\<close> passes \<open>Verify\<close> under the
  key's public half.\<close>

theorem pipelines_inverse:
  assumes "lib_ok L"
  shows "(delta_Generate L a b = Inr d \<longrightarrow> delta_Apply L a d = Inr b) \<and>
    (crypto_Sign L priv msg = Inr sig \<longrightarrow> crypto_Verify L (lib_Public L priv) msg sig = None)"
  using generate_apply [OF assms] sign_verify [OF assms] by blast

theorem pipelines_inverse_witness:
  "delta_Generate sample_lib ''old'' ''new'' = Inr ''znew'' \<and> delta_Apply sample_lib ''old'' ''znew'' = Inr ''new'' \<and>
   crypto_Verify sample_lib (replicate 32 (CHR ''k'')) ''m'' ''mk'' = None"
proof -
  have g: "delta_Generate sample_lib ''old'' ''new'' = Inr ''znew''" by code_simp
  have s: "crypto_Sign sample_lib (replicate 64 (CHR ''k'')) ''m'' = Inr ''mk''"
    "lib_Public sample_lib (replicate 64 (CHR ''k'')) = replicate 32 (CHR ''k'')" by code_simp+
  show ?thesis
    using pipelines_inverse [OF sample_lib_ok, of "''old''" "''new''" "''znew''" "replicate 64 (CHR ''k'')" "''m''"] g s
    by simp
qed

end
