(* ===== verification/Codec.thy ===== *)
theory Codec
  imports Protocol GoJson
begin

text \<open>
  The JSON form of the wire messages, as the struct tags of \<open>pkg/protocol/messages.go\<close> give it, and the
  interface of a message codec. JSON is modelled; CBOR is the package \<open>fxamacker/cbor\<close>, which is not in
  the repository, so a CBOR codec is a parameter of the same shape. A codec is lawful when it reads back
  what it wrote; the JSON codec is shown to be.
\<close>

section \<open>JSON\<close>

definition get_uint :: "(string \<times> json) list \<Rightarrow> string \<Rightarrow> nat option" where
  "get_uint fs name =
     (case jfield fs name of
        None \<Rightarrow> Some 0 | Some JNull \<Rightarrow> Some 0
      | Some (JInt i) \<Rightarrow> if 0 \<le> i \<and> i < 2 ^ 64 then Some (nat i) else None
      | _ \<Rightarrow> None)"

definition get_struct :: "(string \<times> json) list \<Rightarrow> string \<Rightarrow> (string \<times> json) list option" where
  "get_struct fs name = (case jfield fs name of None \<Rightarrow> Some [] | Some j \<Rightarrow> struct_fields j)"

definition hw_to_json :: "hw_info \<Rightarrow> json" where
  "hw_to_json h =
     JObj [(''arch'', JStr (hwArch h)), (''os'', JStr (hwOS h)),
           (''free_ram'', JInt (int (hwFreeRAM h))), (''free_disk'', JInt (int (hwFreeDisk h)))]"

definition hw_of_fields :: "(string \<times> json) list \<Rightarrow> hw_info option" where
  "hw_of_fields fs =
     (case (get_str fs ''arch'', get_str fs ''os'', get_uint fs ''free_ram'', get_uint fs ''free_disk'') of
        (Some a, Some s, Some r, Some d) \<Rightarrow> Some \<lparr>hwArch = a, hwOS = s, hwFreeRAM = r, hwFreeDisk = d\<rparr>
      | _ \<Rightarrow> None)"

definition heartbeat_to_json :: "heartbeat \<Rightarrow> json" where
  "heartbeat_to_json h =
     JObj ([(''device_id'', JStr (hbDeviceID h)), (''version_hash'', JStr (hbVersionHash h))] @
           [(''hw_info'', hw_to_json (hbHWInfo h)), (''timestamp'', JInt (hbTimestamp h))] @
           omit_str ''version'' (hbVersion h) @
           omit_str ''artifact'' (hbArtifact h))"

definition heartbeat_of_json :: "json \<Rightarrow> heartbeat option" where
  "heartbeat_of_json j =
     (case struct_fields j of
        None \<Rightarrow> None
      | Some fs \<Rightarrow>
          (case (get_str fs ''device_id'', get_str fs ''version_hash'', get_struct fs ''hw_info'',
                 get_int fs ''timestamp'', get_str fs ''version'', get_str fs ''artifact'') of
             (Some d, Some vh, Some hw, Some t, Some v, Some a) \<Rightarrow>
               map_option (\<lambda>h. \<lparr>hbDeviceID = d, hbVersionHash = vh, hbHWInfo = h, hbTimestamp = t,
                                hbVersion = v, hbArtifact = a\<rparr>) (hw_of_fields hw)
           | _ \<Rightarrow> None))"

definition omit_bool_never :: "string \<Rightarrow> bool \<Rightarrow> (string \<times> json) list" where
  "omit_bool_never name b = [(name, JBool b)]"

definition manifest_to_json :: "manifest_response \<Rightarrow> json" where
  "manifest_to_json m =
     JObj (omit_bool_never ''update_available'' (UpdateAvailable m) @
           omit_str ''target_version'' (TargetVersion m) @
           omit_str ''target_hash'' (TargetHash m) @
           omit_int ''delta_size'' (DeltaSize m) @
           omit_str ''delta_hash'' (DeltaHash m) @
           omit_int ''chunk_size'' (ChunkSize m) @
           omit_int ''total_chunks'' (TotalChunks m) @
           omit_str ''signature'' (Signature m) @
           omit_str ''delta_endpoint'' (DeltaEndpoint m) @
           omit_int ''retry_after'' (RetryAfter m) @
           omit_str ''binary_endpoint'' (BinaryEndpoint m) @
           omit_int ''target_size'' (TargetSize m) @
           omit_str ''artifact'' (respArtifact m))"

definition manifest_of_json :: "json \<Rightarrow> manifest_response option" where
  "manifest_of_json j =
     (case struct_fields j of
        None \<Rightarrow> None
      | Some fs \<Rightarrow>
          (case (get_bool fs ''update_available'', get_str fs ''target_version'', get_str fs ''target_hash'',
                 get_int fs ''delta_size'', get_str fs ''delta_hash'', get_int fs ''chunk_size'') of
             (Some ua, Some tv, Some th, Some ds, Some dh, Some cs) \<Rightarrow>
               (case (get_int fs ''total_chunks'', get_str fs ''signature'', get_str fs ''delta_endpoint'',
                      get_int fs ''retry_after'', get_str fs ''binary_endpoint'', get_int fs ''target_size'',
                      get_str fs ''artifact'') of
                  (Some tc, Some sg, Some de, Some ra, Some be, Some ts, Some a) \<Rightarrow>
                    Some \<lparr>UpdateAvailable = ua, TargetVersion = tv, TargetHash = th, DeltaSize = ds,
                          DeltaHash = dh, ChunkSize = cs, TotalChunks = tc, Signature = sg,
                          DeltaEndpoint = de, RetryAfter = ra, BinaryEndpoint = be, TargetSize = ts,
                          respArtifact = a\<rparr>
                | _ \<Rightarrow> None)
           | _ \<Rightarrow> None))"

definition report_to_json :: "update_report \<Rightarrow> json" where
  "report_to_json r =
     JObj ([(''device_id'', JStr (repDeviceID r)), (''previous_hash'', JStr (repPreviousHash r)),
            (''new_hash'', JStr (repNewHash r)), (''success'', JBool (repSuccess r))] @
           omit_str ''rollback_reason'' (repRollbackReason r) @
           [(''timestamp'', JInt (repTimestamp r))])"

definition report_of_json :: "json \<Rightarrow> update_report option" where
  "report_of_json j =
     (case struct_fields j of
        None \<Rightarrow> None
      | Some fs \<Rightarrow>
          (case (get_str fs ''device_id'', get_str fs ''previous_hash'', get_str fs ''new_hash'',
                 get_bool fs ''success'', get_str fs ''rollback_reason'', get_int fs ''timestamp'') of
             (Some d, Some p, Some n, Some s, Some rr, Some t) \<Rightarrow>
               Some \<lparr>repDeviceID = d, repPreviousHash = p, repNewHash = n, repSuccess = s,
                     repRollbackReason = rr, repTimestamp = t\<rparr>
           | _ \<Rightarrow> None))"

section \<open>Codecs\<close>

record codec =
  enc_heartbeat :: "heartbeat \<Rightarrow> content"
  dec_heartbeat :: "content \<Rightarrow> heartbeat option"
  enc_manifest :: "manifest_response \<Rightarrow> content"
  dec_manifest :: "content \<Rightarrow> manifest_response option"
  enc_report :: "update_report \<Rightarrow> content"
  dec_report :: "content \<Rightarrow> update_report option"

definition json_codec :: codec where
  "json_codec =
     \<lparr>enc_heartbeat = Json \<circ> heartbeat_to_json,
      dec_heartbeat = (\<lambda>c. Option.bind (parse_json c) heartbeat_of_json),
      enc_manifest = Json \<circ> manifest_to_json,
      dec_manifest = (\<lambda>c. Option.bind (parse_json c) manifest_of_json),
      enc_report = Json \<circ> report_to_json,
      dec_report = (\<lambda>c. Option.bind (parse_json c) report_of_json)\<rparr>"

text \<open>Messages whose numbers fit their Go types.\<close>

definition heartbeat_fits :: "heartbeat \<Rightarrow> bool" where
  "heartbeat_fits h \<longleftrightarrow>
     int64 (hbTimestamp h) \<and> hwFreeRAM (hbHWInfo h) < 2 ^ 64 \<and> hwFreeDisk (hbHWInfo h) < 2 ^ 64"

definition manifest_fits :: "manifest_response \<Rightarrow> bool" where
  "manifest_fits m \<longleftrightarrow> int64 (DeltaSize m) \<and> int64 (ChunkSize m) \<and> int64 (TotalChunks m) \<and>
     int64 (RetryAfter m) \<and> int64 (TargetSize m)"

definition report_fits :: "update_report \<Rightarrow> bool" where
  "report_fits r \<longleftrightarrow> int64 (repTimestamp r)"

text \<open>What the rest of the program needs of a codec.\<close>

locale lawful_codec =
  fixes cd :: codec
  assumes heartbeat_back: "heartbeat_fits h \<Longrightarrow> dec_heartbeat cd (enc_heartbeat cd h) = Some h"
    and manifest_back: "manifest_fits m \<Longrightarrow> dec_manifest cd (enc_manifest cd m) = Some m"
    and report_back: "report_fits r \<Longrightarrow> dec_report cd (enc_report cd r) = Some r"
begin

text \<open>Distinct messages have distinct encodings.\<close>

lemma enc_manifest_inj:
  "manifest_fits m \<Longrightarrow> manifest_fits n \<Longrightarrow> enc_manifest cd m = enc_manifest cd n \<Longrightarrow> m = n"
  by (metis manifest_back option.inject)

lemma enc_heartbeat_inj:
  "heartbeat_fits h \<Longrightarrow> heartbeat_fits k \<Longrightarrow> enc_heartbeat cd h = enc_heartbeat cd k \<Longrightarrow> h = k"
  by (metis heartbeat_back option.inject)

end

section \<open>The JSON codec is lawful\<close>

lemma jfield_omit_str: "jfield (omit_str n s) k = (if s \<noteq> '''' \<and> to_lower n = k then Some (JStr s) else None)"
  by (simp add: omit_str_def jfield_Cons)

lemma jfield_omit_int: "jfield (omit_int n i) k = (if i \<noteq> 0 \<and> to_lower n = k then Some (JInt i) else None)"
  by (simp add: omit_int_def jfield_Cons)

lemma jfield_bool: "jfield (omit_bool_never n b) k = (if to_lower n = k then Some (JBool b) else None)"
  by (simp add: omit_bool_never_def jfield_Cons)

lemmas jfields = jfield_append jfield_Cons jfield_omit_str jfield_omit_int jfield_bool

lemma lower_tags:
  "to_lower ''arch'' = ''arch''" "to_lower ''os'' = ''os''" "to_lower ''free_ram'' = ''free_ram''"
  "to_lower ''free_disk'' = ''free_disk''" "to_lower ''device_id'' = ''device_id''"
  "to_lower ''version_hash'' = ''version_hash''" "to_lower ''hw_info'' = ''hw_info''"
  "to_lower ''timestamp'' = ''timestamp''" "to_lower ''version'' = ''version''"
  "to_lower ''artifact'' = ''artifact''" "to_lower ''update_available'' = ''update_available''"
  "to_lower ''target_version'' = ''target_version''" "to_lower ''target_hash'' = ''target_hash''"
  "to_lower ''delta_size'' = ''delta_size''" "to_lower ''delta_hash'' = ''delta_hash''"
  "to_lower ''chunk_size'' = ''chunk_size''" "to_lower ''total_chunks'' = ''total_chunks''"
  "to_lower ''signature'' = ''signature''" "to_lower ''delta_endpoint'' = ''delta_endpoint''"
  "to_lower ''retry_after'' = ''retry_after''" "to_lower ''binary_endpoint'' = ''binary_endpoint''"
  "to_lower ''target_size'' = ''target_size''" "to_lower ''previous_hash'' = ''previous_hash''"
  "to_lower ''new_hash'' = ''new_hash''" "to_lower ''success'' = ''success''"
  "to_lower ''rollback_reason'' = ''rollback_reason''"
  by code_simp+

lemma hw_back: "hwFreeRAM h < 2 ^ 64 \<Longrightarrow> hwFreeDisk h < 2 ^ 64 \<Longrightarrow> Option.bind (struct_fields (hw_to_json h)) hw_of_fields = Some h"
  by (simp add: hw_to_json_def hw_of_fields_def get_str_def get_uint_def jfields lower_tags)

lemma heartbeat_json_back: "heartbeat_fits h \<Longrightarrow> heartbeat_of_json (heartbeat_to_json h) = Some h"
  using hw_back [of "hbHWInfo h"]
  by (simp add: heartbeat_fits_def heartbeat_to_json_def heartbeat_of_json_def get_str_def get_int_def
      get_struct_def jfields lower_tags hw_to_json_def)

lemma report_json_back: "report_fits r \<Longrightarrow> report_of_json (report_to_json r) = Some r"
  by (simp add: report_fits_def report_to_json_def report_of_json_def get_str_def get_int_def
      get_bool_def jfields lower_tags)

text \<open>Reading one field of a long document looks at one segment only.\<close>

lemma jfield_other:
  "to_lower n \<noteq> k \<Longrightarrow> jfield (omit_str n s) k = None"
  "to_lower n \<noteq> k \<Longrightarrow> jfield (omit_int n i) k = None"
  "to_lower n \<noteq> k \<Longrightarrow> jfield (omit_bool_never n b) k = None"
  by (simp_all add: jfields)

lemma jfield_append_None: "jfield (fs @ gs) k = None \<longleftrightarrow> jfield fs k = None \<and> jfield gs k = None"
  by (simp add: jfield_append split: option.split)

lemma get_append:
  "jfield fs k = None \<Longrightarrow> get_str (fs @ gs) k = get_str gs k"
  "jfield gs k = None \<Longrightarrow> get_str (fs @ gs) k = get_str fs k"
  "jfield fs k = None \<Longrightarrow> get_int (fs @ gs) k = get_int gs k"
  "jfield gs k = None \<Longrightarrow> get_int (fs @ gs) k = get_int fs k"
  "jfield gs k = None \<Longrightarrow> get_bool (fs @ gs) k = get_bool fs k"
  by (simp_all add: get_str_def get_int_def get_bool_def jfield_append split: option.split)

lemma get_same:
  "to_lower n = k \<Longrightarrow> get_str (omit_str n s) k = Some s"
  "to_lower n = k \<Longrightarrow> int64 i \<Longrightarrow> get_int (omit_int n i) k = Some i"
  "to_lower n = k \<Longrightarrow> get_bool (omit_bool_never n b) k = Some b"
  by (simp_all add: get_str_def get_int_def get_bool_def jfields)

lemma manifest_json_back: "manifest_fits m \<Longrightarrow> manifest_of_json (manifest_to_json m) = Some m"
  by (simp add: manifest_fits_def manifest_to_json_def manifest_of_json_def get_append get_same
      jfield_other jfield_append_None lower_tags)

interpretation json: lawful_codec json_codec
  by unfold_locales
    (simp_all add: json_codec_def heartbeat_json_back manifest_json_back report_json_back)

section \<open>Properties\<close>

text \<open>A manifest that fits its Go types survives the JSON wire: decoding what was encoded gives it
  back, with every optional field that was left out read as its zero value.\<close>

theorem manifest_json_roundtrip:
  assumes "manifest_fits m"
  shows "dec_manifest json_codec (enc_manifest json_codec m) = Some m"
  by (rule json.manifest_back [OF assms])

definition sample_manifest :: manifest_response where
  "sample_manifest = zero_response\<lparr>UpdateAvailable := True, TargetHash := ''ab'', RetryAfter := 30\<rparr>"

theorem manifest_json_roundtrip_witness:
  "dec_manifest json_codec (enc_manifest json_codec sample_manifest) = Some sample_manifest"
proof -
  have "manifest_fits sample_manifest" by code_simp
  then show ?thesis by (rule manifest_json_roundtrip)
qed

end
