(* ===== verification/Net.thy ===== *)
theory Net
  imports Os Codec
begin

text \<open>
  The network as the agent reaches it: \<open>net/url\<close>, an HTTP client, and a CoAP connection. What the
  network answers is a parameter: each call is a function of the outside world (the rest of the state)
  and yields an answer, the time it took, and the new outside world. So no call touches the disk.
\<close>

section \<open>net/url\<close>

record url =
  u_Scheme :: string
  u_Host :: string
  u_Path :: string

text \<open>
  \<open>url.Parse\<close>: the fragment and the query are cut off, the scheme is what stands before the first
  colon if it is a legal one, and an authority follows two slashes. Percent escapes are kept as they
  are written.
\<close>

definition is_alpha :: "char \<Rightarrow> bool" where
  "is_alpha c \<longleftrightarrow> is_lower c \<or> is_upper c"

definition before :: "char \<Rightarrow> string \<Rightarrow> string" where
  "before c s = takeWhile (\<lambda>x. x \<noteq> c) s"

fun scan_scheme :: "bool \<Rightarrow> string \<Rightarrow> string \<Rightarrow> (string \<times> string) option" where
  "scan_scheme at_start acc [] = Some ('''', acc)"
| "scan_scheme at_start acc (c # s) =
     (if is_alpha c then scan_scheme False (acc @ [c]) s
      else if is_digit c \<or> c = CHR ''+'' \<or> c = CHR ''-'' \<or> c = CHR ''.'' then
        (if at_start then Some ('''', acc @ c # s) else scan_scheme False (acc @ [c]) s)
      else if c = CHR '':'' then (if at_start then None else Some (acc, s))
      else Some ('''', acc @ c # s))"

definition after_at :: "string \<Rightarrow> string" where
  "after_at s = last (split_on CHR ''@'' s)"

definition valid_port :: "string \<Rightarrow> bool" where
  "valid_port h = list_all is_digit (if CHR '':'' \<in> set h then last (split_on CHR '':'' h) else '''')"

definition url_Parse :: "string \<Rightarrow> err + url" where
  "url_Parse raw0 =
     (let raw = before (CHR 0x23) raw0
      in if list_ex (\<lambda>c. byte_val c < 32 \<or> byte_val c = 127) raw
         then Inl (Msg ''net/url: invalid control character in URL'')
         else
           (case scan_scheme True '''' raw of
              None \<Rightarrow> Inl (Msg ''missing protocol scheme'')
            | Some (scheme0, rest0) \<Rightarrow>
                (let scheme = to_lower scheme0; rest = before CHR ''?'' rest0
                 in if \<not> has_prefix rest ''/'' then
                      (if scheme \<noteq> '''' then Inr \<lparr>u_Scheme = scheme, u_Host = '''', u_Path = ''''\<rparr>
                       else if CHR '':'' \<in> set (before CHR ''/'' rest)
                       then Inl (Msg ''first path segment in URL cannot contain colon'')
                       else Inr \<lparr>u_Scheme = '''', u_Host = '''', u_Path = rest\<rparr>)
                    else if (scheme \<noteq> '''' \<or> \<not> has_prefix rest ''///'') \<and> has_prefix rest ''//'' then
                      (let auth = before CHR ''/'' (drop 2 rest);
                           host = after_at auth
                       in if \<not> valid_port host then Inl (Msg ''invalid port after host'')
                          else Inr \<lparr>u_Scheme = scheme, u_Host = host, u_Path = drop (length auth) (drop 2 rest)\<rparr>)
                    else Inr \<lparr>u_Scheme = scheme, u_Host = '''', u_Path = rest\<rparr>)))"

definition url_IsAbs :: "url \<Rightarrow> bool" where
  "url_IsAbs u \<longleftrightarrow> u_Scheme u \<noteq> ''''"

definition url_Port :: "url \<Rightarrow> string" where
  "url_Port u = (case split_on CHR '':'' (u_Host u) of [h] \<Rightarrow> '''' | ps \<Rightarrow> last ps)"

definition url_Hostname :: "url \<Rightarrow> string" where
  "url_Hostname u = (case split_on CHR '':'' (u_Host u) of [h] \<Rightarrow> h | ps \<Rightarrow> join_with CHR '':'' (butlast ps))"

text \<open>\<open>strings.TrimRight(s, "/")\<close>.\<close>

definition trim_right_slash :: "string \<Rightarrow> string" where
  "trim_right_slash s = rev (dropWhile (\<lambda>c. c = CHR ''/'') (rev s))"

section \<open>Calls over the network\<close>

record http_req =
  rq_Method :: string
  rq_URL :: string
  rq_Range :: "int option"
  rq_ContentType :: string
  rq_Body :: content

record http_resp =
  rs_Status :: nat
  rs_Body :: "content list \<times> err option"

datatype coap_code = Content | Changed | OtherCode nat

record coap_resp =
  cr_Code :: coap_code
  cr_Body :: "err + content"

text \<open>The options \<open>go-coap\<close> is dialled with.\<close>

datatype udp_option =
    WithContext ctx
  | WithDialer int
  | WithTransmission nat int "32 word"
  | WithBlockwise nat int
  | WithKeepAlive nat int

type_synonym ('z, 'a) remote = "'z \<Rightarrow> 'a \<times> nat \<times> 'z"

record 'z net =
  http_Do :: "ctx \<Rightarrow> http_req \<Rightarrow> ('z, err + http_resp) remote"
  udp_Dial :: "string \<Rightarrow> udp_option list \<Rightarrow> ('z, err option) remote"
  coap_Get :: "ctx \<Rightarrow> string \<Rightarrow> string \<Rightarrow> ('z, err + coap_resp) remote"
  coap_Post :: "ctx \<Rightarrow> string \<Rightarrow> string \<Rightarrow> content \<Rightarrow> ('z, err + coap_resp) remote"

definition remote_call :: "('z, 'a) remote \<Rightarrow> 'z os_scheme \<Rightarrow> 'a \<times> 'z os_scheme" where
  "remote_call f w =
     (case f (os.more w) of (a, dt, z) \<Rightarrow> (a, os.more_update (\<lambda>_. z) (w\<lparr>clock := clock w + int dt\<rparr>)))"

lemma remote_call_disk: "remote_call f w = (a, w') \<Longrightarrow> same_disk w w' \<and> clock w \<le> clock w' \<and> faults w' = faults w"
  by (auto simp: remote_call_def same_disk_def split: prod.splits)

section \<open>coap_dial.go\<close>

record CoAPOptions =
  DialTimeout :: int
  ACKTimeout :: int
  MaxRetransmits :: int
  BlockSize :: int
  Keepalive :: int

definition transmissionNStart :: nat where "transmissionNStart = 1"

definition blockSZX :: "int \<Rightarrow> nat option" where
  "blockSZX sz =
     (if sz = 16 then Some 0 else if sz = 32 then Some 1 else if sz = 64 then Some 2
      else if sz = 128 then Some 3 else if sz = 256 then Some 4 else if sz = 512 then Some 5
      else if sz = 1024 then Some 6 else None)"

definition dialOptions :: "CoAPOptions \<Rightarrow> ctx \<Rightarrow> udp_option list" where
  "dialOptions o' c =
     (let opts = [WithContext c];
          opts = (if DialTimeout o' > 0 then opts @ [WithDialer (DialTimeout o')] else opts);
          opts = (if ACKTimeout o' > 0 \<or> MaxRetransmits o' > 0 then
                    (let ack = (if ACKTimeout o' \<le> 0 then 2 * Second else ACKTimeout o');
                         retransmits = (if MaxRetransmits o' \<le> 0 then 4 else MaxRetransmits o')
                     in opts @ [WithTransmission transmissionNStart ack (word_of_int retransmits)])
                  else opts);
          opts = (case blockSZX (BlockSize o') of
                    Some szx \<Rightarrow> opts @ [WithBlockwise szx (10 * Minute)]
                  | None \<Rightarrow> opts);
          opts = (if Keepalive o' > 0 then opts @ [WithKeepAlive 2 (Keepalive o')] else opts)
      in opts)"

definition dialCoAP :: "'z net \<Rightarrow> ctx \<Rightarrow> string \<Rightarrow> CoAPOptions \<Rightarrow> 'z os_scheme \<Rightarrow> err option \<times> 'z os_scheme" where
  "dialCoAP net c host o' w =
     (case remote_call (udp_Dial net host (dialOptions o' c)) w of
        (Some e, w) \<Rightarrow> (Some (Wrap ''coap dial'' e), w)
      | (None, w) \<Rightarrow> (None, w))"

section \<open>Transports\<close>

definition ErrResumeUnsupported :: err where
  "ErrResumeUnsupported = Sentinel ''transport does not support resume''"

type_synonym 'z fetch = "ctx \<Rightarrow> string \<Rightarrow> int \<Rightarrow> 'z os_scheme \<Rightarrow> (err + (content list \<times> err option) \<times> int) \<times> 'z os_scheme"

record 'z transport =
  t_Name :: string
  t_FetchRange :: "'z fetch"

definition HTTP_FetchRange :: "'z net \<Rightarrow> 'z fetch" where
  "HTTP_FetchRange net c rawURL offset w =
     (case url_Parse rawURL of
        Inl e \<Rightarrow> (Inl e, w)
      | Inr u \<Rightarrow>
          (let req = \<lparr>rq_Method = ''GET'', rq_URL = rawURL,
                      rq_Range = (if offset > 0 then Some offset else None),
                      rq_ContentType = '''', rq_Body = Raw []\<rparr>
           in case remote_call (http_Do net c req) w of
                (Inl e, w) \<Rightarrow> (Inl e, w)
              | (Inr resp, w) \<Rightarrow>
                  if rs_Status resp = 206 then (Inr (rs_Body resp, offset), w)
                  else if rs_Status resp = 200 then (Inr (rs_Body resp, 0), w)
                  else (Inl (Msg ''http status''), w)))"

definition HTTPTransport :: "'z net \<Rightarrow> 'z transport" where
  "HTTPTransport net = \<lparr>t_Name = ''http'', t_FetchRange = HTTP_FetchRange net\<rparr>"

definition coap_host :: "url \<Rightarrow> string" where
  "coap_host u = (if url_Port u = '''' then url_Hostname u @ '':5683'' else u_Host u)"

definition CoAP_FetchRange :: "'z net \<Rightarrow> CoAPOptions \<Rightarrow> 'z fetch" where
  "CoAP_FetchRange net o' c rawURL offset w =
     (if offset > 0 then (Inl ErrResumeUnsupported, w)
      else
        (case url_Parse rawURL of
           Inl e \<Rightarrow> (Inl (Wrap ''parse coap url'' e), w)
         | Inr u \<Rightarrow>
             if u_Scheme u \<noteq> ''coap'' then (Inl (Msg ''coap transport requires coap:// scheme''), w)
             else
               (let host = coap_host u
                in case dialCoAP net c host o' w of
                     (Some e, w) \<Rightarrow> (Inl e, w)
                   | (None, w) \<Rightarrow>
                       (case remote_call (coap_Get net c host (u_Path u)) w of
                          (Inl e, w) \<Rightarrow> (Inl (Wrap ''coap GET'' e), w)
                        | (Inr resp, w) \<Rightarrow>
                            if cr_Code resp \<noteq> Content then (Inl (Msg ''coap status''), w)
                            else
                              (case cr_Body resp of
                                 Inl e \<Rightarrow> (Inl (Wrap ''coap read body'' e), w)
                               | Inr data \<Rightarrow> (Inr (([data], None), 0), w))))))"

definition CoAPTransport :: "'z net \<Rightarrow> CoAPOptions \<Rightarrow> 'z transport" where
  "CoAPTransport net o' = \<lparr>t_Name = ''coap'', t_FetchRange = CoAP_FetchRange net o'\<rparr>"

text \<open>
  What the downloader relies on: a fetch leaves the disk alone and does not turn the clock back, and
  the offset it reports is the one it was asked for or zero.
\<close>

definition offset_ok :: "int \<Rightarrow> err + (content list \<times> err option) \<times> int \<Rightarrow> bool" where
  "offset_ok off r \<longleftrightarrow> (case r of Inl e \<Rightarrow> True | Inr (b, eff) \<Rightarrow> eff = off \<or> eff = 0)"

locale delta_transport =
  fixes tr :: "'z transport"
  assumes fetch_disk: "t_FetchRange tr c u off w = (r, w') \<Longrightarrow> same_disk w w'"
    and fetch_clock: "t_FetchRange tr c u off w = (r, w') \<Longrightarrow> clock w \<le> clock w'"
    and fetch_faults: "t_FetchRange tr c u off w = (r, w') \<Longrightarrow> faults w' = faults w"
    and fetch_offset: "t_FetchRange tr c u off w = (r, w') \<Longrightarrow> offset_ok off r"
begin

lemma fetch_files: "t_FetchRange tr c u off w = (r, w') \<Longrightarrow> files w' = files w"
  using fetch_disk by (simp add: same_disk_def)

lemma fetch_evolves: "t_FetchRange tr c u off w = (r, w') \<Longrightarrow> evolves P W w w'"
  using fetch_disk evolves_same by blast

end

definition quiet :: "'z os_scheme \<Rightarrow> 'z os_scheme \<Rightarrow> bool" where
  "quiet w w' \<longleftrightarrow> same_disk w w' \<and> clock w \<le> clock w' \<and> faults w' = faults w"

lemma quiet_refl [simp]: "quiet w w"
  by (simp add: quiet_def)

lemma quiet_trans: "quiet w1 w2 \<Longrightarrow> quiet w2 w3 \<Longrightarrow> quiet w1 w3"
  by (auto simp: quiet_def same_disk_def)

lemma remote_call_quiet: "remote_call f w = (a, w') \<Longrightarrow> quiet w w'"
  using remote_call_disk by (simp add: quiet_def)

lemma dialCoAP_quiet: "dialCoAP net c h o' w = (r, w') \<Longrightarrow> quiet w w'"
  by (auto simp: dialCoAP_def split: prod.splits option.splits dest: remote_call_quiet)

lemma HTTP_fetch_quiet:
  assumes "HTTP_FetchRange net c u off w = (r, w')"
  shows "quiet w w' \<and> offset_ok off r"
  using assms by (auto simp: HTTP_FetchRange_def Let_def offset_ok_def
      split: sum.splits prod.splits if_splits dest: remote_call_quiet)

lemma CoAP_fetch_quiet:
  assumes "CoAP_FetchRange net o' c u off w = (r, w')"
  shows "quiet w w' \<and> offset_ok off r"
  using assms by (auto simp: CoAP_FetchRange_def Let_def offset_ok_def
      split: sum.splits prod.splits if_splits option.splits
      dest!: remote_call_quiet dialCoAP_quiet intro: quiet_trans)

interpretation http: delta_transport "HTTPTransport net" for net :: "'z net"
  by unfold_locales (auto simp: HTTPTransport_def quiet_def dest!: HTTP_fetch_quiet)

interpretation coap: delta_transport "CoAPTransport net o'" for net :: "'z net" and o'
  by unfold_locales (auto simp: CoAPTransport_def quiet_def dest!: CoAP_fetch_quiet)

end
