(* ===== verification/Client.thy ===== *)
theory Client
  imports Net Atomicio
begin

text \<open>
  The protocol clients of the agent (\<open>client.go\<close>, \<open>client_http.go\<close>, \<open>client_coap.go\<close>): heartbeat,
  report and the URL of a download, once over HTTP and JSON and once over CoAP and CBOR. A client is a
  record of its operations; a pair couples it with the transport of the same protocol.
\<close>

section \<open>Definitions\<close>

record 'z client =
  c_Name :: string
  c_Heartbeat :: "ctx \<Rightarrow> heartbeat option \<Rightarrow> 'z os_scheme \<Rightarrow> (err + manifest_response) \<times> 'z os_scheme"
  c_Report :: "ctx \<Rightarrow> update_report option \<Rightarrow> 'z os_scheme \<Rightarrow> err option \<times> 'z os_scheme"
  c_DeltaURL :: "string \<Rightarrow> string"

subsection \<open>HTTP\<close>

definition http_post :: "string \<Rightarrow> content \<Rightarrow> http_req" where
  "http_post url body =
     \<lparr>rq_Method = ''POST'', rq_URL = url, rq_Range = None, rq_ContentType = ''application/json'', rq_Body = body\<rparr>"

definition HTTP_Heartbeat ::
  "'z net \<Rightarrow> codec \<Rightarrow> string \<Rightarrow> ctx \<Rightarrow> heartbeat option \<Rightarrow> 'z os_scheme \<Rightarrow> (err + manifest_response) \<times> 'z os_scheme" where
  "HTTP_Heartbeat net cd base c hb w =
     (case hb of
        None \<Rightarrow> (Inl (Msg ''http heartbeat: nil request''), w)
      | Some h \<Rightarrow>
          (let url = base @ PathHeartbeat
           in case url_Parse url of
                Inl e \<Rightarrow> (Inl (Wrap ''http heartbeat: request'' e), w)
              | Inr u \<Rightarrow>
                  (case remote_call (http_Do net c (http_post url (enc_heartbeat cd h))) w of
                     (Inl e, w) \<Rightarrow> (Inl (Wrap ''http heartbeat: do'' e), w)
                   | (Inr resp, w) \<Rightarrow>
                       if rs_Status resp div 100 \<noteq> 2 then (Inl (Msg ''http heartbeat: status''), w)
                       else
                         (case dec_manifest cd (joined (fst (rs_Body resp))) of
                            None \<Rightarrow> (Inl (Msg ''http heartbeat: decode''), w)
                          | Some out \<Rightarrow> (Inr out, w)))))"

definition HTTP_Report ::
  "'z net \<Rightarrow> codec \<Rightarrow> string \<Rightarrow> ctx \<Rightarrow> update_report option \<Rightarrow> 'z os_scheme \<Rightarrow> err option \<times> 'z os_scheme" where
  "HTTP_Report net cd base c rep w =
     (case rep of
        None \<Rightarrow> (Some (Msg ''http report: nil request''), w)
      | Some r \<Rightarrow>
          (let url = base @ PathReport
           in case url_Parse url of
                Inl e \<Rightarrow> (Some (Wrap ''http report: request'' e), w)
              | Inr u \<Rightarrow>
                  (case remote_call (http_Do net c (http_post url (enc_report cd r))) w of
                     (Inl e, w) \<Rightarrow> (Some (Wrap ''http report: do'' e), w)
                   | (Inr resp, w) \<Rightarrow>
                       if rs_Status resp div 100 \<noteq> 2 then (Some (Msg ''http report: status''), w)
                       else (None, w))))"

text \<open>Both clients turn an endpoint into a URL the same way.\<close>

definition join_endpoint :: "string \<Rightarrow> string \<Rightarrow> string" where
  "join_endpoint base endpoint =
     (if endpoint = '''' then ''''
      else if (case url_Parse endpoint of Inl e \<Rightarrow> False | Inr u \<Rightarrow> url_IsAbs u) then endpoint
      else base @ path_clean (if has_prefix endpoint ''/'' then endpoint else CHR ''/'' # endpoint))"

definition HTTP_DeltaURL :: "string \<Rightarrow> string \<Rightarrow> string" where
  "HTTP_DeltaURL base endpoint = join_endpoint base endpoint"

definition NewHTTPClient :: "'z net \<Rightarrow> codec \<Rightarrow> string \<Rightarrow> 'z client" where
  "NewHTTPClient net cd baseURL =
     (let base = trim_right_slash baseURL
      in \<lparr>c_Name = ''http'', c_Heartbeat = HTTP_Heartbeat net cd base,
          c_Report = HTTP_Report net cd base, c_DeltaURL = HTTP_DeltaURL base\<rparr>)"

subsection \<open>CoAP\<close>

definition client_host :: "string \<Rightarrow> err + string" where
  "client_host base =
     (case url_Parse base of
        Inl e \<Rightarrow> Inl (Wrap ''coap client: parse base url'' e)
      | Inr u \<Rightarrow>
          if u_Scheme u \<noteq> ''coap'' then Inl (Msg ''coap client: base url must be coap://'')
          else Inr (coap_host u))"

definition CoAP_Heartbeat ::
  "'z net \<Rightarrow> codec \<Rightarrow> CoAPOptions \<Rightarrow> string \<Rightarrow> ctx \<Rightarrow> heartbeat option \<Rightarrow> 'z os_scheme \<Rightarrow> (err + manifest_response) \<times> 'z os_scheme" where
  "CoAP_Heartbeat net cd o' base c hb w =
     (case hb of
        None \<Rightarrow> (Inl (Msg ''coap heartbeat: nil request''), w)
      | Some h \<Rightarrow>
          (case client_host base of
             Inl e \<Rightarrow> (Inl e, w)
           | Inr host \<Rightarrow>
               (case dialCoAP net c host o' w of
                  (Some e, w) \<Rightarrow> (Inl (Wrap ''coap heartbeat'' e), w)
                | (None, w) \<Rightarrow>
                    (case remote_call (coap_Post net c host PathHeartbeat (enc_heartbeat cd h)) w of
                       (Inl e, w) \<Rightarrow> (Inl (Wrap ''coap heartbeat: post'' e), w)
                     | (Inr resp, w) \<Rightarrow>
                         if cr_Code resp \<noteq> Content \<and> cr_Code resp \<noteq> Changed
                         then (Inl (Msg ''coap heartbeat: status''), w)
                         else
                           (case cr_Body resp of
                              Inl e \<Rightarrow> (Inl (Wrap ''coap heartbeat: read body'' e), w)
                            | Inr body \<Rightarrow>
                                (case dec_manifest cd body of
                                   None \<Rightarrow> (Inl (Msg ''coap heartbeat: decode''), w)
                                 | Some out \<Rightarrow> (Inr out, w)))))))"

definition CoAP_Report ::
  "'z net \<Rightarrow> codec \<Rightarrow> CoAPOptions \<Rightarrow> string \<Rightarrow> ctx \<Rightarrow> update_report option \<Rightarrow> 'z os_scheme \<Rightarrow> err option \<times> 'z os_scheme" where
  "CoAP_Report net cd o' base c rep w =
     (case rep of
        None \<Rightarrow> (Some (Msg ''coap report: nil request''), w)
      | Some r \<Rightarrow>
          (case client_host base of
             Inl e \<Rightarrow> (Some e, w)
           | Inr host \<Rightarrow>
               (case dialCoAP net c host o' w of
                  (Some e, w) \<Rightarrow> (Some (Wrap ''coap report'' e), w)
                | (None, w) \<Rightarrow>
                    (case remote_call (coap_Post net c host PathReport (enc_report cd r)) w of
                       (Inl e, w) \<Rightarrow> (Some (Wrap ''coap report: post'' e), w)
                     | (Inr resp, w) \<Rightarrow>
                         if cr_Code resp \<noteq> Changed \<and> cr_Code resp \<noteq> Content
                         then (Some (Msg ''coap report: status''), w)
                         else (None, w)))))"

definition CoAP_DeltaURL :: "string \<Rightarrow> string \<Rightarrow> string" where
  "CoAP_DeltaURL base endpoint = join_endpoint base endpoint"

definition NewCoAPClient :: "'z net \<Rightarrow> codec \<Rightarrow> string \<Rightarrow> CoAPOptions \<Rightarrow> 'z client" where
  "NewCoAPClient net cd baseURL o' =
     (let base = trim_right_slash baseURL
      in \<lparr>c_Name = ''coap'', c_Heartbeat = CoAP_Heartbeat net cd o' base,
          c_Report = CoAP_Report net cd o' base, c_DeltaURL = CoAP_DeltaURL base\<rparr>)"

subsection \<open>Pairs\<close>

record 'z client_pair =
  pr_Client :: "'z client"
  pr_Transport :: "'z transport"

definition errClientPairNil :: err where
  "errClientPairNil = Sentinel ''client/transport mismatch: client=<nil> transport=<nil>''"

definition NewClientPair :: "'z client option \<Rightarrow> 'z transport option \<Rightarrow> err + 'z client_pair" where
  "NewClientPair client transport =
     (case (client, transport) of
        (Some cl, Some tr) \<Rightarrow>
          if c_Name cl \<noteq> t_Name tr
          then Inl (Msg (''client/transport mismatch: client='' @ c_Name cl @ '' transport='' @ t_Name tr))
          else Inr \<lparr>pr_Client = cl, pr_Transport = tr\<rparr>
      | _ \<Rightarrow> Inl errClientPairNil)"

section \<open>What the updater relies on\<close>

locale protocol_client =
  fixes cl :: "'z client"
  assumes heartbeat_quiet: "c_Heartbeat cl c hb w = (r, w') \<Longrightarrow> quiet w w'"
    and report_quiet: "c_Report cl c rep w = (e, w') \<Longrightarrow> quiet w w'"
    and url_empty: "c_DeltaURL cl '''' = ''''"

lemma HTTP_quiet:
  "HTTP_Heartbeat net cd base c hb w = (r, w') \<Longrightarrow> quiet w w'"
  "HTTP_Report net cd base c rep w = (e, w') \<Longrightarrow> quiet w w'"
  by (auto simp: HTTP_Heartbeat_def HTTP_Report_def Let_def
      split: option.splits sum.splits prod.splits if_splits dest: remote_call_quiet)

lemma CoAP_quiet:
  "CoAP_Heartbeat net cd o' base c hb w = (r, w') \<Longrightarrow> quiet w w'"
  "CoAP_Report net cd o' base c rep w = (e, w') \<Longrightarrow> quiet w w'"
  by (auto simp: CoAP_Heartbeat_def CoAP_Report_def
      split: option.splits sum.splits prod.splits if_splits
      dest!: remote_call_quiet dialCoAP_quiet intro: quiet_trans)

interpretation http_client: protocol_client "NewHTTPClient net cd url" for net :: "'z net" and cd url
  by unfold_locales
    (auto simp: NewHTTPClient_def Let_def HTTP_DeltaURL_def join_endpoint_def dest: HTTP_quiet)

interpretation coap_client: protocol_client "NewCoAPClient net cd url o'" for net :: "'z net" and cd url o'
  by unfold_locales
    (auto simp: NewCoAPClient_def Let_def CoAP_DeltaURL_def join_endpoint_def dest: CoAP_quiet)

text \<open>A pair made by \<open>NewClientPair\<close> speaks one protocol.\<close>

lemma NewClientPair_consistent:
  "NewClientPair cl tr = Inr p \<longleftrightarrow>
   (\<exists>c t. cl = Some c \<and> tr = Some t \<and> c_Name c = t_Name t \<and> p = \<lparr>pr_Client = c, pr_Transport = t\<rparr>)"
  by (auto simp: NewClientPair_def split: option.splits)

end
