(* ===== verification/Downloader.thy ===== *)
theory Downloader
  imports Client Slots
begin

text \<open>
  The resumable download of the agent (\<open>pkg/agent/downloader.go\<close>): attempts with backoff, the partial
  file, the resume state on file, and the check of the digest before the file is put in place.
\<close>

section \<open>Definitions\<close>

definition ErrHashMismatch :: err where
  "ErrHashMismatch = Sentinel ''downloaded delta hash does not match manifest''"

record fetch_target =
  tgt_URL :: string
  tgt_DeltaHash :: string
  tgt_TotalSize :: int
  tgt_OutPath :: string

record downloader_config =
  dc_StatePath :: string
  dc_MaxRetries :: int
  dc_RetryBackoff :: int

text \<open>The random source is the sequence of its draws, one per attempt, as 53-bit numerators.\<close>

record 'z downloader =
  d_transport :: "'z transport"
  d_cfg :: downloader_config
  d_rand :: "nat \<Rightarrow> nat"

definition NewDownloader :: "'z transport \<Rightarrow> downloader_config \<Rightarrow> (nat \<Rightarrow> nat) \<Rightarrow> 'z downloader" where
  "NewDownloader tr cfg draws =
     (let cfg = (if dc_MaxRetries cfg < 0 then cfg\<lparr>dc_MaxRetries := 0\<rparr> else cfg);
          cfg = (if dc_RetryBackoff cfg \<le> 0 then cfg\<lparr>dc_RetryBackoff := 30 * Second\<rparr> else cfg)
      in \<lparr>d_transport = tr, d_cfg = cfg, d_rand = draws\<rparr>)"

record downloadState =
  ds_DeltaHash :: string
  ds_BytesReceived :: int
  ds_TempFile :: string
  ds_Transport :: string

definition dstate_to_json :: "downloadState \<Rightarrow> json" where
  "dstate_to_json st =
     JObj [(''delta_hash'', JStr (ds_DeltaHash st)), (''bytes_received'', JInt (ds_BytesReceived st)),
           (''temp_file'', JStr (ds_TempFile st)), (''transport'', JStr (ds_Transport st))]"

definition dstate_of_json :: "json \<Rightarrow> downloadState option" where
  "dstate_of_json j =
     (case struct_fields j of
        None \<Rightarrow> None
      | Some fs \<Rightarrow>
          (case (get_str fs ''delta_hash'', get_int fs ''bytes_received'', get_str fs ''temp_file'',
                 get_str fs ''transport'') of
             (Some h, Some n, Some f, Some t) \<Rightarrow>
               Some \<lparr>ds_DeltaHash = h, ds_BytesReceived = n, ds_TempFile = f, ds_Transport = t\<rparr>
           | _ \<Rightarrow> None))"

definition loadState :: "'z downloader \<Rightarrow> fetch_target \<Rightarrow> 'z os_scheme \<Rightarrow> downloadState option \<times> 'z os_scheme" where
  "loadState d tgt w =
     (if dc_StatePath (d_cfg d) = '''' then (None, w)
      else
        (case os_ReadFile (dc_StatePath (d_cfg d)) w of
           (Inl e, w) \<Rightarrow> (None, w)
         | (Inr data, w) \<Rightarrow>
             (case Option.bind (parse_json data) dstate_of_json of
                None \<Rightarrow> (None, w)
              | Some st \<Rightarrow>
                  if ds_DeltaHash st \<noteq> tgt_DeltaHash tgt \<or> ds_Transport st \<noteq> t_Name (d_transport d)
                  then (None, w) else (Some st, w))))"

definition saveState :: "'z downloader \<Rightarrow> fetch_target \<Rightarrow> string \<Rightarrow> int \<Rightarrow> 'z os_scheme \<Rightarrow> 'z os_scheme" where
  "saveState d tgt tmpPath offset w =
     (if dc_StatePath (d_cfg d) = '''' then w
      else
        (let st = \<lparr>ds_DeltaHash = tgt_DeltaHash tgt, ds_BytesReceived = offset,
                   ds_TempFile = tmpPath, ds_Transport = t_Name (d_transport d)\<rparr>
         in snd (WriteFile (dc_StatePath (d_cfg d)) (Json (dstate_to_json st)) 420 w)))"

definition clearState :: "'z downloader \<Rightarrow> 'z os_scheme \<Rightarrow> 'z os_scheme" where
  "clearState d w =
     (if dc_StatePath (d_cfg d) = '''' then w else snd (os_Remove (dc_StatePath (d_cfg d)) w))"

text \<open>
  \<open>jitter\<close>: thirty percent up or down, in exact arithmetic on the draw \<open>k / 2 ^ 53\<close>; durations are not
  negative, so the conversion to an integer rounds down.
\<close>

definition jitter :: "int \<Rightarrow> nat \<Rightarrow> int" where
  "jitter d k =
     (let result = (10 * 2 ^ 53 * d + (2 * int k - 2 ^ 53) * 3 * d) div (10 * 2 ^ 53)
      in if result < 0 then d else result)"

text \<open>\<open>io.Copy\<close> into the open file from an offset; it counts what was written.\<close>

fun copy_at :: "string \<Rightarrow> nat \<Rightarrow> content list \<Rightarrow> err option \<Rightarrow> 'z os_scheme \<Rightarrow> (nat \<times> err option) \<times> 'z os_scheme" where
  "copy_at f off [] rerr w = ((0, rerr), w)"
| "copy_at f off (c # cs) rerr w =
     (case os_WriteAt f off (bytes_of c) w of
        ((n, Some e), w) \<Rightarrow> ((n, Some e), w)
      | ((n, None), w) \<Rightarrow>
          (case copy_at f (off + n) cs rerr w of ((k, e), w) \<Rightarrow> ((n + k, e), w)))"

definition attempt ::
  "'z downloader \<Rightarrow> ctx \<Rightarrow> fetch_target \<Rightarrow> string \<Rightarrow> int \<Rightarrow> 'z os_scheme \<Rightarrow> (int \<times> err option) \<times> 'z os_scheme" where
  "attempt d c tgt tmpPath offset w =
     (case t_FetchRange (d_transport d) c (tgt_URL tgt) offset w of
        (Inl e, w) \<Rightarrow> ((offset, Some e), w)
      | (Inr ((chunks, rerr), effOffset), w) \<Rightarrow>
          (case os_OpenCreate tmpPath 420 w of
             (Inl e, w) \<Rightarrow> ((offset, Some (Wrap ''open tmp file'' e)), w)
           | (Inr f, w) \<Rightarrow>
               (case (if effOffset \<noteq> offset then os_Truncate0 f w else (None, w)) of
                  (Some e, w) \<Rightarrow> ((offset, Some (Wrap ''truncate tmp'' e)), snd (os_Close w))
                | (None, w) \<Rightarrow>
                    (let offset = (if effOffset \<noteq> offset then 0 else offset)
                     in case os_Seek offset w of
                          (Some e, w) \<Rightarrow> ((offset, Some (Wrap ''seek tmp'' e)), snd (os_Close w))
                        | (None, w) \<Rightarrow>
                            (case copy_at f (nat offset) chunks rerr w of
                               ((n, e), w) \<Rightarrow> ((offset + int n, e), snd (os_Close w)))))))"

text \<open>
  The retry loop: \<open>n\<close> attempts are left after the current one, which is number \<open>i\<close>. An early return
  is \<open>Inl\<close>; otherwise the loop ends with success and the offset, or with the last error.
\<close>

fun download_loop ::
  "'z downloader \<Rightarrow> ctx \<Rightarrow> fetch_target \<Rightarrow> string \<Rightarrow> nat \<Rightarrow> nat \<Rightarrow> int \<Rightarrow> int \<Rightarrow> 'z os_scheme \<Rightarrow>
   (err + err option) \<times> 'z os_scheme" where
  "download_loop d c tgt tmpPath n i backoff offset w =
     (case ctx_Err c w of
        Some e \<Rightarrow> (Inl e, w)
      | None \<Rightarrow>
          (case attempt d c tgt tmpPath offset w of
             ((newOffset, None), w) \<Rightarrow> (Inr None, w)
           | ((newOffset, Some err), w) \<Rightarrow>
               (let (offset, w) = (if errors_Is err ErrResumeUnsupported
                                   then (0, snd (os_Remove tmpPath w)) else (newOffset, w));
                    diskFull = IsDiskFull (Some err);
                    w = saveState d tgt tmpPath offset w
                in case n of
                     0 \<Rightarrow> (Inr (Some err), w)
                   | Suc m \<Rightarrow>
                       (let wait = jitter backoff (d_rand d i);
                            wait = (if diskFull \<and> wait < 5 * Minute then 5 * Minute else wait)
                        in case select_after c wait w of
                             (Some e, w) \<Rightarrow> (Inl e, w)
                           | (None, w) \<Rightarrow>
                               (let backoff = (if backoff * 2 > 5 * Minute then 5 * Minute else backoff * 2)
                                in download_loop d c tgt tmpPath m (Suc i) backoff offset w)))))"

declare download_loop.simps [simp del]

text \<open>The end of a download: check the digest and put the file in place.\<close>

definition finish_download :: "hashfn \<Rightarrow> 'z downloader \<Rightarrow> fetch_target \<Rightarrow> string \<Rightarrow> 'z os_scheme \<Rightarrow> err option \<times> 'z os_scheme" where
  "finish_download H d tgt tmpPath w =
     (case hashFile H tmpPath w of
        (Inl e, w) \<Rightarrow> (Some (Wrap ''hash downloaded delta'' e), w)
      | (Inr actual, w) \<Rightarrow>
          if actual \<noteq> tgt_DeltaHash tgt then
            (let w = snd (os_Remove tmpPath w); w = clearState d w
             in (Some (Wrap ''got another hash'' ErrHashMismatch), w))
          else
            (case os_Rename tmpPath (tgt_OutPath tgt) w of
               (Some e, w) \<Rightarrow> (Some (Wrap ''finalize delta'' e), w)
             | (None, w) \<Rightarrow> (None, clearState d w)))"

definition Download :: "hashfn \<Rightarrow> 'z downloader \<Rightarrow> ctx \<Rightarrow> fetch_target \<Rightarrow> 'z os_scheme \<Rightarrow> err option \<times> 'z os_scheme" where
  "Download H d c tgt w =
     (case loadState d tgt w of (st, w) \<Rightarrow>
        (let tmpPath = (case st of None \<Rightarrow> tgt_OutPath tgt @ ''.partial'' | Some s \<Rightarrow> ds_TempFile s);
             offset = (case st of None \<Rightarrow> 0 | Some s \<Rightarrow> ds_BytesReceived s)
         in if dc_MaxRetries (d_cfg d) < 0 then (Some (Msg ''download failed''), w)
            else
              (case download_loop d c tgt tmpPath (nat (dc_MaxRetries (d_cfg d))) 0
                      (dc_RetryBackoff (d_cfg d)) offset w of
                 (Inl e, w) \<Rightarrow> (Some e, w)
               | (Inr (Some lastErr), w) \<Rightarrow> (Some (Wrap ''download failed'' lastErr), w)
               | (Inr None, w) \<Rightarrow> finish_download H d tgt tmpPath w)))"

section \<open>What a download touches\<close>

text \<open>A step on files: only paths of \<open>P\<close> change, and no link appears.\<close>

definition file_step :: "string set \<Rightarrow> 'z os_scheme \<Rightarrow> 'z os_scheme \<Rightarrow> bool" where
  "file_step P w w' \<longleftrightarrow>
     evolves P (any_at P) w w' \<and>
     (\<forall>q t. \<not> is_tmp q \<longrightarrow> map_of (files w') q = Some (ELink t) \<longrightarrow> map_of (files w) q = Some (ELink t))"

lemma file_step_refl [simp]: "file_step P w w"
  by (simp add: file_step_def evolves_refl)

lemma file_step_trans: "file_step P w1 w2 \<Longrightarrow> file_step P w2 w3 \<Longrightarrow> file_step P w1 w3"
  by (auto simp: file_step_def intro: evolves_step)

lemma file_step_same: "same_disk w w' \<Longrightarrow> file_step P w w'"
  by (simp add: file_step_def evolves_same) (simp add: same_disk_def)

lemma file_step_quiet: "quiet w w' \<Longrightarrow> file_step P w w'"
  by (simp add: quiet_def file_step_same)

lemma file_step_no_link: "file_step P w w' \<Longrightarrow> \<not> is_tmp q \<Longrightarrow> no_link q (files w) \<Longrightarrow> no_link q (files w')"
  by (fastforce simp: file_step_def no_link_def split: option.splits ent.splits)

lemma file_step_other: "file_step P w w' \<Longrightarrow> q \<notin> P \<Longrightarrow> map_of (files w') q = map_of (files w) q"
  by (auto simp: file_step_def dest: evolvesD)

lemma select_after_step: "select_after c d w = (r, w') \<Longrightarrow> file_step P w w'"
  by (rule file_step_same) (auto simp: select_after_def os_Sleep_def same_disk_def split: option.splits if_splits)

lemma file_calls:
  assumes "p \<in> P"
  shows "os_Remove p w = (r1, w1) \<Longrightarrow> file_step P w w1"
    "os_Truncate0 p w = (r2, w2) \<Longrightarrow> file_step P w w2"
    "os_WriteAt p off dt w = (r3, w3) \<Longrightarrow> file_step P w w3"
    "os_OpenCreate p m w = (r4, w4) \<Longrightarrow> file_step P w w4"
proof -
  assume 1: "os_Remove p w = (r1, w1)"
  show "file_step P w w1"
    using os_Remove_evolves [OF 1, of P "any_at P"] os_Remove_files [OF 1] assms
    by (auto simp: file_step_def split: if_splits)
next
  assume 2: "os_Truncate0 p w = (r2, w2)"
  have "map_of (files w) q = Some (ELink t)" if "map_of (files w2) q = Some (ELink t)" for q t
    using 2 that by (auto simp: os_Truncate0_def syscall_def split: option.splits ent.splits if_splits)
  then show "file_step P w w2"
    using os_Truncate0_evolves [OF 2, of P "any_at P"] assms by (simp add: file_step_def)
next
  assume 3: "os_WriteAt p off dt w = (r3, w3)"
  have "map_of (files w) q = Some (ELink t)" if "map_of (files w3) q = Some (ELink t)" for q t
    using 3 that by (auto simp: os_WriteAt_def do_write_at_def split: option.splits ent.splits if_splits)
  then show "file_step P w w3"
    using os_WriteAt_evolves [OF 3, of P "any_at P"] assms by (simp add: file_step_def)
next
  assume 4: "os_OpenCreate p m w = (r4, w4)"
  have "map_of (files w) q = Some (ELink t)" if "map_of (files w4) q = Some (ELink t)" for q t
    using 4 that by (auto simp: os_OpenCreate_def syscall_def split: option.splits sum.splits ent.splits if_splits)
  then show "file_step P w w4"
    using os_OpenCreate_evolves [OF 4, of P "any_at P"] assms by (simp add: file_step_def)
qed

lemma WriteFile_step:
  assumes "WriteFile p data mode w = (r, w')" "p \<in> P" "tmps \<subseteq> P" "\<not> is_tmp p"
  shows "file_step P w w'"
proof -
  note at = WriteFile_atomic [OF assms(1,4), unfolded atomic_write_def]
  have "evolves P (any_at P) w w'"
    using at assms(2,3) by (intro evolves_any [OF conjunct1 [OF conjunct1 [OF at]]]) (auto simp: only_at_def)
  moreover have "map_of (files w) q = Some (ELink t)"
    if "\<not> is_tmp q" "map_of (files w') q = Some (ELink t)" for q t
    using at that evolvesD [OF conjunct1 [OF conjunct1 [OF at]], of q] by (cases "q = p") (auto split: if_splits)
  ultimately show ?thesis by (simp add: file_step_def)
qed

text \<open>The paths a download may change.\<close>

definition dl_paths :: "'z downloader \<Rightarrow> fetch_target \<Rightarrow> string \<Rightarrow> string set" where
  "dl_paths d tgt tmp = {tmp, tgt_OutPath tgt, dc_StatePath (d_cfg d)} \<union> tmps"

definition loop_paths :: "'z downloader \<Rightarrow> string \<Rightarrow> string set" where
  "loop_paths d tmp = {tmp, dc_StatePath (d_cfg d)} \<union> tmps"

definition dl_layout :: "'z downloader \<Rightarrow> fetch_target \<Rightarrow> string \<Rightarrow> bool" where
  "dl_layout d tgt tmp \<longleftrightarrow>
     \<not> is_tmp tmp \<and> \<not> is_tmp (tgt_OutPath tgt) \<and> \<not> is_tmp (dc_StatePath (d_cfg d)) \<and>
     tmp \<noteq> tgt_OutPath tgt \<and> dc_StatePath (d_cfg d) \<noteq> tmp \<and> dc_StatePath (d_cfg d) \<noteq> tgt_OutPath tgt"

lemma saveState_step: "dl_layout d tgt tmp \<Longrightarrow> dc_StatePath (d_cfg d) \<in> P \<Longrightarrow> tmps \<subseteq> P \<Longrightarrow>
    file_step P w (saveState d tgt tmp off w)"
  by (auto simp: saveState_def Let_def dl_layout_def intro: WriteFile_step prod.collapse [symmetric])

lemma clearState_step: "dc_StatePath (d_cfg d) \<in> P \<Longrightarrow> file_step P w (clearState d w)"
  by (auto simp: clearState_def intro: file_calls(1) prod.collapse [symmetric])

lemma loadState_quiet: "loadState d tgt w = (st, w') \<Longrightarrow> same_disk w w' \<and> same_rest w w'"
proof -
  assume eq: "loadState d tgt w = (st, w')"
  obtain r1 w1 where 1: "os_ReadFile (dc_StatePath (d_cfg d)) w = (r1, w1)" by fastforce
  have "w' = w \<or> w' = w1"
    using eq 1 by (auto simp: loadState_def split: if_splits sum.splits option.splits)
  with os_reads(3) [OF 1] show ?thesis by auto
qed

lemma copy_at_step: "copy_at f off cs rerr w = (r, w') \<Longrightarrow> f \<in> P \<Longrightarrow> file_step P w w'"
proof (induction f off cs rerr w arbitrary: r rule: copy_at.induct)
  case (2 f off c cs rerr w)
  obtain n e w1 where 1: "os_WriteAt f off (bytes_of c) w = ((n, e), w1)" by (metis prod.collapse)
  note s1 = file_calls(3) [OF 2(3) 1]
  show ?case
  proof (cases e)
    case None
    obtain r2 w2 where 2: "copy_at f (off + n) cs rerr w1 = (r2, w2)" by fastforce
    with "2.prems" 1 None have "copy_at f (off + n) cs rerr w1 = (r2, w')" by (auto split: prod.splits)
    with "2.IH" [OF 1 [symmetric] refl None this] "2.prems"(2) s1 show ?thesis
      by (blast intro: file_step_trans)
  next
    case Some
    with s1 1 "2.prems" show ?thesis by simp
  qed
qed simp

lemma Close_step: "file_step P w (snd (os_Close w))"
  by (rule file_step_same) (use os_reads(7) [of w] in \<open>auto intro: prod.collapse [symmetric]\<close>)

text \<open>The part of an attempt after the fetch, as one step on the partial file.\<close>

definition receive :: "string \<Rightarrow> content list \<Rightarrow> err option \<Rightarrow> int \<Rightarrow> int \<Rightarrow> 'z os_scheme \<Rightarrow> (int \<times> err option) \<times> 'z os_scheme" where
  "receive tmpPath chunks rerr effOffset offset w =
     (case os_OpenCreate tmpPath 420 w of
        (Inl e, w) \<Rightarrow> ((offset, Some (Wrap ''open tmp file'' e)), w)
      | (Inr f, w) \<Rightarrow>
          (case (if effOffset \<noteq> offset then os_Truncate0 f w else (None, w)) of
             (Some e, w) \<Rightarrow> ((offset, Some (Wrap ''truncate tmp'' e)), snd (os_Close w))
           | (None, w) \<Rightarrow>
               (let offset = (if effOffset \<noteq> offset then 0 else offset)
                in case os_Seek offset w of
                     (Some e, w) \<Rightarrow> ((offset, Some (Wrap ''seek tmp'' e)), snd (os_Close w))
                   | (None, w) \<Rightarrow>
                       (case copy_at f (nat offset) chunks rerr w of
                          ((n, e), w) \<Rightarrow> ((offset + int n, e), snd (os_Close w))))))"

lemma attempt_receive:
  "attempt d c tgt tmpPath offset w =
     (case t_FetchRange (d_transport d) c (tgt_URL tgt) offset w of
        (Inl e, w) \<Rightarrow> ((offset, Some e), w)
      | (Inr ((chunks, rerr), eff), w) \<Rightarrow> receive tmpPath chunks rerr eff offset w)"
  by (simp only: attempt_def receive_def)

lemma receive_step:
  assumes "receive tmp chunks rerr eff off w = (r, w')" "no_link tmp (files w)" "tmp \<in> P"
  shows "file_step P w w'"
proof -
  obtain r1 w1 where 1: "os_OpenCreate tmp 420 w = (r1, w1)" by fastforce
  note s1 = file_calls(4) [OF assms(3) 1]
  show ?thesis
  proof (cases r1)
    case (Inl e)
    with assms(1) 1 s1 show ?thesis by (simp add: receive_def)
  next
    case (Inr f)
    have f: "f = tmp" using os_OpenCreate_no_link [OF 1 [unfolded Inr] assms(2)] by simp
    obtain r2 w2 where 2: "(if eff \<noteq> off then os_Truncate0 tmp w1 else (None, w1)) = (r2, w2)" by fastforce
    have s2: "file_step P w1 w2" using 2 file_calls(2) [OF assms(3)] by (auto split: if_splits)
    define o' where "o' = (if eff \<noteq> off then 0 else off)"
    obtain r3 w3 where 3: "os_Seek o' w2 = (r3, w3)" by fastforce
    have s3: "file_step P w2 w3" using os_Seek_reads [OF 3] by (simp add: file_step_same)
    obtain r4 w4 where 4: "copy_at tmp (nat o') chunks rerr w3 = (r4, w4)" by fastforce
    have s4: "file_step P w3 w4" by (rule copy_at_step [OF 4 assms(3)])
    have "w' = snd (os_Close w2) \<or> w' = snd (os_Close w3) \<or> w' = snd (os_Close w4)"
      using assms(1) 1 2 3 4 Inr f
      by (auto simp: receive_def Let_def o'_def split: option.splits prod.splits)
    with s1 s2 s3 s4 Close_step file_step_trans show ?thesis by metis
  qed
qed

text \<open>The books the loop keeps after a failed attempt.\<close>

definition after_failure :: "'z downloader \<Rightarrow> fetch_target \<Rightarrow> string \<Rightarrow> int \<Rightarrow> err \<Rightarrow> 'z os_scheme \<Rightarrow> int \<times> 'z os_scheme" where
  "after_failure d tgt tmpPath newOffset err w =
     (if errors_Is err ErrResumeUnsupported
      then (0, saveState d tgt tmpPath 0 (snd (os_Remove tmpPath w)))
      else (newOffset, saveState d tgt tmpPath newOffset w))"

definition next_wait :: "'z downloader \<Rightarrow> nat \<Rightarrow> int \<Rightarrow> err \<Rightarrow> int" where
  "next_wait d i backoff err =
     (let wait = jitter backoff (d_rand d i)
      in if IsDiskFull (Some err) \<and> wait < 5 * Minute then 5 * Minute else wait)"

definition next_backoff :: "int \<Rightarrow> int" where
  "next_backoff b = (if b * 2 > 5 * Minute then 5 * Minute else b * 2)"

lemma download_loop_step:
  "download_loop d c tgt tmp n i backoff offset w =
     (case ctx_Err c w of
        Some e \<Rightarrow> (Inl e, w)
      | None \<Rightarrow>
          (case attempt d c tgt tmp offset w of
             ((newOffset, None), w) \<Rightarrow> (Inr None, w)
           | ((newOffset, Some err), w) \<Rightarrow>
               (case after_failure d tgt tmp newOffset err w of
                  (offset, w) \<Rightarrow>
                    (case n of
                       0 \<Rightarrow> (Inr (Some err), w)
                     | Suc m \<Rightarrow>
                         (case select_after c (next_wait d i backoff err) w of
                            (Some e, w) \<Rightarrow> (Inl e, w)
                          | (None, w) \<Rightarrow>
                              download_loop d c tgt tmp m (Suc i) (next_backoff backoff) offset w)))))"
  by (subst download_loop.simps)
    (auto simp: after_failure_def next_wait_def next_backoff_def Let_def split: option.split prod.split nat.split)

lemma after_failure_step:
  "after_failure d tgt tmp no err w = (off, w') \<Longrightarrow> dl_layout d tgt tmp \<Longrightarrow> P = loop_paths d tmp \<Longrightarrow> file_step P w w'"
  using file_calls(1) [of tmp P w "fst (os_Remove tmp w)" "snd (os_Remove tmp w)"]
    saveState_step [of d tgt tmp P]
  by (auto simp: after_failure_def loop_paths_def split: if_splits intro: file_step_trans)

lemma ctx_errs: "ctx_Err c w = Some e \<Longrightarrow> e = Canceled" "select_after c d w = (Some e, w') \<Longrightarrow> e = Canceled"
  by (auto simp: ctx_Err_def select_after_def split: option.splits if_splits)

text \<open>The loop returns early only because the context was cancelled.\<close>

lemma loop_cancel: "download_loop d c tgt tmp n i backoff off w = (Inl e, w') \<Longrightarrow> e = Canceled"
proof (induction n arbitrary: i backoff off w)
  case (0 i backoff off w)
  then show ?case
    using ctx_errs(1) by (fastforce simp: download_loop_step [of _ _ _ _ 0] split: option.splits prod.splits)
next
  case (Suc n i backoff off w)
  obtain no e1 w1 where 1: "attempt d c tgt tmp off w = ((no, e1), w1)" by (metis prod.collapse)
  show ?case
  proof (cases "ctx_Err c w = None \<and> e1 \<noteq> None")
    case False
    with Suc.prems 1 ctx_errs(1) [of c w] show ?thesis
      by (auto simp: download_loop_step [of _ _ _ _ "Suc n"] split: option.splits)
  next
    case True
    then obtain e' where e: "e1 = Some e'" by auto
    obtain o2 w2 where 2: "after_failure d tgt tmp no e' w1 = (o2, w2)" by fastforce
    obtain r3 w3 where 3: "select_after c (next_wait d i backoff e') w2 = (r3, w3)" by fastforce
    have "r3 = Some e \<or> download_loop d c tgt tmp n (Suc i) (next_backoff backoff) o2 w3 = (Inl e, w')"
      using Suc.prems 1 2 3 True e
      by (auto simp: download_loop_step [of _ _ _ _ "Suc n"] split: option.splits)
    with Suc.IH ctx_errs(2) 3 show ?thesis by blast
  qed
qed

context delta_transport
begin

lemma attempt_step:
  assumes "attempt d c tgt tmp off w = (r, w')" "d_transport d = tr" "no_link tmp (files w)" "tmp \<in> P"
  shows "file_step P w w'"
proof -
  obtain r1 w1 where 1: "t_FetchRange tr c (tgt_URL tgt) off w = (r1, w1)" by fastforce
  have s1: "file_step P w w1" using fetch_disk [OF 1] by (rule file_step_same)
  have nl: "no_link tmp (files w1)" using fetch_files [OF 1] assms(3) by simp
  show ?thesis
  proof (cases r1)
    case (Inl e)
    with assms 1 s1 show ?thesis by (simp add: attempt_receive)
  next
    case (Inr b)
    obtain ch re eff where b: "b = ((ch, re), eff)" by (metis prod.collapse)
    with assms(1,2) 1 Inr have "receive tmp ch re eff off w1 = (r, w')" by (simp add: attempt_receive)
    from receive_step [OF this nl assms(4)] s1 show ?thesis by (blast intro: file_step_trans)
  qed
qed

lemma loop_step:
  "download_loop d c tgt tmp n i backoff off w = (r, w') \<Longrightarrow> d_transport d = tr \<Longrightarrow> dl_layout d tgt tmp \<Longrightarrow>
   no_link tmp (files w) \<Longrightarrow> file_step (loop_paths d tmp) w w'"
proof (induction n arbitrary: i backoff off w)
  case (0 i backoff off w)
  obtain no e1 w1 where 1: "attempt d c tgt tmp off w = ((no, e1), w1)" by (metis prod.collapse)
  have s1: "file_step (loop_paths d tmp) w w1"
    using attempt_step [OF 1] 0 by (simp add: loop_paths_def)
  have "w' = w \<or> w' = w1 \<or> (\<exists>e o2. after_failure d tgt tmp no e w1 = (o2, w'))"
    using 0(1) 1 by (auto simp: download_loop_step [of _ _ _ _ 0] split: option.splits prod.splits)
  with s1 after_failure_step [OF _ 0(3) refl] show ?case
    by (metis file_step_refl file_step_trans)
next
  case (Suc n i backoff off w)
  let ?P = "loop_paths d tmp"
  obtain no e1 w1 where 1: "attempt d c tgt tmp off w = ((no, e1), w1)" by (metis prod.collapse)
  have s1: "file_step ?P w w1"
    using attempt_step [OF 1] Suc.prems by (simp add: loop_paths_def)
  show ?case
  proof (cases "ctx_Err c w = None \<and> e1 \<noteq> None")
    case False
    then have "w' = w \<or> w' = w1"
      using Suc.prems(1) 1 by (auto simp: download_loop_step [of _ _ _ _ "Suc n"] split: option.splits)
    with s1 show ?thesis by auto
  next
    case True
    then obtain e where e: "e1 = Some e" by auto
    obtain o2 w2 where 2: "after_failure d tgt tmp no e w1 = (o2, w2)" by fastforce
    obtain r3 w3 where 3: "select_after c (next_wait d i backoff e) w2 = (r3, w3)" by fastforce
    have s3: "file_step ?P w w3"
      using s1 after_failure_step [OF 2 Suc.prems(3) refl] select_after_step [OF 3] file_step_trans by blast
    have nl: "no_link tmp (files w3)"
      using file_step_no_link [OF s3] Suc.prems(3,4) by (simp add: dl_layout_def)
    have "w' = w3 \<or> download_loop d c tgt tmp n (Suc i) (next_backoff backoff) o2 w3 = (r, w')"
      using Suc.prems(1) 1 2 3 True e
      by (auto simp: download_loop_step [of _ _ _ _ "Suc n"] split: option.splits)
    with Suc.IH [OF _ Suc.prems(2,3) nl] s3 file_step_trans show ?thesis by blast
  qed
qed

end

lemma finish_download_result:
  assumes "finish_download H d tgt tmp w = (r, w')" "dl_layout d tgt tmp" "no_link tmp (files w)"
  shows "evolves (dl_paths d tgt tmp) (any_at (dl_paths d tgt tmp)) w w'"
    "r = None \<Longrightarrow> \<exists>c m t s. map_of (files w') (tgt_OutPath tgt) = Some (EFile c m t s) \<and>
       sha256_hex H (bytes_of c) = tgt_DeltaHash tgt"
    "r \<noteq> None \<Longrightarrow> map_of (files w') (tgt_OutPath tgt) = map_of (files w) (tgt_OutPath tgt)"
proof -
  let ?P = "dl_paths d tgt tmp" and ?out = "tgt_OutPath tgt"
  have P: "tmp \<in> ?P" "?out \<in> ?P" "dc_StatePath (d_cfg d) \<in> ?P" by (simp_all add: dl_paths_def)
  have clear: "map_of (files (clearState d v)) ?out = map_of (files v) ?out" for v
    using assms(2) os_Remove_files [OF prod.collapse [symmetric], of "dc_StatePath (d_cfg d)" v]
    by (auto simp: clearState_def dl_layout_def split: if_splits)
  have clr: "evolves ?P (any_at ?P) v (clearState d v)" for v
    using clearState_step [OF P(3)] by (simp add: file_step_def)
  obtain r1 w1 where 1: "hashFile H tmp w = (r1, w1)" by fastforce
  note h = hashFile_result [OF 1]
  have f1: "files w1 = files w" using h(1) by (simp add: same_disk_def)
  have e1: "evolves ?P (any_at ?P) w w1" using h(1) by (simp add: evolves_same)
  have "evolves ?P (any_at ?P) w w' \<and>
    (r = None \<longrightarrow> (\<exists>c m t s. map_of (files w') ?out = Some (EFile c m t s) \<and> sha256_hex H (bytes_of c) = tgt_DeltaHash tgt)) \<and>
    (r \<noteq> None \<longrightarrow> map_of (files w') ?out = map_of (files w) ?out)"
  proof (cases r1)
    case (Inl e)
    with assms(1) 1 e1 f1 show ?thesis by (auto simp: finish_download_def)
  next
    case (Inr actual)
    show ?thesis
    proof (cases "actual = tgt_DeltaHash tgt")
      case False
      obtain r2 w2 where 2: "os_Remove tmp w1 = (r2, w2)" by fastforce
      have w': "w' = clearState d w2" "r \<noteq> None"
        using assms(1) 1 2 Inr False by (auto simp: finish_download_def Let_def)
      have "evolves ?P (any_at ?P) w1 w2" using file_calls(1) [OF P(1) 2] by (simp add: file_step_def)
      moreover have "map_of (files w2) ?out = map_of (files w) ?out"
        using os_Remove_files [OF 2] f1 assms(2) by (auto simp: dl_layout_def split: if_splits)
      ultimately show ?thesis using e1 w' clear clr evolves_step by metis
    next
      case True
      obtain r2 w2 where 2: "os_Rename tmp ?out w1 = (r2, w2)" by fastforce
      have e2: "evolves ?P (any_at ?P) w1 w2"
        using os_Rename_evolves [OF 2 P(1,2), of "any_at ?P"] assms(2) P by (auto simp: dl_layout_def)
      show ?thesis
      proof (cases r2)
        case (Some e)
        with assms(1) 1 2 Inr True have w': "w' = w2" "r \<noteq> None" by (auto simp: finish_download_def)
        with e1 e2 os_Rename_err [OF 2 [unfolded Some]] f1 evolves_step show ?thesis
          by (metis same_disk_def)
      next
        case None
        with assms(1) 1 2 Inr True have w': "w' = clearState d w2" "r = None" by (auto simp: finish_download_def)
        obtain c m t s where c: "map_of (files w) tmp = Some (EFile c m t s)"
        proof -
          have "\<exists>c m t s. map_of (files w) tmp = Some (EFile c m t s)"
            using 1 Inr assms(3)
            by (auto simp: hashFile_def os_ReadFile_def syscall_def no_link_def
                split: option.splits sum.splits ent.splits if_splits)
          then show ?thesis using that by blast
        qed
        have "sha256_hex H (bytes_of c) = tgt_DeltaHash tgt" using h(2) [OF Inr c] True by simp
        moreover have "map_of (files w2) ?out = Some (EFile c m t s)"
          using os_Rename_ok [OF 2 [unfolded None]] c f1 by (metis fun_upd_same map_of_put)
        ultimately show ?thesis using e1 e2 w' clear clr evolves_step by metis
      qed
    qed
  qed
  then show "evolves ?P (any_at ?P) w w'"
    "r = None \<Longrightarrow> \<exists>c m t s. map_of (files w') ?out = Some (EFile c m t s) \<and> sha256_hex H (bytes_of c) = tgt_DeltaHash tgt"
    "r \<noteq> None \<Longrightarrow> map_of (files w') ?out = map_of (files w) ?out" by blast+
qed

text \<open>The partial file a download works on: the one the resume state names, or the default.\<close>

definition tmp_of :: "'z downloader \<Rightarrow> fetch_target \<Rightarrow> 'z os_scheme \<Rightarrow> string" where
  "tmp_of d tgt w =
     (case fst (loadState d tgt w) of None \<Rightarrow> tgt_OutPath tgt @ ''.partial'' | Some s \<Rightarrow> ds_TempFile s)"

context delta_transport
begin

lemma Download_result:
  assumes "Download H d c tgt w = (r, w')" "d_transport d = tr"
    and lay: "dl_layout d tgt (tmp_of d tgt w)" "no_link (tmp_of d tgt w) (files w)"
  shows "evolves (dl_paths d tgt (tmp_of d tgt w)) (any_at (dl_paths d tgt (tmp_of d tgt w))) w w' \<and>
    (if r = None
     then \<exists>c m t s. map_of (files w') (tgt_OutPath tgt) = Some (EFile c m t s) \<and>
            sha256_hex H (bytes_of c) = tgt_DeltaHash tgt
     else map_of (files w') (tgt_OutPath tgt) = map_of (files w) (tgt_OutPath tgt))"
proof -
  define tmp where "tmp = tmp_of d tgt w"
  note lay' = lay [folded tmp_def]
  let ?P = "dl_paths d tgt tmp" and ?out = "tgt_OutPath tgt"
  obtain st w1 where 1: "loadState d tgt w = (st, w1)" by fastforce
  have tmp: "(case st of None \<Rightarrow> ?out @ ''.partial'' | Some s \<Rightarrow> ds_TempFile s) = tmp"
    using 1 by (simp add: tmp_def tmp_of_def)
  have f1: "files w1 = files w" and e1: "evolves ?P (any_at ?P) w w1"
    using loadState_quiet [OF 1] by (simp_all add: same_disk_def evolves_same)
  have nl: "no_link tmp (files w1)" using lay'(2) f1 by simp
  have "evolves ?P (any_at ?P) w w' \<and>
    (if r = None
     then \<exists>c m t s. map_of (files w') ?out = Some (EFile c m t s) \<and> sha256_hex H (bytes_of c) = tgt_DeltaHash tgt
     else map_of (files w') ?out = map_of (files w) ?out)"
  proof (cases "dc_MaxRetries (d_cfg d) < 0")
    case True
    with assms(1) 1 e1 f1 show ?thesis
      by (auto simp: Download_def Let_def)
  next
    case False
    obtain r2 w2 where 2: "download_loop d c tgt tmp (nat (dc_MaxRetries (d_cfg d))) 0 (dc_RetryBackoff (d_cfg d))
        (case st of None \<Rightarrow> 0 | Some s \<Rightarrow> ds_BytesReceived s) w1 = (r2, w2)" by fastforce
    have s2: "file_step (loop_paths d tmp) w1 w2" by (rule loop_step [OF 2 assms(2) lay'(1) nl])
    then have e2: "evolves ?P (any_at ?P) w1 w2"
      unfolding file_step_def by (auto intro: evolves_any simp: dl_paths_def loop_paths_def any_at_def)
    have out: "map_of (files w2) ?out = map_of (files w) ?out"
      using file_step_other [OF s2, of ?out] lay'(1) f1 by (auto simp: loop_paths_def dl_layout_def)
    have nl2: "no_link tmp (files w2)" using file_step_no_link [OF s2 _ nl] lay'(1) by (simp add: dl_layout_def)
    have D: "Download H d c tgt w = (case r2 of
        Inl e \<Rightarrow> (Some e, w2)
      | Inr (Some lastErr) \<Rightarrow> (Some (Wrap ''download failed'' lastErr), w2)
      | Inr None \<Rightarrow> finish_download H d tgt tmp w2)"
      using False by (simp only: Download_def Let_def 1 tmp 2 prod.case if_False)
    show ?thesis
    proof (cases "r2 = Inr None")
      case True
      with D assms(1) have "finish_download H d tgt tmp w2 = (r, w')" by simp
      from finish_download_result [OF this lay'(1) nl2] out e1 e2 show ?thesis
        by (auto intro: evolves_step)
    next
      case False
      with D assms(1) have "w' = w2" "r \<noteq> None" by (auto split: sum.splits option.splits)
      with e1 e2 out show ?thesis by (auto intro: evolves_step)
    qed
  qed
  then show ?thesis unfolding tmp_def .
qed

end

section \<open>Resuming from an honest server\<close>

definition is_part :: "bytes \<Rightarrow> bytes \<Rightarrow> bool" where
  "is_part c p \<longleftrightarrow> c = take (length c) p"

lemma is_part_iff: "is_part c p \<longleftrightarrow> (\<exists>z. p = c @ z)"
  unfolding is_part_def by (metis append_eq_conv_conj append_take_drop_id)

lemma is_part_append: "is_part (a @ b) p \<Longrightarrow> is_part a p \<and> is_part b (drop (length a) p)"
  by (auto simp: is_part_iff)

lemma is_part_splice:
  assumes "is_part c p" "off \<le> length c" "is_part d (drop off p)"
  shows "is_part (splice c off d) p \<and> off + length d \<le> length (splice c off d)"
proof -
  obtain z where z: "p = c @ z" using assms(1) by (auto simp: is_part_iff)
  obtain y where y: "drop off p = d @ y" using assms(3) by (auto simp: is_part_iff)
  have p: "p = take off c @ d @ y"
    using append_take_drop_id [of off p, symmetric, unfolded y] z assms(2) by simp
  have s: "splice c off d = take off c @ d @ drop (off + length d) c"
    using assms(2) by (simp add: splice_def)
  show ?thesis
  proof (cases "length c \<le> off + length d")
    case True
    then show ?thesis using p s assms(2) by (auto simp: is_part_iff)
  next
    case False
    have "take (off + length d) p = take off c @ d" using p assms(2) by (subst p) simp
    moreover have "take (off + length d) p = take (off + length d) c" using z False by simp
    ultimately have "splice c off d = c" using s by (metis append_assoc append_take_drop_id)
    with assms(1) False show ?thesis by simp
  qed
qed

text \<open>The partial file holds a beginning of the payload that reaches the resume offset.\<close>

definition holds_part :: "bytes \<Rightarrow> string \<Rightarrow> int \<Rightarrow> tree \<Rightarrow> bool" where
  "holds_part p tmp off fs \<longleftrightarrow>
     (case map_of fs tmp of
        None \<Rightarrow> off = 0
      | Some (EFile c m t s) \<Rightarrow> 0 \<le> off \<and> off \<le> int (length (bytes_of c)) \<and> is_part (bytes_of c) p
      | _ \<Rightarrow> False)"

text \<open>An answer that sends the payload from the offset it reports, to the end unless it breaks off.\<close>

definition honest_answer :: "bytes \<Rightarrow> err + (content list \<times> err option) \<times> int \<Rightarrow> bool" where
  "honest_answer p r \<longleftrightarrow>
     (case r of
        Inl e \<Rightarrow> True
      | Inr ((chunks, rerr), eff) \<Rightarrow>
          (let body = concat (map bytes_of chunks)
           in is_part body (drop (nat eff) p) \<and> (rerr = None \<longrightarrow> length p \<le> nat eff + length body)))"

lemma copy_at_honest:
  "copy_at f off cs rerr w = ((n, e), w') \<Longrightarrow> map_of (files w) f = Some (EFile c m t s) \<Longrightarrow>
   is_part (bytes_of c) p \<Longrightarrow> off \<le> length (bytes_of c) \<Longrightarrow> is_part (concat (map bytes_of cs)) (drop off p) \<Longrightarrow>
   (\<exists>c' m' t' s'. map_of (files w') f = Some (EFile c' m' t' s') \<and> is_part (bytes_of c') p \<and>
      off + n \<le> length (bytes_of c')) \<and>
   (e = None \<longrightarrow> rerr = None \<and> n = length (concat (map bytes_of cs)))"
proof (induction f off cs rerr w arbitrary: n c t s rule: copy_at.induct)
  case (1 f off rerr w)
  then show ?case by auto
next
  case (2 f off x cs rerr w)
  let ?b = "bytes_of x"
  have part: "is_part ?b (drop off p)" "is_part (concat (map bytes_of cs)) (drop (off + length ?b) p)"
    using is_part_append [of ?b "concat (map bytes_of cs)" "drop off p"] 2(6) by (simp_all add: add.commute)
  have wr: "\<exists>c1 t1 s1. map_of (files (do_write_at f off d w0)) f = Some (EFile c1 m t1 s1) \<and> is_part (bytes_of c1) p \<and>
      off + length d \<le> length (bytes_of c1)"
    if "files w0 = files w" "is_part d (drop off p)" for d and w0 :: "'a os_scheme"
    using that 2(3) is_part_splice [OF 2(4,5) that(2)] 2(4,5)
    by (cases "d = []") (auto simp: do_write_at_def)
  show ?case
  proof (cases "fault w")
    case (Some ek)
    obtain x1 k where ek: "ek = (x1, k)" by fastforce
    have "is_part (take k ?b) (drop off p)"
      using is_part_append [of "take k ?b" "drop k ?b"] part(1) by simp
    from wr [of "tick w" "take k ?b", OF _ this] 2(2) Some ek show ?thesis
      by (auto simp: os_WriteAt_def min.commute)
  next
    case None
    let ?w1 = "do_write_at f off ?b (tick w)"
    from wr [of "tick w" ?b, OF _ part(1)] obtain c1 t1 s1 where
      w1: "map_of (files ?w1) f = Some (EFile c1 m t1 s1)" "is_part (bytes_of c1) p" "off + length ?b \<le> length (bytes_of c1)"
      by auto
    have a: "os_WriteAt f off ?b w = ((length ?b, None), ?w1)" using None by (simp add: os_WriteAt_def)
    obtain n2 where r: "copy_at f (off + length ?b) cs rerr ?w1 = ((n2, e), w')" "n = length ?b + n2"
      using 2(2) a by (auto split: prod.splits)
    from 2(1) [OF a [symmetric] refl refl r(1) w1 part(2)] r(2) show ?thesis
      by (auto simp: add.assoc)
  qed
qed

lemma is_part_full: "is_part c p \<Longrightarrow> length p \<le> length c \<Longrightarrow> c = p"
  by (auto simp: is_part_iff)

lemma holds_part_file:
  "holds_part p tmp off fs \<Longrightarrow> map_of fs tmp = Some e \<Longrightarrow>
   \<exists>c m t s. e = EFile c m t s \<and> 0 \<le> off \<and> off \<le> int (length (bytes_of c)) \<and> is_part (bytes_of c) p"
  by (cases e) (auto simp: holds_part_def)

lemma holds_part_no_link: "holds_part p tmp off fs \<Longrightarrow> no_link tmp fs"
  by (auto simp: holds_part_def no_link_def split: option.splits ent.splits)

lemma holds_part_nonneg: "holds_part p tmp off fs \<Longrightarrow> 0 \<le> off"
  by (auto simp: holds_part_def split: option.splits ent.splits)

lemma holds_part_cong: "map_of fs tmp = map_of gs tmp \<Longrightarrow> holds_part p tmp off fs = holds_part p tmp off gs"
  by (simp add: holds_part_def)

lemma open_part:
  assumes "os_OpenCreate tmp m w = (r, w')" "holds_part p tmp off (files w)"
  shows "case r of
      Inl e \<Rightarrow> files w' = files w
    | Inr f \<Rightarrow> f = tmp \<and> (\<exists>c m t s. map_of (files w') tmp = Some (EFile c m t s)) \<and> holds_part p tmp off (files w')"
proof (cases "map_of (files w) tmp")
  case None
  with assms show ?thesis
    by (auto simp: os_OpenCreate_def syscall_def holds_part_def is_part_iff split: option.splits if_splits)
next
  case (Some e)
  from holds_part_file [OF assms(2) Some] obtain c k t s where "e = EFile c k t s" by blast
  with assms Some show ?thesis
    by (auto simp: os_OpenCreate_def syscall_def holds_part_def split: option.splits if_splits)
qed

lemma close_files [simp]: "files (snd (os_Close w)) = files w"
  by (rule os_Close_files [OF prod.collapse [symmetric]])

lemma receive_honest:
  assumes eq: "receive tmp ch re eff off w = ((no, e), w')" and part: "holds_part p tmp off (files w)"
    and eff: "eff = off \<or> eff = 0" and honest: "honest_answer p (Inr ((ch, re), eff))"
  shows "holds_part p tmp no (files w') \<and> (e = None \<longrightarrow> int (length p) \<le> no)"
proof -
  obtain r1 w1 where 1: "os_OpenCreate tmp 420 w = (r1, w1)" by fastforce
  note open1 = open_part [OF 1 part]
  show ?thesis
  proof (cases r1)
    case (Inl x)
    with eq 1 open1 part show ?thesis by (auto simp: receive_def)
  next
    case (Inr f)
    with open1 have f: "f = tmp" and p1: "holds_part p tmp off (files w1)" by auto
    from open1 Inr obtain c m t s where c: "map_of (files w1) tmp = Some (EFile c m t s)" by auto
    obtain r2 w2 where 2: "(if eff \<noteq> off then os_Truncate0 tmp w1 else (None, w1)) = (r2, w2)" by fastforce
    show ?thesis
    proof (cases r2)
      case (Some x)
      then have "files w2 = files w1"
        using 2 by (auto simp: os_Truncate0_def syscall_def split: if_splits option.splits)
      with eq 1 2 Inr f Some p1 show ?thesis by (auto simp: receive_def holds_part_def)
    next
      case None
      define o' where "o' = (if eff \<noteq> off then 0 else off)"
      have p2: "holds_part p tmp o' (files w2)"
        using 2 None p1 c by (auto simp: o'_def os_Truncate0_def syscall_def holds_part_def is_part_iff
            split: if_splits option.splits)
      have "o' = eff" using eff by (auto simp: o'_def)
      obtain c2 m2 t2 s2 where c2: "map_of (files w2) tmp = Some (EFile c2 m2 t2 s2)"
        using 2 None c by (auto simp: os_Truncate0_def syscall_def split: if_splits option.splits)
      obtain r3 w3 where 3: "os_Seek o' w2 = (r3, w3)" by fastforce
      have f3: "files w3 = files w2" using os_Seek_reads [OF 3] by (simp add: same_disk_def)
      show ?thesis
      proof (cases r3)
        case (Some x)
        with eq 1 2 3 Inr f None p2 f3 show ?thesis by (auto simp: receive_def Let_def o'_def [symmetric])
      next
        case none3: None
        obtain n e' w4 where 4: "copy_at tmp (nat o') ch re w3 = ((n, e'), w4)" by (metis prod.collapse)
        have res: "no = o' + int n" "e = e'" "files w' = files w4"
          using eq 1 2 3 4 Inr f None none3 by (auto simp: receive_def Let_def o'_def [symmetric])
        have off': "0 \<le> o'" "o' \<le> int (length (bytes_of c2))" "is_part (bytes_of c2) p"
          using p2 c2 by (auto simp: holds_part_def)
        have body: "is_part (concat (map bytes_of ch)) (drop (nat o') p)"
          "re = None \<Longrightarrow> length p \<le> nat o' + length (concat (map bytes_of ch))"
          using honest \<open>o' = eff\<close> by (auto simp: honest_answer_def Let_def)
        have "nat o' \<le> length (bytes_of c2)" using off' by simp
        from copy_at_honest [OF 4 _ off'(3) this body(1), of m2 t2 s2] c2 f3
        obtain c4 m4 t4 s4 where "map_of (files w4) tmp = Some (EFile c4 m4 t4 s4)" "is_part (bytes_of c4) p"
          "nat o' + n \<le> length (bytes_of c4)" "e' = None \<longrightarrow> re = None \<and> n = length (concat (map bytes_of ch))"
          by auto
        with res body(2) off'(1) show ?thesis by (auto simp: holds_part_def)
      qed
    qed
  qed
qed

lemma saveState_other:
  assumes "dl_layout d tgt tmp"
  shows "map_of (files (saveState d tgt tmp off w)) tmp = map_of (files w) tmp"
  using file_step_other [OF saveState_step [OF assms, of "insert (dc_StatePath (d_cfg d)) tmps"], of tmp] assms
  by (auto simp: dl_layout_def)

lemma after_failure_honest:
  assumes "after_failure d tgt tmp no err w = (off, w')" "dl_layout d tgt tmp" "holds_part p tmp no (files w)"
  shows "holds_part p tmp off (files w')"
proof (cases "errors_Is err ErrResumeUnsupported")
  case False
  with assms(1) have "off = no" "w' = saveState d tgt tmp no w" by (auto simp: after_failure_def)
  with assms(3) saveState_other [OF assms(2)] show ?thesis by (simp add: holds_part_def)
next
  case True
  obtain r1 w1 where 1: "os_Remove tmp w = (r1, w1)" by fastforce
  have w': "off = 0" "w' = saveState d tgt tmp 0 w1" using assms(1) True 1 by (auto simp: after_failure_def)
  have "holds_part p tmp 0 (files w1)"
    using os_Remove_files [OF 1] assms(3)
    by (auto simp: holds_part_def split: option.splits ent.splits if_splits)
  with w' saveState_other [OF assms(2)] show ?thesis by (simp add: holds_part_def)
qed

definition honest_transport :: "bytes \<Rightarrow> string \<Rightarrow> 'z transport \<Rightarrow> bool" where
  "honest_transport p u tr \<longleftrightarrow> (\<forall>c off w. honest_answer p (fst (t_FetchRange tr c u off w)))"

context delta_transport
begin

lemma attempt_honest:
  assumes "attempt d c tgt tmp off w = ((no, e), w')" "d_transport d = tr"
    and "honest_transport p (tgt_URL tgt) tr" "holds_part p tmp off (files w)"
  shows "holds_part p tmp no (files w') \<and> (e = None \<longrightarrow> int (length p) \<le> no)"
proof -
  obtain r1 w1 where 1: "t_FetchRange tr c (tgt_URL tgt) off w = (r1, w1)" by fastforce
  have h: "honest_answer p r1" using assms(3) 1 unfolding honest_transport_def by (metis fst_conv)
  have p1: "holds_part p tmp off (files w1)" using fetch_files [OF 1] assms(4) by simp
  show ?thesis
  proof (cases r1)
    case (Inl x)
    with assms(1,2) 1 p1 show ?thesis by (auto simp: attempt_receive)
  next
    case (Inr b)
    obtain ch re eff where b: "b = ((ch, re), eff)" by (metis prod.collapse)
    with assms(1,2) 1 Inr have "receive tmp ch re eff off w1 = ((no, e), w')" by (simp add: attempt_receive)
    then show ?thesis
      by (rule receive_honest) (use p1 h fetch_offset [OF 1] Inr b in \<open>auto simp: offset_ok_def\<close>)
  qed
qed

lemma loop_honest:
  "download_loop d c tgt tmp n i backoff off w = (Inr None, w') \<Longrightarrow> d_transport d = tr \<Longrightarrow> dl_layout d tgt tmp \<Longrightarrow>
   honest_transport p (tgt_URL tgt) tr \<Longrightarrow> holds_part p tmp off (files w) \<Longrightarrow>
   holds_part p tmp (int (length p)) (files w')"
proof (induction n arbitrary: i backoff off w)
  case (0 i backoff off w)
  obtain no e1 w1 where 1: "attempt d c tgt tmp off w = ((no, e1), w1)" by (metis prod.collapse)
  have "e1 = None" "w' = w1"
    using 0(1) 1 by (auto simp: download_loop_step [of _ _ _ _ 0] split: option.splits prod.splits)
  with attempt_honest [OF 1 0(2,4,5)] show ?case
    by (auto simp: holds_part_def split: option.splits ent.splits)
next
  case (Suc n i backoff off w)
  obtain no e1 w1 where 1: "attempt d c tgt tmp off w = ((no, e1), w1)" by (metis prod.collapse)
  note h1 = attempt_honest [OF 1 Suc.prems(2,4,5)]
  have nc: "ctx_Err c w = None"
    using Suc.prems(1) by (auto simp: download_loop_step [of _ _ _ _ "Suc n"] split: option.splits)
  show ?case
  proof (cases e1)
    case None
    with Suc.prems(1) 1 nc have "w' = w1" by (simp add: download_loop_step [of _ _ _ _ "Suc n"])
    with h1 None show ?thesis by (auto simp: holds_part_def split: option.splits ent.splits)
  next
    case (Some e)
    obtain o2 w2 where 2: "after_failure d tgt tmp no e w1 = (o2, w2)" by fastforce
    obtain r3 w3 where 3: "select_after c (next_wait d i backoff e) w2 = (r3, w3)" by fastforce
    have f3: "files w3 = files w2"
      using 3 by (auto simp: select_after_def os_Sleep_def split: option.splits if_splits)
    have p3: "holds_part p tmp o2 (files w3)"
      using after_failure_honest [OF 2 Suc.prems(3)] h1 f3 by simp
    have "download_loop d c tgt tmp n (Suc i) (next_backoff backoff) o2 w3 = (Inr None, w')"
      using Suc.prems(1) 1 2 3 nc Some
      by (auto simp: download_loop_step [of _ _ _ _ "Suc n"] split: option.splits)
    from Suc.IH [OF this Suc.prems(2-4) p3] show ?thesis .
  qed
qed

end

lemma finish_honest:
  assumes "finish_download H d tgt tmp w = (r, w')" "dl_layout d tgt tmp"
    and c: "map_of (files w) tmp = Some (EFile c m t s)" "sha256_hex H (bytes_of c) = tgt_DeltaHash tgt"
  shows "r \<noteq> Some (Wrap ''got another hash'' ErrHashMismatch)"
    "r = None \<Longrightarrow> map_of (files w') (tgt_OutPath tgt) = Some (EFile c m t s)"
proof -
  obtain r1 w1 where 1: "hashFile H tmp w = (r1, w1)" by fastforce
  have f1: "files w1 = files w" using hashFile_result(1) [OF 1] by (simp add: same_disk_def)
  have h: "r1 = Inr h \<Longrightarrow> h = tgt_DeltaHash tgt" for h using hashFile_result(2) [OF 1 _ c(1)] c(2) by simp
  obtain r2 w2 where 2: "os_Rename tmp (tgt_OutPath tgt) w1 = (r2, w2)" by fastforce
  have *: "(r, w') = (case r1 of Inl e \<Rightarrow> (Some (Wrap ''hash downloaded delta'' e), w1)
    | Inr a \<Rightarrow> (case r2 of Some e \<Rightarrow> (Some (Wrap ''finalize delta'' e), w2) | None \<Rightarrow> (None, clearState d w2)))"
    using assms(1) 1 2 h by (auto simp: finish_download_def split: sum.splits option.splits)
  then show "r \<noteq> Some (Wrap ''got another hash'' ErrHashMismatch)"
    by (auto split: sum.splits option.splits)
  assume "r = None"
  with * have "r2 = None" "w' = clearState d w2" by (auto split: sum.splits option.splits)
  moreover have "map_of (files (clearState d w2)) (tgt_OutPath tgt) = map_of (files w2) (tgt_OutPath tgt)"
    using assms(2) os_Remove_files [OF prod.collapse [symmetric], of "dc_StatePath (d_cfg d)" w2]
    by (auto simp: clearState_def dl_layout_def split: if_splits)
  ultimately show "map_of (files w') (tgt_OutPath tgt) = Some (EFile c m t s)"
    using os_Rename_ok [OF 2 [unfolded \<open>r2 = None\<close>]] c(1) f1 by (metis fun_upd_same map_of_put)
qed

definition off_of :: "'z downloader \<Rightarrow> fetch_target \<Rightarrow> 'z os_scheme \<Rightarrow> int" where
  "off_of d tgt w = (case fst (loadState d tgt w) of None \<Rightarrow> 0 | Some s \<Rightarrow> ds_BytesReceived s)"

context delta_transport
begin

lemma Download_honest:
  assumes "Download H d c tgt w = (r, w')" "d_transport d = tr" "dl_layout d tgt (tmp_of d tgt w)"
    and "honest_transport p (tgt_URL tgt) tr" "sha256_hex H p = tgt_DeltaHash tgt"
    and part: "holds_part p (tmp_of d tgt w) (off_of d tgt w) (files w)"
    and ne: "p \<noteq> []"
  shows "r \<noteq> Some (Wrap ''got another hash'' ErrHashMismatch) \<and>
    (r = None \<longrightarrow> (\<exists>f m t s. map_of (files w') (tgt_OutPath tgt) = Some (EFile f m t s) \<and> bytes_of f = p))"
proof -
  define tmp where "tmp = tmp_of d tgt w"
  define off where "off = off_of d tgt w"
  obtain st w1 where 1: "loadState d tgt w = (st, w1)" by fastforce
  have tmp: "(case st of None \<Rightarrow> tgt_OutPath tgt @ ''.partial'' | Some s \<Rightarrow> ds_TempFile s) = tmp"
    and off: "(case st of None \<Rightarrow> 0 | Some s \<Rightarrow> ds_BytesReceived s) = off"
    using 1 by (simp_all add: tmp_def tmp_of_def off_def off_of_def)
  have p1: "holds_part p tmp off (files w1)"
    using loadState_quiet [OF 1] part by (simp add: same_disk_def tmp_def off_def)
  show ?thesis
  proof (cases "dc_MaxRetries (d_cfg d) < 0")
    case True
    with assms(1) 1 show ?thesis by (auto simp: Download_def Let_def)
  next
    case False
    obtain r2 w2 where 2: "download_loop d c tgt tmp (nat (dc_MaxRetries (d_cfg d))) 0 (dc_RetryBackoff (d_cfg d)) off w1 = (r2, w2)"
      by fastforce
    have D: "(r, w') = (case r2 of
        Inl e \<Rightarrow> (Some e, w2)
      | Inr (Some lastErr) \<Rightarrow> (Some (Wrap ''download failed'' lastErr), w2)
      | Inr None \<Rightarrow> finish_download H d tgt tmp w2)"
      using False assms(1) [symmetric]
      by (simp only: Download_def Let_def 1 tmp off 2 prod.case if_False)
    show ?thesis
    proof (cases r2)
      case (Inl e)
      have "e = Canceled" using loop_cancel [OF 2 [unfolded Inl]] .
      with D Inl show ?thesis by simp
    next
      case (Inr x)
      show ?thesis
      proof (cases x)
        case (Some e)
        with D Inr show ?thesis by simp
      next
        case None
        have "holds_part p tmp (int (length p)) (files w2)"
          using loop_honest [OF 2 [unfolded Inr None] assms(2) _ assms(4) p1] assms(3) by (simp add: tmp_def)
        then obtain f m t s where f: "map_of (files w2) tmp = Some (EFile f m t s)" "bytes_of f = p"
          using ne is_part_full by (fastforce simp: holds_part_def split: option.splits ent.splits)
        from D Inr None have "finish_download H d tgt tmp w2 = (r, w')" by simp
        from finish_honest [OF this _ f(1)] assms(3,5) f show ?thesis by (auto simp: tmp_def)
      qed
    qed
  qed
qed

end

section \<open>Properties\<close>

text \<open>The transports of the program.\<close>

definition is_transport :: "'z net \<Rightarrow> CoAPOptions \<Rightarrow> 'z transport \<Rightarrow> bool" where
  "is_transport net o' tr \<longleftrightarrow> tr = HTTPTransport net \<or> tr = CoAPTransport net o'"

text \<open>A network whose first answer breaks off after two bytes, and a device that resumes there.\<close>

definition sample_net :: "nat net" where
  "sample_net =
     \<lparr>http_Do = (\<lambda>c req z.
        (Inr (case rq_Range req of
           None \<Rightarrow> \<lparr>rs_Status = 200, rs_Body = (if z = 0 then ([Raw ''ab''], Some EIO) else ([Raw ''abcd''], None))\<rparr>
         | Some off \<Rightarrow> \<lparr>rs_Status = 206, rs_Body = ([Raw (drop (nat off) ''abcd'')], None)\<rparr>), 1, Suc z)),
      udp_Dial = (\<lambda>h os z. (Some EIO, 0, z)),
      coap_Get = (\<lambda>c h p z. (Inl EIO, 0, z)),
      coap_Post = (\<lambda>c h p b z. (Inl EIO, 0, z))\<rparr>"

definition sample_downloader :: "nat downloader" where
  "sample_downloader =
     NewDownloader (HTTPTransport sample_net)
       \<lparr>dc_StatePath = ''/s/st'', dc_MaxRetries = 0, dc_RetryBackoff = 0\<rparr> (\<lambda>i. 0)"

definition sample_target :: fetch_target where
  "sample_target =
     \<lparr>tgt_URL = ''http://h/d'', tgt_DeltaHash = ''61626364'', tgt_TotalSize = 4, tgt_OutPath = ''/s/delta''\<rparr>"

definition sample_dl_world :: "nat os_scheme" where
  "sample_dl_world =
     \<lparr>files = [(''/s'', EDir), (''/s/delta.partial'', EFile (Raw ''ab'') 420 0 False),
        (''/s/st'', EFile (Json (dstate_to_json \<lparr>ds_DeltaHash = ''61626364'', ds_BytesReceived = 2,
             ds_TempFile = ''/s/delta.partial'', ds_Transport = ''http''\<rparr>)) 420 0 True)],
      undo = [], faults = [], clock = 0, rand = [1, 2, 3], hist = [], \<dots> = 1\<rparr>"

text \<open>C7. Whatever the network sends and whichever system call fails: when \<open>Download\<close> returns no error,
  the output path holds a file with the digest of the manifest; when it returns one, the output path is
  as before. Only the partial file, the output, the resume state and temporary files are touched.\<close>

theorem Download_verified:
  assumes "is_transport net o' (d_transport d)"
    and "dl_layout d tgt (tmp_of d tgt w)" "no_link (tmp_of d tgt w) (files w)"
  shows "case Download H d c tgt w of (r, w') \<Rightarrow>
    evolves (dl_paths d tgt (tmp_of d tgt w)) (any_at (dl_paths d tgt (tmp_of d tgt w))) w w' \<and>
    (if r = None
     then \<exists>f m t s. map_of (files w') (tgt_OutPath tgt) = Some (EFile f m t s) \<and>
            sha256_hex H (bytes_of f) = tgt_DeltaHash tgt
     else map_of (files w') (tgt_OutPath tgt) = map_of (files w) (tgt_OutPath tgt))"
proof -
  obtain r w' where eq: "Download H d c tgt w = (r, w')" by fastforce
  from assms(1) show ?thesis unfolding is_transport_def
  proof
    assume "d_transport d = HTTPTransport net"
    from http.Download_result [OF eq this assms(2,3)] show ?thesis unfolding eq prod.case .
  next
    assume "d_transport d = CoAPTransport net o'"
    from coap.Download_result [OF eq this assms(2,3)] show ?thesis unfolding eq prod.case .
  qed
qed

definition no_tuning :: CoAPOptions where
  "no_tuning = \<lparr>DialTimeout = 0, ACKTimeout = 0, MaxRetransmits = 0, BlockSize = 0, Keepalive = 0\<rparr>"

lemma sample_download_facts:
  "is_transport sample_net no_tuning (d_transport sample_downloader)"
  "tmp_of sample_downloader sample_target sample_dl_world = ''/s/delta.partial''"
  "off_of sample_downloader sample_target sample_dl_world = 2"
  "dl_layout sample_downloader sample_target ''/s/delta.partial''"
  "no_link ''/s/delta.partial'' (files sample_dl_world)"
  "fst (Download id sample_downloader None sample_target sample_dl_world) = None"
proof -
  show "is_transport sample_net no_tuning (d_transport sample_downloader)"
    by (simp add: is_transport_def sample_downloader_def NewDownloader_def Let_def)
qed code_simp+

theorem Download_verified_witness:
  "fst (Download id sample_downloader None sample_target sample_dl_world) = None \<and>
   (\<exists>f m t s. map_of (files (snd (Download id sample_downloader None sample_target sample_dl_world))) ''/s/delta'' =
      Some (EFile f m t s) \<and> sha256_hex id (bytes_of f) = ''61626364'')"
proof -
  note f = sample_download_facts
  have "tgt_OutPath sample_target = ''/s/delta''" "tgt_DeltaHash sample_target = ''61626364''"
    by (simp_all add: sample_target_def)
  then show ?thesis
    using Download_verified [OF f(1), of sample_target sample_dl_world id None] f by (simp add: split_beta)
qed




text \<open>
  A partial file left over from another, longer payload: the transfer starts at offset zero, the server
  answers from offset zero, nothing is truncated, and the old tail stays behind the new bytes. The
  complete transfer is thrown away with a hash mismatch.
\<close>

lemma stale_partial_poisons_download:
  "fst (Download id sample_downloader None sample_target
     (sample_dl_world\<lparr>files := [(''/s'', EDir), (''/s/delta.partial'', EFile (Raw ''uvwxyz'') 420 0 True)]\<rparr>)) =
   Some (Wrap ''got another hash'' ErrHashMismatch)"
  by code_simp

end
