(* ===== verification/Watchdog.thy ===== *)
theory Watchdog
  imports Atomicio Protocol
begin

text \<open>
  The watchdog of the agent (\<open>pkg/agent/watchdog.go\<close>): the persistent boot counter and the health
  check window after a swap. The health
  checker is an argument: a step on the world that gets the context and the deadline of its attempt.
\<close>

section \<open>Definitions\<close>

definition DefaultWatchdogRetries :: int where "DefaultWatchdogRetries = 3"
definition DefaultWatchdogMaxBoots :: int where "DefaultWatchdogMaxBoots = 2"
definition BootCountFileName :: string where "BootCountFileName = ''.boot_count''"
definition ErrBootCountExceeded :: err where
  "ErrBootCountExceeded = Sentinel ''boot count exceeded for current version''"

type_synonym 'z checker = "ctx \<Rightarrow> int \<Rightarrow> 'z os_scheme \<Rightarrow> err option \<times> 'z os_scheme"

text \<open>The default checker runs a heartbeat function when it has one.\<close>

definition DefaultHealthChecker_Check :: "'z checker option \<Rightarrow> 'z checker" where
  "DefaultHealthChecker_Check hb c deadline w =
     (case hb of
        None \<Rightarrow> (Some (Msg ''default health checker: heartbeat func not configured''), w)
      | Some f \<Rightarrow> f c deadline w)"

subsection \<open>BootCounter\<close>

record bootCountState =
  VersionHash :: string
  Count :: int
  LastBootUnix :: int

definition zero_boot :: bootCountState where
  "zero_boot = \<lparr>VersionHash = '''', Count = 0, LastBootUnix = 0\<rparr>"

definition boot_to_json :: "bootCountState \<Rightarrow> json" where
  "boot_to_json st =
     JObj [(''version_hash'', JStr (VersionHash st)), (''count'', JInt (Count st)),
           (''last_boot_unix'', JInt (LastBootUnix st))]"

definition boot_of_json :: "json \<Rightarrow> bootCountState option" where
  "boot_of_json j =
     (case struct_fields j of
        None \<Rightarrow> None
      | Some fs \<Rightarrow>
          (case (get_str fs ''version_hash'', get_int fs ''count'', get_int fs ''last_boot_unix'') of
             (Some h, Some c, Some t) \<Rightarrow> Some \<lparr>VersionHash = h, Count = c, LastBootUnix = t\<rparr>
           | _ \<Rightarrow> None))"

definition unmarshal_boot :: "content \<Rightarrow> bootCountState option" where
  "unmarshal_boot c = (case parse_json c of None \<Rightarrow> None | Some j \<Rightarrow> boot_of_json j)"

definition NewBootCounter :: "string \<Rightarrow> 'z os_scheme \<Rightarrow> (err + string) \<times> 'z os_scheme" where
  "NewBootCounter path w =
     (if path = '''' then (Inl (Msg ''boot counter path is required''), w)
      else if path_dir path \<noteq> '''' then
        (case os_Stat (path_dir path) w of
           (Inl e, w) \<Rightarrow> (Inl (Wrap ''stat boot counter dir'' e), w)
         | (Inr info, w) \<Rightarrow>
             if info \<noteq> EDir then (Inl (Msg ''boot counter dir is not a directory''), w) else (Inr path, w))
      else (Inr path, w))"

definition readLocked :: "string \<Rightarrow> 'z os_scheme \<Rightarrow> (err + bootCountState) \<times> 'z os_scheme" where
  "readLocked path w =
     (case os_ReadFile path w of
        (Inl e, w) \<Rightarrow>
          if errors_Is e ENOENT then (Inr zero_boot, w) else (Inl (Wrap ''read boot counter'' e), w)
      | (Inr data, w) \<Rightarrow>
          (case unmarshal_boot data of
             None \<Rightarrow> (Inr zero_boot, w)
           | Some st \<Rightarrow> (Inr st, w)))"

definition writeLocked :: "string \<Rightarrow> bootCountState \<Rightarrow> 'z os_scheme \<Rightarrow> err option \<times> 'z os_scheme" where
  "writeLocked path st w =
     (case WriteFile path (Json (boot_to_json st)) 420 w of
        (Some e, w) \<Rightarrow> (Some (Wrap ''write boot counter'' e), w)
      | (None, w) \<Rightarrow> (None, w))"

definition bc_Current :: "string \<Rightarrow> 'z os_scheme \<Rightarrow> (err + string \<times> int) \<times> 'z os_scheme" where
  "bc_Current path w =
     (case readLocked path w of
        (Inl e, w) \<Rightarrow> (Inl e, w)
      | (Inr st, w) \<Rightarrow> (Inr (VersionHash st, Count st), w))"

text \<open>\<open>time.Now().Unix()\<close> is an \<open>int64\<close>.\<close>

definition time_Unix :: "'z os_scheme \<Rightarrow> int" where
  "time_Unix w = wrap64 (os_Now w div Second)"

definition bc_Increment :: "string \<Rightarrow> string \<Rightarrow> 'z os_scheme \<Rightarrow> (err + int) \<times> 'z os_scheme" where
  "bc_Increment path versionHash w =
     (if versionHash = '''' then (Inl (Msg ''version hash is required''), w)
      else
        (case readLocked path w of
           (Inl e, w) \<Rightarrow> (Inl e, w)
         | (Inr st, w) \<Rightarrow>
             (let st = (if VersionHash st = versionHash then st\<lparr>Count := wrap64 (Count st + 1)\<rparr>
                        else st\<lparr>VersionHash := versionHash, Count := 1\<rparr>);
                  st = st\<lparr>LastBootUnix := time_Unix w\<rparr>
              in case writeLocked path st w of
                   (Some e, w) \<Rightarrow> (Inl e, w)
                 | (None, w) \<Rightarrow> (Inr (Count st), w))))"

definition bc_Reset :: "string \<Rightarrow> 'z os_scheme \<Rightarrow> err option \<times> 'z os_scheme" where
  "bc_Reset path w =
     (case os_Remove path w of
        (Some e, w) \<Rightarrow> if \<not> errors_Is e ENOENT then (Some (Wrap ''reset boot counter'' e), w) else (None, w)
      | (None, w) \<Rightarrow> (None, w))"

subsection \<open>Watchdog\<close>

record watchdog =
  wd_counter :: string
  wd_timeout :: int
  wd_retries :: int
  wd_maxBoots :: int

record watchdog_config =
  wc_Timeout :: int
  wc_Retries :: int
  wc_MaxBoots :: int

definition NewWatchdog :: "string option \<Rightarrow> 'z checker option \<Rightarrow> watchdog_config \<Rightarrow> err + watchdog" where
  "NewWatchdog counter checker cfg =
     (case counter of
        None \<Rightarrow> Inl (Msg ''watchdog: boot counter is required'')
      | Some path \<Rightarrow>
          (case checker of
             None \<Rightarrow> Inl (Msg ''watchdog: health checker is required'')
           | Some _ \<Rightarrow> Inr
            \<lparr>wd_counter = path,
             wd_timeout = (if wc_Timeout cfg \<le> 0 then 60 * Second else wc_Timeout cfg),
             wd_retries = (if wc_Retries cfg \<le> 0 then DefaultWatchdogRetries else wc_Retries cfg),
             wd_maxBoots = (if wc_MaxBoots cfg \<le> 0 then DefaultWatchdogMaxBoots else wc_MaxBoots cfg)\<rparr>))"

definition CheckBoot :: "watchdog \<Rightarrow> string \<Rightarrow> 'z os_scheme \<Rightarrow> (int \<times> err option) \<times> 'z os_scheme" where
  "CheckBoot wd versionHash w =
     (case bc_Increment (wd_counter wd) versionHash w of
        (Inl e, w) \<Rightarrow> ((0, Some (Wrap ''watchdog: increment boot count'' e)), w)
      | (Inr count, w) \<Rightarrow>
          if count > wd_maxBoots wd
          then ((count, Some (Wrap ''version, count, max'' ErrBootCountExceeded)), w)
          else ((count, None), w))"

text \<open>The loop of \<open>WaitForHealth\<close>; \<open>n\<close> attempts are left after the current one.\<close>

fun health_loop ::
  "'z checker \<Rightarrow> ctx \<Rightarrow> int \<Rightarrow> int \<Rightarrow> nat \<Rightarrow> 'z os_scheme \<Rightarrow> err option \<times> 'z os_scheme" where
  "health_loop check c slot deadline n w =
     (case ctx_Err c w of
        Some e \<Rightarrow> (Some e, w)
      | None \<Rightarrow>
          (let slotDeadline = (if clock w + slot > deadline then deadline else clock w + slot)
           in case check c slotDeadline w of
                (None, w) \<Rightarrow> (None, w)
              | (Some e, w) \<Rightarrow>
                  (case n of
                     0 \<Rightarrow> (Some (Wrap ''watchdog: health check failed'' e), w)
                   | Suc m \<Rightarrow>
                       (let remaining = slotDeadline - clock w
                        in if remaining > 0 then
                             (case select_after c remaining w of
                                (Some e, w) \<Rightarrow> (Some e, w)
                              | (None, w) \<Rightarrow> health_loop check c slot deadline m w)
                           else health_loop check c slot deadline m w))))"

declare health_loop.simps [simp del]

definition WaitForHealth :: "watchdog \<Rightarrow> 'z checker \<Rightarrow> ctx \<Rightarrow> 'z os_scheme \<Rightarrow> err option \<times> 'z os_scheme" where
  "WaitForHealth wd check c w =
     (if wd_retries wd \<le> 0 then (Some (Msg ''watchdog: retries must be positive''), w)
      else
        (let slot = wd_timeout wd div wd_retries wd;
             slot = (if slot \<le> 0 then wd_timeout wd else slot);
             deadline = clock w + wd_timeout wd
         in health_loop check c slot deadline (nat (wd_retries wd) - 1) w))"

definition Confirm :: "watchdog \<Rightarrow> 'z os_scheme \<Rightarrow> err option \<times> 'z os_scheme" where
  "Confirm wd w =
     (case bc_Reset (wd_counter wd) w of
        (Some e, w) \<Rightarrow> (Some (Wrap ''watchdog: confirm'' e), w)
      | (None, w) \<Rightarrow> (None, w))"

section \<open>The persisted counter\<close>

definition boot_stored :: "string \<Rightarrow> tree \<Rightarrow> bootCountState" where
  "boot_stored path fs =
     (case map_of fs path of
        Some (EFile c m t s) \<Rightarrow> (case unmarshal_boot c of None \<Rightarrow> zero_boot | Some st \<Rightarrow> st)
      | _ \<Rightarrow> zero_boot)"

text \<open>The counter's path is a file or nothing, as the program leaves it.\<close>

definition plain_path :: "string \<Rightarrow> tree \<Rightarrow> bool" where
  "plain_path p fs \<longleftrightarrow> (case map_of fs p of None \<Rightarrow> True | Some (EFile c m t s) \<Rightarrow> True | _ \<Rightarrow> False)"

lemma boot_json_roundtrip:
  "int64 (Count st) \<Longrightarrow> int64 (LastBootUnix st) \<Longrightarrow> unmarshal_boot (Json (boot_to_json st)) = Some st"
proof -
  have l: "to_lower ''version_hash'' = ''version_hash''" "to_lower ''count'' = ''count''"
    "to_lower ''last_boot_unix'' = ''last_boot_unix''" by code_simp+
  assume "int64 (Count st)" "int64 (LastBootUnix st)"
  then show ?thesis
    by (simp add: unmarshal_boot_def boot_of_json_def boot_to_json_def get_str_def get_int_def jfield_Cons l)
qed

lemma boot_of_json_int64: "boot_of_json j = Some st \<Longrightarrow> int64 (Count st)"
  by (auto simp: boot_of_json_def get_int_def int64_def split: option.splits json.splits if_splits)

lemma boot_stored_int64: "int64 (Count (boot_stored p fs))"
proof -
  have z: "int64 0" by (simp add: int64_def)
  show ?thesis using boot_of_json_int64 z
    by (auto simp: boot_stored_def unmarshal_boot_def zero_boot_def split: option.split ent.split)
qed

lemma readLocked_result:
  assumes "readLocked p w = (r, w')"
  shows "same_disk w w' \<and> same_rest w w'"
    "r = Inr st \<Longrightarrow> plain_path p (files w) \<Longrightarrow> st = boot_stored p (files w)"
    "fault w = None \<Longrightarrow> plain_path p (files w) \<Longrightarrow> r = Inr (boot_stored p (files w))"
proof -
  obtain r1 w1 where 1: "os_ReadFile p w = (r1, w1)" by fastforce
  have "w' = w1" using assms 1 by (auto simp: readLocked_def split: sum.splits if_splits option.splits)
  with os_reads(3) [OF 1] show "same_disk w w' \<and> same_rest w w'" by simp
  show "r = Inr st \<Longrightarrow> plain_path p (files w) \<Longrightarrow> st = boot_stored p (files w)"
    using assms 1 fault_not_ENOENT [of w]
    by (auto simp: readLocked_def os_ReadFile_def syscall_def plain_path_def boot_stored_def eval_nat_numeral
        split: option.splits ent.splits if_splits)
  show "fault w = None \<Longrightarrow> plain_path p (files w) \<Longrightarrow> r = Inr (boot_stored p (files w))"
    using assms 1
    by (auto simp: readLocked_def os_ReadFile_def syscall_def plain_path_def boot_stored_def eval_nat_numeral
        split: option.splits ent.splits if_splits)
qed

lemma bc_Increment_result:
  assumes "bc_Increment p h w = (r, w')" "\<not> is_tmp p" "plain_path p (files w)"
  shows "same_rest w w'"
    "r = Inl e \<Longrightarrow> map_of (files w') p = map_of (files w) p"
    "r = Inr n \<Longrightarrow> plain_path p (files w') \<and>
       VersionHash (boot_stored p (files w')) = h \<and> Count (boot_stored p (files w')) = n \<and>
       n = (if VersionHash (boot_stored p (files w)) = h then wrap64 (Count (boot_stored p (files w)) + 1) else 1)"
    "\<forall>q. q \<noteq> p \<and> \<not> is_tmp q \<longrightarrow> map_of (files w') q = map_of (files w) q"
proof -
  have "same_rest w w' \<and> (\<forall>e. r = Inl e \<longrightarrow> map_of (files w') p = map_of (files w) p) \<and>
    (\<forall>n. r = Inr n \<longrightarrow> plain_path p (files w') \<and>
       VersionHash (boot_stored p (files w')) = h \<and> Count (boot_stored p (files w')) = n \<and>
       n = (if VersionHash (boot_stored p (files w)) = h then wrap64 (Count (boot_stored p (files w)) + 1) else 1)) \<and>
    (\<forall>q. q \<noteq> p \<and> \<not> is_tmp q \<longrightarrow> map_of (files w') q = map_of (files w) q)"
  proof (cases "h = ''''")
    case True
    with assms(1) show ?thesis by (auto simp: bc_Increment_def)
  next
    case False
    obtain r1 w1 where 1: "readLocked p w = (r1, w1)" by fastforce
    have f: "files w1 = files w" "same_rest w w1"
      using readLocked_result(1) [OF 1] by (simp_all add: same_disk_def)
    show ?thesis
    proof (cases r1)
      case (Inl e)
      with assms(1) 1 False f show ?thesis by (auto simp: bc_Increment_def)
    next
      case (Inr st)
      have st: "st = boot_stored p (files w)" by (rule readLocked_result(2) [OF 1 Inr assms(3)])
      define n where "n = (if VersionHash st = h then wrap64 (Count st + 1) else 1)"
      define st' where "st' = \<lparr>VersionHash = h, Count = n, LastBootUnix = time_Unix w1\<rparr>"
      have one: "int64 1" by (simp add: int64_def)
      have rt: "unmarshal_boot (Json (boot_to_json st')) = Some st'"
        by (rule boot_json_roundtrip) (simp_all add: st'_def n_def time_Unix_def one)
      obtain r2 w2 where 2: "WriteFile p (Json (boot_to_json st')) 420 w1 = (r2, w2)" by fastforce
      have upd: "(if VersionHash st = h then st\<lparr>Count := wrap64 (Count st + 1)\<rparr>
          else st\<lparr>VersionHash := h, Count := 1\<rparr>)\<lparr>LastBootUnix := time_Unix w1\<rparr> = st'"
        by (cases st) (simp add: st'_def n_def)
      have "bc_Increment p h w = (case writeLocked p st' w1 of
          (Some e, w) \<Rightarrow> (Inl e, w) | (None, w) \<Rightarrow> (Inr (Count st'), w))"
        using 1 False Inr by (simp only: bc_Increment_def upd Let_def if_False prod.case sum.case)
      then have eq: "r = (case r2 of None \<Rightarrow> Inr n | Some e \<Rightarrow> Inl (Wrap ''write boot counter'' e))" "w' = w2"
        using assms(1) 2 by (auto simp: writeLocked_def st'_def split: option.splits)
      note at = WriteFile_atomic [OF 2 assms(2), unfolded atomic_write_def]
      have keep: "\<forall>q. q \<noteq> p \<and> \<not> is_tmp q \<longrightarrow> map_of (files w2) q = map_of (files w) q"
        using evolvesD [OF conjunct1 [OF conjunct1 [OF at]]] f(1) by simp
      have "boot_stored p (files w2) = st'" "plain_path p (files w2)" if "r2 = None"
        using at that rt by (simp_all add: boot_stored_def plain_path_def)
      moreover have "same_rest w w2" using at f(2) same_rest_trans by blast
      ultimately show ?thesis using at f(1) eq keep st
        by (cases r2) (auto simp: st'_def n_def)
    qed
  qed
  then show "same_rest w w'"
    "r = Inl e \<Longrightarrow> map_of (files w') p = map_of (files w) p"
    "r = Inr n \<Longrightarrow> plain_path p (files w') \<and>
       VersionHash (boot_stored p (files w')) = h \<and> Count (boot_stored p (files w')) = n \<and>
       n = (if VersionHash (boot_stored p (files w)) = h then wrap64 (Count (boot_stored p (files w)) + 1) else 1)"
    "\<forall>q. q \<noteq> p \<and> \<not> is_tmp q \<longrightarrow> map_of (files w') q = map_of (files w) q"
    by blast+
qed

section \<open>Bounded boots\<close>

text \<open>Boots of one version in a row, all admitted, with no confirmation in between.\<close>

fun boots_admitted :: "watchdog \<Rightarrow> string \<Rightarrow> nat \<Rightarrow> 'z os_scheme \<Rightarrow> bool" where
  "boots_admitted wd h 0 w = True"
| "boots_admitted wd h (Suc n) w =
     (case CheckBoot wd h w of ((c, e), w) \<Rightarrow> e = None \<and> boots_admitted wd h n w)"

definition boots_of :: "watchdog \<Rightarrow> string \<Rightarrow> tree \<Rightarrow> int" where
  "boots_of wd h fs =
     (if VersionHash (boot_stored (wd_counter wd) fs) = h then Count (boot_stored (wd_counter wd) fs) else 0)"

lemma CheckBoot_result:
  assumes "CheckBoot wd h w = ((c, e), w')" "\<not> is_tmp (wd_counter wd)" "plain_path (wd_counter wd) (files w)"
    and "0 \<le> boots_of wd h (files w)" "boots_of wd h (files w) < 2 ^ 63 - 1"
  shows "e = None \<Longrightarrow> plain_path (wd_counter wd) (files w') \<and> c = boots_of wd h (files w) + 1 \<and>
      boots_of wd h (files w') = c \<and> c \<le> wd_maxBoots wd"
proof -
  obtain r w1 where 1: "bc_Increment (wd_counter wd) h w = (r, w1)" by fastforce
  note inc = bc_Increment_result [OF 1 assms(2,3)]
  assume "e = None"
  with assms(1) 1 have r: "r = Inr c" "w' = w1" "c \<le> wd_maxBoots wd"
    by (auto simp: CheckBoot_def split: sum.splits if_splits)
  have "int64 (boots_of wd h (files w) + 1)" using assms(4,5) by (simp add: int64_def)
  then have "c = boots_of wd h (files w) + 1"
    using inc(3) [OF r(1)] by (auto simp: boots_of_def wrap64_id)
  with inc(3) [OF r(1)] r show ?thesis by (simp add: boots_of_def)
qed

lemma boots_admitted_bound:
  "boots_admitted wd h n w \<Longrightarrow> \<not> is_tmp (wd_counter wd) \<Longrightarrow> plain_path (wd_counter wd) (files w) \<Longrightarrow>
   0 \<le> boots_of wd h (files w) \<Longrightarrow> boots_of wd h (files w) \<le> wd_maxBoots wd \<Longrightarrow> wd_maxBoots wd < 2 ^ 63 - 1 \<Longrightarrow>
   boots_of wd h (files w) + int n \<le> wd_maxBoots wd"
proof (induction n arbitrary: w)
  case (Suc n)
  obtain c e w' where 1: "CheckBoot wd h w = ((c, e), w')" by (metis prod.collapse)
  with Suc.prems have e: "e = None" "boots_admitted wd h n w'" by auto
  have "boots_of wd h (files w) < 2 ^ 63 - 1" using Suc.prems by simp
  from CheckBoot_result [OF 1 Suc.prems(2,3,4) this e(1)]
  have "plain_path (wd_counter wd) (files w')" "boots_of wd h (files w') = boots_of wd h (files w) + 1"
    "boots_of wd h (files w') \<le> wd_maxBoots wd" by auto
  with Suc.IH [OF e(2) Suc.prems(2)] Suc.prems(4,6) show ?case by simp
qed simp

section \<open>The health window\<close>

text \<open>A checker honours its deadline when it returns by then; no checker turns the clock back.\<close>

definition honours :: "'z checker \<Rightarrow> bool" where
  "honours check \<longleftrightarrow> (\<forall>c d w. clock w \<le> clock (snd (check c d w)) \<and> clock (snd (check c d w)) \<le> max d (clock w))"

lemma select_after_clock:
  "select_after c d w = (r, w') \<Longrightarrow> 0 \<le> d \<Longrightarrow> clock w \<le> clock w' \<and> clock w' \<le> clock w + d"
  by (auto simp: select_after_def os_Sleep_def split: option.splits if_splits)

lemma health_loop_step:
  "health_loop check c slot deadline n w =
     (case ctx_Err c w of
        Some e \<Rightarrow> (Some e, w)
      | None \<Rightarrow>
          (case check c (if clock w + slot > deadline then deadline else clock w + slot) w of
             (None, w) \<Rightarrow> (None, w)
           | (Some e, w1) \<Rightarrow>
               (case n of
                  0 \<Rightarrow> (Some (Wrap ''watchdog: health check failed'' e), w1)
                | Suc m \<Rightarrow>
                    (if (if clock w + slot > deadline then deadline else clock w + slot) - clock w1 > 0 then
                       (case select_after c ((if clock w + slot > deadline then deadline else clock w + slot) - clock w1) w1 of
                          (Some e, w) \<Rightarrow> (Some e, w)
                        | (None, w) \<Rightarrow> health_loop check c slot deadline m w)
                     else health_loop check c slot deadline m w1))))"
  by (subst health_loop.simps) (simp only: Let_def)

lemma attempt_clock:
  assumes "honours check" "check c d w = (r1, w1)"
    and "d = (if clock w + slot > deadline then deadline else clock w + slot)" "clock w \<le> deadline" "0 \<le> slot"
  shows "clock w1 \<le> deadline"
proof -
  have "clock w1 \<le> max d (clock w)" using assms(1,2) unfolding honours_def by (metis snd_conv)
  with assms(3-5) show ?thesis by (auto split: if_splits)
qed

lemma health_loop_clock:
  "honours check \<Longrightarrow> health_loop check c slot deadline n w = (r, w') \<Longrightarrow> clock w \<le> deadline \<Longrightarrow>
   0 \<le> slot \<Longrightarrow> clock w' \<le> deadline"
proof (induction n arbitrary: w)
  case (0 w)
  define d where "d = (if clock w + slot > deadline then deadline else clock w + slot)"
  obtain r1 w1 where 1: "check c d w = (r1, w1)" by fastforce
  have "clock w1 \<le> deadline" by (rule attempt_clock [OF 0(1) 1 d_def 0(3,4)])
  then show ?case using 0 1 by (auto simp: health_loop_step [of check c slot deadline 0 w] d_def [symmetric] split: option.splits)
next
  case (Suc n w)
  define d where "d = (if clock w + slot > deadline then deadline else clock w + slot)"
  obtain r1 w1 where 1: "check c d w = (r1, w1)" by fastforce
  note c1 = attempt_clock [OF Suc.prems(1) 1 d_def Suc.prems(3,4)]
  note step = Suc.prems(2) [unfolded health_loop_step [of check c slot deadline "Suc n" w] d_def [symmetric] 1]
  obtain r2 w2 where 2: "select_after c (d - clock w1) w1 = (r2, w2)" by fastforce
  have c2: "clock w2 \<le> deadline" if "0 < d - clock w1"
    using select_after_clock [OF 2] that by (simp add: d_def split: if_splits)
  consider "w' = w" | "w' = w1" | "0 < d - clock w1" "w' = w2"
    | "0 < d - clock w1" "health_loop check c slot deadline n w2 = (r, w')"
    | "health_loop check c slot deadline n w1 = (r, w')"
    using step 2 by (auto split: option.splits if_splits)
  then show ?case
    using Suc.prems c1 c2 Suc.IH [OF Suc.prems(1) _ _ Suc.prems(4)] by cases blast+
qed

lemma health_loop_ok:
  "health_loop check c slot deadline n w = (None, w') \<Longrightarrow>
   \<exists>d v. ctx_Err c v = None \<and> check c d v = (None, w')"
proof (induction n arbitrary: w)
  case (0 w)
  define d where "d = (if clock w + slot > deadline then deadline else clock w + slot)"
  obtain r1 w1 where 1: "check c d w = (r1, w1)" by fastforce
  have "ctx_Err c w = None \<and> r1 = None \<and> w' = w1"
    using 0 [unfolded health_loop_step [of check c slot deadline 0 w] d_def [symmetric] 1]
    by (auto split: option.splits)
  with 1 show ?case by blast
next
  case (Suc n w)
  define d where "d = (if clock w + slot > deadline then deadline else clock w + slot)"
  obtain r1 w1 where 1: "check c d w = (r1, w1)" by fastforce
  obtain r2 w2 where 2: "select_after c (d - clock w1) w1 = (r2, w2)" by fastforce
  note step = Suc.prems [unfolded health_loop_step [of check c slot deadline "Suc n" w] d_def [symmetric] 1]
  have "ctx_Err c w = None \<and> r1 = None \<and> w' = w1 \<or> health_loop check c slot deadline n w2 = (None, w') \<or>
      health_loop check c slot deadline n w1 = (None, w')"
    using step 2 by (auto split: option.splits if_splits)
  with 1 Suc.IH show ?case by blast
qed

section \<open>Properties\<close>

definition sample_wd :: watchdog where
  "sample_wd = \<lparr>wd_counter = ''/s/bc'', wd_timeout = 30, wd_retries = 3, wd_maxBoots = 2\<rparr>"

definition sample_boot_os :: os where
  "sample_boot_os = \<lparr>files = [(''/s'', EDir)], undo = [], faults = [], clock = 0, rand = [1, 2, 3, 4], hist = []\<rparr>"

lemma sample_wd_facts:
  "\<not> is_tmp (wd_counter sample_wd)" "plain_path (wd_counter sample_wd) (files sample_boot_os)"
  "boots_of sample_wd ''h'' (files sample_boot_os) = 0" "wd_maxBoots sample_wd = 2"
  by code_simp+

text \<open>C24. A version that is never confirmed is admitted at most \<open>MaxBoots\<close> times: if \<open>n\<close> boots of the
  same version in a row passed \<open>CheckBoot\<close>, then the boots already on file and these \<open>n\<close> together do
  not exceed the limit, whatever system calls failed in between.\<close>

theorem unconfirmed_boots_bounded:
  assumes "boots_admitted wd h n w" "\<not> is_tmp (wd_counter wd)" "plain_path (wd_counter wd) (files w)"
    and "0 \<le> boots_of wd h (files w)" "boots_of wd h (files w) \<le> wd_maxBoots wd" "wd_maxBoots wd < 2 ^ 63 - 1"
  shows "boots_of wd h (files w) + int n \<le> wd_maxBoots wd"
  by (rule boots_admitted_bound [OF assms])

theorem unconfirmed_boots_bounded_witness:
  "boots_admitted sample_wd ''h'' 2 sample_boot_os \<and> \<not> boots_admitted sample_wd ''h'' 3 sample_boot_os \<and>
   boots_of sample_wd ''h'' (files sample_boot_os) + 2 \<le> wd_maxBoots sample_wd"
proof -
  have a: "boots_admitted sample_wd ''h'' 2 sample_boot_os" "\<not> boots_admitted sample_wd ''h'' 3 sample_boot_os"
    by code_simp+
  show ?thesis
    using unconfirmed_boots_bounded [OF a(1) sample_wd_facts(1,2)] a sample_wd_facts(3,4) by simp
qed

text \<open>The boot counter on file follows the boots: an increment that returns a count has stored that
  count under the given version, one more than before for the same version and one for another; an
  increment that fails leaves the stored counter as it was. Nothing else but temporary files changes.\<close>

theorem boot_counter_increment:
  assumes "\<not> is_tmp p" "plain_path p (files w)" "Count (boot_stored p (files w)) < 2 ^ 63 - 1"
  shows "case bc_Increment p h w of (r, w') \<Rightarrow>
    (case r of
       Inl e \<Rightarrow> boot_stored p (files w') = boot_stored p (files w)
     | Inr n \<Rightarrow>
         VersionHash (boot_stored p (files w')) = h \<and> Count (boot_stored p (files w')) = n \<and>
         n = (if VersionHash (boot_stored p (files w)) = h then Count (boot_stored p (files w)) + 1 else 1))"
proof -
  obtain r w' where eq: "bc_Increment p h w = (r, w')" by fastforce
  note inc = bc_Increment_result [OF eq assms(1,2)]
  have "int64 (Count (boot_stored p (files w)) + 1)"
    using boot_stored_int64 [of p "files w"] assms(3) by (simp add: int64_def)
  then show ?thesis using inc(2,3) eq by (cases r) (auto simp: boot_stored_def wrap64_id)
qed

theorem boot_counter_increment_witness:
  "fst (bc_Increment ''/s/bc'' ''h'' sample_boot_os) = Inr 1 \<and>
   VersionHash (boot_stored ''/s/bc'' (files (snd (bc_Increment ''/s/bc'' ''h'' sample_boot_os)))) = ''h''"
proof -
  have f: "\<not> is_tmp ''/s/bc''" "plain_path ''/s/bc'' (files sample_boot_os)"
    "Count (boot_stored ''/s/bc'' (files sample_boot_os)) < 2 ^ 63 - 1"
    "fst (bc_Increment ''/s/bc'' ''h'' sample_boot_os) = Inr 1" by code_simp+
  show ?thesis using boot_counter_increment [OF f(1-3), of "''h''"] f(4) by (simp add: split_beta)
qed

text \<open>C25. The health window closes in time: with a checker that honours its deadlines,
  \<open>WaitForHealth\<close> returns no later than the timeout, and it reports health only after a check that
  passed while the context was alive.\<close>

theorem WaitForHealth_in_time:
  assumes "honours check" "0 \<le> wd_timeout wd"
  shows "case WaitForHealth wd check c w of (r, w') \<Rightarrow>
    clock w' \<le> clock w + wd_timeout wd \<and>
    (r = None \<longrightarrow> (\<exists>d v. ctx_Err c v = None \<and> check c d v = (None, w')))"
proof (cases "wd_retries wd \<le> 0")
  case True
  with assms show ?thesis by (simp add: WaitForHealth_def)
next
  case False
  define slot where "slot = (if wd_timeout wd div wd_retries wd \<le> 0 then wd_timeout wd else wd_timeout wd div wd_retries wd)"
  obtain r w' where eq: "health_loop check c slot (clock w + wd_timeout wd) (nat (wd_retries wd) - 1) w = (r, w')"
    by fastforce
  have "0 \<le> slot" using assms(2) by (simp add: slot_def)
  then have "clock w' \<le> clock w + wd_timeout wd" using health_loop_clock [OF assms(1) eq] assms(2) by simp
  moreover have "WaitForHealth wd check c w = (r, w')"
    using eq False by (simp add: WaitForHealth_def Let_def slot_def)
  ultimately show ?thesis using health_loop_ok [of check c slot _ _ w w'] eq by auto
qed

definition sample_check :: "unit checker" where
  "sample_check c d w = (if 20 \<le> clock w then (None, w) else (Some EIO, w\<lparr>clock := max d (clock w)\<rparr>))"

theorem WaitForHealth_in_time_witness:
  "honours sample_check \<and>
   fst (WaitForHealth sample_wd sample_check None sample_boot_os) = None \<and>
   clock (snd (WaitForHealth sample_wd sample_check None sample_boot_os)) \<le> clock sample_boot_os + 30"
proof -
  have h: "honours sample_check" by (simp add: honours_def sample_check_def)
  have "fst (WaitForHealth sample_wd sample_check None sample_boot_os) = None" by code_simp
  with h WaitForHealth_in_time [OF h, where wd = sample_wd and c = None and w = sample_boot_os] show ?thesis
    by (simp add: sample_wd_def split_beta)
qed

end
