(* ===== verification/Updater.thy ===== *)
theory Updater
  imports Complex_Main Crypto Downloader Watchdog
begin

text \<open>
  The agent's update cycle (\<open>pkg/agent/updater.go\<close>, \<open>restart.go\<close>): the boot phase after a swap, one
  cycle of heartbeat, verification, transfer, reconstruction, staging and swap, the manual trigger, the
  policy gate, the restart cooldown and the main loop. A restart that succeeds does not return: the
  outcome \<open>Exec\<close> says which binary replaced the process. The third-party libraries are \<open>L\<close>, the network
  is inside the client pairs, and random draws are sequences.
\<close>

section \<open>restart.go\<close>

type_synonym 'z restart = "ctx \<Rightarrow> string \<Rightarrow> string list \<Rightarrow> 'z os_scheme \<Rightarrow> err option \<times> 'z os_scheme"

text \<open>\<open>None\<close> means that the call did not return: the process image is another one.\<close>

definition ExecRestart ::
  "(string \<Rightarrow> string list \<Rightarrow> string list \<Rightarrow> ('z, err option) remote) \<Rightarrow> string list option \<Rightarrow> string list \<Rightarrow> 'z restart" where
  "ExecRestart sys_exec envOpt environ c binary argv0 w =
     (if binary = '''' then (Some (Msg ''exec restart: binary path is required''), w)
      else
        (let argv = (if length argv0 = 0 then [binary] else argv0);
             env = (case envOpt of None \<Rightarrow> environ | Some e \<Rightarrow> e)
         in case remote_call (sys_exec binary argv env) w of
              (Some e, w) \<Rightarrow> (Some (Wrap ''exec restart'' e), w)
            | (None, w) \<Rightarrow> (None, w)))"

definition ExitRestart :: "'z restart" where
  "ExitRestart c binary argv w = (None, w)"

section \<open>State\<close>

definition orphanSweepMaxAge :: int where "orphanSweepMaxAge = 24 * Hour"
definition pendingUpdateFile :: string where "pendingUpdateFile = ''.pending_update''"
definition stagingDeltaFile :: string where "stagingDeltaFile = ''.staging.delta''"
definition downloadStateFile :: string where "downloadStateFile = ''.download.json''"
definition UpdateNowFile :: string where "UpdateNowFile = ''.update_now''"
definition restartCooldownFile :: string where "restartCooldownFile = ''.restart_cooldown''"

record updater_config =
  uc_DeviceID :: string
  uc_Artifact :: string
  uc_Version :: string
  uc_CheckInterval :: int
  uc_Jitter :: rat
  uc_MaxRetries :: int
  uc_RetryBackoff :: int
  uc_StateDir :: string
  uc_SelfArgv :: "string list"
  uc_AutoUpdate :: bool
  uc_MaxBump :: MaxBump
  uc_UnknownVersionPolicy :: UnknownVersionPolicy
  uc_DiskSpaceMinFreePct :: int
  uc_DiskSpaceMinFreeMB :: int
  uc_RestartFailureCooldown :: int

record 'z updater_deps =
  dp_Config :: updater_config
  dp_Primary :: "'z client option \<times> 'z transport option"
  dp_Fallback :: "'z client_pair option"
  dp_Slots :: "slot_manager option"
  dp_PublicKey :: bytes
  dp_Watchdog :: "(watchdog \<times> 'z checker) option"
  dp_Restart :: "'z restart option"
  dp_HWInfo :: "('z, hw_info) remote option"

text \<open>\<open>u_seed\<close> is \<open>rand.NewSource\<close>: a seed gives the sequence of draws, 53-bit numerators.\<close>

record 'z updater =
  u_cfg :: updater_config
  u_primary :: "'z client_pair"
  u_fallback :: "'z client_pair option"
  u_slots :: slot_manager
  u_publicKey :: bytes
  u_watchdog :: watchdog
  u_checker :: "'z checker"
  u_restart :: "'z restart"
  u_hwInfo :: "('z, hw_info) remote"
  u_seed :: "int \<Rightarrow> nat \<Rightarrow> nat"
  u_rand :: "nat \<Rightarrow> nat"
  u_draws :: nat
  u_pendingPath :: string
  u_deltaStaging :: string
  u_downloadState :: string
  u_updateNowPath :: string
  u_restartCooldownPath :: string
  u_forceOnce :: bool

datatype outcome = Return "err option" | Exec string

section \<open>Files of the state directory\<close>

subsection \<open>The pending marker\<close>

record pendingUpdate =
  PreviousHash :: string
  NewHash :: string
  SwappedUnix :: int

definition pending_to_json :: "pendingUpdate \<Rightarrow> json" where
  "pending_to_json p =
     JObj [(''previous_hash'', JStr (PreviousHash p)), (''new_hash'', JStr (NewHash p)),
           (''swapped_unix'', JInt (SwappedUnix p))]"

definition pending_of_json :: "json \<Rightarrow> pendingUpdate option" where
  "pending_of_json j =
     (case struct_fields j of
        None \<Rightarrow> None
      | Some fs \<Rightarrow>
          (case (get_str fs ''previous_hash'', get_str fs ''new_hash'', get_int fs ''swapped_unix'') of
             (Some p, Some n, Some t) \<Rightarrow> Some \<lparr>PreviousHash = p, NewHash = n, SwappedUnix = t\<rparr>
           | _ \<Rightarrow> None))"

definition readPending :: "'z updater \<Rightarrow> 'z os_scheme \<Rightarrow> (err + pendingUpdate option) \<times> 'z os_scheme" where
  "readPending u w =
     (case os_ReadFile (u_pendingPath u) w of
        (Inl e, w) \<Rightarrow> if errors_Is e ENOENT then (Inr None, w) else (Inl e, w)
      | (Inr data, w) \<Rightarrow>
          (case Option.bind (parse_json data) pending_of_json of
             None \<Rightarrow> (Inl (Msg ''parse pending update''), w)
           | Some p \<Rightarrow>
               if NewHash p = '''' then (Inl (Msg ''pending update missing new_hash''), w)
               else (Inr (Some p), w)))"

definition writePending :: "'z updater \<Rightarrow> pendingUpdate \<Rightarrow> 'z os_scheme \<Rightarrow> err option \<times> 'z os_scheme" where
  "writePending u p w = WriteFile (u_pendingPath u) (Json (pending_to_json p)) 420 w"

definition clearPending :: "'z updater \<Rightarrow> 'z os_scheme \<Rightarrow> 'z os_scheme" where
  "clearPending u w = snd (os_Remove (u_pendingPath u) w)"

subsection \<open>The restart cooldown\<close>

record restartCooldownMarker =
  WakeAtUnix :: int
  CooldownReason :: string

definition cooldown_to_json :: "restartCooldownMarker \<Rightarrow> json" where
  "cooldown_to_json m =
     JObj ([(''wake_at_unix'', JInt (WakeAtUnix m))] @ omit_str ''reason'' (CooldownReason m))"

definition cooldown_of_json :: "json \<Rightarrow> restartCooldownMarker option" where
  "cooldown_of_json j =
     (case struct_fields j of
        None \<Rightarrow> None
      | Some fs \<Rightarrow>
          (case (get_int fs ''wake_at_unix'', get_str fs ''reason'') of
             (Some t, Some r) \<Rightarrow> Some \<lparr>WakeAtUnix = t, CooldownReason = r\<rparr>
           | _ \<Rightarrow> None))"

definition armRestartCooldown :: "'z updater \<Rightarrow> 'z os_scheme \<Rightarrow> 'z os_scheme" where
  "armRestartCooldown u w =
     (if uc_RestartFailureCooldown (u_cfg u) \<le> 0 then w
      else
        (let m = \<lparr>WakeAtUnix = wrap64 ((clock w + uc_RestartFailureCooldown (u_cfg u)) div Second),
                  CooldownReason = ''exec restart returned error''\<rparr>
         in snd (WriteFile (u_restartCooldownPath u) (Json (cooldown_to_json m)) 420 w)))"

text \<open>The wake-up time in nanoseconds, when a valid cooldown is on file.\<close>

definition readRestartCooldown :: "'z updater \<Rightarrow> 'z os_scheme \<Rightarrow> int option \<times> 'z os_scheme" where
  "readRestartCooldown u w =
     (case os_ReadFile (u_restartCooldownPath u) w of
        (Inl e, w) \<Rightarrow> (None, w)
      | (Inr data, w) \<Rightarrow>
          (case Option.bind (parse_json data) cooldown_of_json of
             None \<Rightarrow> (None, w)
           | Some m \<Rightarrow> if WakeAtUnix m = 0 then (None, w) else (Some (WakeAtUnix m * Second), w)))"

definition clearRestartCooldown :: "'z updater \<Rightarrow> 'z os_scheme \<Rightarrow> 'z os_scheme" where
  "clearRestartCooldown u w = snd (os_Remove (u_restartCooldownPath u) w)"

subsection \<open>The manual trigger\<close>

definition TriggerUpdate :: "'z updater \<Rightarrow> 'z updater" where
  "TriggerUpdate u = u\<lparr>u_forceOnce := True\<rparr>"

definition peekForceOnce :: "'z updater \<Rightarrow> 'z os_scheme \<Rightarrow> bool \<times> 'z os_scheme" where
  "peekForceOnce u w =
     (if u_forceOnce u then (True, w)
      else
        (case os_Stat (u_updateNowPath u) w of
           (Inr i, w) \<Rightarrow> (True, w)
         | (Inl e, w) \<Rightarrow> (False, w)))"

definition consumeForceOnce :: "'z updater \<Rightarrow> 'z os_scheme \<Rightarrow> (bool \<times> 'z updater) \<times> 'z os_scheme" where
  "consumeForceOnce u w =
     (let fromCall = u_forceOnce u; u = u\<lparr>u_forceOnce := False\<rparr>
      in case os_Stat (u_updateNowPath u) w of
           (Inr i, w) \<Rightarrow> ((True, u), snd (os_Remove (u_updateNowPath u) w))
         | (Inl e, w) \<Rightarrow> ((fromCall, u), w))"

section \<open>The policy gate\<close>

definition policyAllows :: "lib \<Rightarrow> updater_config \<Rightarrow> string \<Rightarrow> bool" where
  "policyAllows L cfg remoteVersion =
     (if \<not> uc_AutoUpdate cfg then False
      else if uc_Version cfg = '''' then True
      else
        (let bump = ComputeBump (lib_semver L) (uc_Version cfg) remoteVersion
         in if bump = BumpUnknown then uc_UnknownVersionPolicy cfg = UnknownAllow
            else if bump = BumpNone then False
            else if \<not> AllowedByPolicy bump (uc_MaxBump cfg) then False
            else True))"

section \<open>Heartbeat and report with fallback\<close>

definition heartbeatWithFallback ::
  "'z updater \<Rightarrow> ctx \<Rightarrow> heartbeat \<Rightarrow> 'z os_scheme \<Rightarrow> (err + manifest_response \<times> 'z client_pair) \<times> 'z os_scheme" where
  "heartbeatWithFallback u c hb w =
     (case c_Heartbeat (pr_Client (u_primary u)) c (Some hb) w of
        (Inr resp, w) \<Rightarrow> (Inr (resp, u_primary u), w)
      | (Inl e, w) \<Rightarrow>
          (case u_fallback u of
             None \<Rightarrow> (Inl (Wrap ''primary'' e), w)
           | Some fb \<Rightarrow>
               (case c_Heartbeat (pr_Client fb) c (Some hb) w of
                  (Inl errFb, w) \<Rightarrow> (Inl (Wrap ''primary; fallback'' e), w)
                | (Inr respFb, w) \<Rightarrow> (Inr (respFb, fb), w))))"

definition reportUpdate ::
  "'z updater \<Rightarrow> ctx \<Rightarrow> string \<Rightarrow> string \<Rightarrow> bool \<Rightarrow> string \<Rightarrow> 'z os_scheme \<Rightarrow> err option \<times> 'z os_scheme" where
  "reportUpdate u c prevHash newHash success reason w =
     (let rep = \<lparr>repDeviceID = uc_DeviceID (u_cfg u), repPreviousHash = prevHash, repNewHash = newHash,
                 repSuccess = success, repRollbackReason = reason, repTimestamp = time_Unix w\<rparr>
      in case c_Report (pr_Client (u_primary u)) c (Some rep) w of
           (None, w) \<Rightarrow> (None, w)
         | (Some e, w) \<Rightarrow>
             (case u_fallback u of
                None \<Rightarrow> (Some (Wrap ''report primary'' e), w)
              | Some fb \<Rightarrow>
                  (case c_Report (pr_Client fb) c (Some rep) w of
                     (Some errFb, w) \<Rightarrow> (Some (Wrap ''report primary; fallback'' e), w)
                   | (None, w) \<Rightarrow> (None, w))))"

section \<open>The boot phase\<close>

definition rollbackAndExec ::
  "lib \<Rightarrow> 'z updater \<Rightarrow> ctx \<Rightarrow> pendingUpdate \<Rightarrow> string \<Rightarrow> 'z os_scheme \<Rightarrow> outcome \<times> 'z os_scheme" where
  "rollbackAndExec L u c pending reason w =
     (case Rollback (u_slots u) w of
        (Some e, w) \<Rightarrow> (Return (Some (Wrap ''boot: rollback'' e)), w)
      | (None, w) \<Rightarrow>
          (let w = snd (bc_Reset (wd_counter (u_watchdog u)) w)
           in case ActiveSlot (lib_sha L) (u_slots u) w of
                (Inl e, w) \<Rightarrow> (Return (Some (Wrap ''boot: read active after rollback'' e)), w)
              | (Inr (rollbackPath, rollbackHash, name), w) \<Rightarrow>
                  (let w = snd (reportUpdate u c (NewHash pending) rollbackHash False reason w);
                       w = clearPending u w
                   in case u_restart u c rollbackPath (uc_SelfArgv (u_cfg u)) w of
                        (Some e, w) \<Rightarrow> (Return (Some (Wrap ''boot: rollback restart'' e)), w)
                      | (None, w) \<Rightarrow> (Exec rollbackPath, w))))"

definition BootPhase :: "lib \<Rightarrow> 'z updater \<Rightarrow> ctx \<Rightarrow> 'z os_scheme \<Rightarrow> outcome \<times> 'z os_scheme" where
  "BootPhase L u c w =
     (case readPending u w of
        (Inl e, w) \<Rightarrow> (Return None, w)
      | (Inr None, w) \<Rightarrow> (Return None, w)
      | (Inr (Some pending), w) \<Rightarrow>
          (case ActiveSlot (lib_sha L) (u_slots u) w of
             (Inl e, w) \<Rightarrow> (Return (Some (Wrap ''boot: read active slot'' e)), w)
           | (Inr (path, activeHash, name), w) \<Rightarrow>
               if activeHash \<noteq> NewHash pending then (Return None, clearPending u w)
               else
                 (case CheckBoot (u_watchdog u) activeHash w of
                    ((count, Some checkErr), w) \<Rightarrow>
                      if errors_Is checkErr ErrBootCountExceeded
                      then rollbackAndExec L u c pending ''boot count exceeded'' w
                      else (Return (Some (Wrap ''boot: check boot count'' checkErr)), w)
                  | ((count, None), w) \<Rightarrow>
                      (case WaitForHealth (u_watchdog u) (u_checker u) c w of
                         (Some e, w) \<Rightarrow>
                           if errors_Is e Canceled \<or> errors_Is e DeadlineExceeded then (Return (Some e), w)
                           else rollbackAndExec L u c pending ''health check failed'' w
                       | (None, w) \<Rightarrow>
                           (let w = snd (Confirm (u_watchdog u) w);
                                w = snd (reportUpdate u c (PreviousHash pending) activeHash True '''' w)
                            in (Return None, clearPending u w))))))"

section \<open>One cycle\<close>

text \<open>The cooldown at the top of \<open>RunOnce\<close>: whether the cycle goes on.\<close>

definition cooldown_gate :: "'z updater \<Rightarrow> 'z os_scheme \<Rightarrow> bool \<times> 'z os_scheme" where
  "cooldown_gate u w =
     (case readRestartCooldown u w of
        (None, w) \<Rightarrow> (True, w)
      | (Some until, w) \<Rightarrow>
          if clock w < until then
            (case peekForceOnce u w of
               (True, w) \<Rightarrow> (True, clearRestartCooldown u w)
             | (False, w) \<Rightarrow> (False, w))
          else (True, clearRestartCooldown u w))"

text \<open>The signature check before the download.\<close>

definition verify_manifest :: "lib \<Rightarrow> bytes \<Rightarrow> manifest_response \<Rightarrow> err option" where
  "verify_manifest L pub resp =
     (case ManifestSigningPayload (TargetHash resp) (DeltaHash resp) of
        Inl e \<Rightarrow> Some (Wrap ''build signing payload'' e)
      | Inr payload \<Rightarrow>
          (case hex_decode (Signature resp) of
             None \<Rightarrow> Some (Wrap ''decode signature hex'' (Msg ''encoding/hex''))
           | Some sig \<Rightarrow>
               (case crypto_Verify L pub payload sig of
                  Some e \<Rightarrow> Some (Wrap ''verify manifest signature'' e)
                | None \<Rightarrow> None)))"

definition transferModeName :: "bool \<Rightarrow> string" where
  "transferModeName full = (if full then ''full'' else ''delta'')"

text \<open>The transfer: which endpoint, its URL, and the download into the staging file.\<close>

definition fetch_transfer ::
  "lib \<Rightarrow> 'z updater \<Rightarrow> ctx \<Rightarrow> manifest_response \<Rightarrow> 'z client_pair \<Rightarrow> 'z os_scheme \<Rightarrow> err option \<times> 'z os_scheme" where
  "fetch_transfer L u c resp pair w =
     (let fullDownload = BinaryEndpoint resp \<noteq> '''';
          endpoint = (if fullDownload then BinaryEndpoint resp else DeltaEndpoint resp);
          transferURL = c_DeltaURL (pr_Client pair) endpoint
      in if transferURL = '''' then (Some (Msg ''manifest missing delta_endpoint and binary_endpoint''), w)
         else
           (let dl = NewDownloader (pr_Transport pair)
                       \<lparr>dc_StatePath = u_downloadState u, dc_MaxRetries = uc_MaxRetries (u_cfg u),
                        dc_RetryBackoff = uc_RetryBackoff (u_cfg u)\<rparr> (u_seed u (clock w));
                target = \<lparr>tgt_URL = transferURL, tgt_DeltaHash = DeltaHash resp,
                          tgt_TotalSize = DeltaSize resp, tgt_OutPath = u_deltaStaging u\<rparr>
            in case Download (lib_sha L) dl c target w of
                 (Some e, w) \<Rightarrow> (Some (Wrap (''download '' @ transferModeName fullDownload) e), w)
               | (None, w) \<Rightarrow> (None, w)))"

text \<open>Reconstruction from the staged transfer, and the check of the target's digest.\<close>

definition reconstruct ::
  "lib \<Rightarrow> 'z updater \<Rightarrow> string \<Rightarrow> manifest_response \<Rightarrow> 'z os_scheme \<Rightarrow> (err + bytes) \<times> 'z os_scheme" where
  "reconstruct L u activePath resp w =
     (case os_ReadFile (u_deltaStaging u) w of
        (Inl e, w) \<Rightarrow> (Inl (Wrap ''read staged transfer'' e), w)
      | (Inr transfer, w) \<Rightarrow>
          (case (if BinaryEndpoint resp \<noteq> '''' then
                   (case DecompressBytes L (bytes_of transfer) of
                      Inl e \<Rightarrow> (Inl (Wrap ''decompress full binary'' e), w)
                    | Inr newBin \<Rightarrow> (Inr newBin, w))
                 else
                   (case os_ReadFile activePath w of
                      (Inl e, w) \<Rightarrow> (Inl (Wrap ''read active binary'' e), w)
                    | (Inr activeBin, w) \<Rightarrow>
                        (case delta_Apply L (bytes_of activeBin) (bytes_of transfer) of
                           Inl e \<Rightarrow> (Inl (Wrap ''apply delta'' e), w)
                         | Inr newBin \<Rightarrow> (Inr newBin, w)))) of
             (Inl e, w) \<Rightarrow> (Inl e, w)
           | (Inr newBin, w) \<Rightarrow>
               if sha256HexBytes L newBin \<noteq> TargetHash resp
               then (Inl (Msg ''reconstructed binary hash mismatch''), w)
               else (Inr newBin, w)))"

text \<open>The way back when the new binary could not be started.\<close>

definition restart_failed :: "'z updater \<Rightarrow> 'z os_scheme \<Rightarrow> 'z os_scheme" where
  "restart_failed u w =
     (let w = clearPending u w;
          w = snd (Rollback (u_slots u) w)
      in armRestartCooldown u w)"

text \<open>Staging in the inactive slot, the pending marker, the swap and the restart.\<close>

definition install ::
  "lib \<Rightarrow> 'z updater \<Rightarrow> ctx \<Rightarrow> string \<Rightarrow> manifest_response \<Rightarrow> bytes \<Rightarrow> 'z os_scheme \<Rightarrow> outcome \<times> 'z os_scheme" where
  "install L u c activeHash resp newBin w =
     (case WriteToInactive (u_slots u) ([Raw newBin], None) w of
        (Some e, w) \<Rightarrow> (Return (Some (Wrap ''write inactive slot'' e)), w)
      | (None, w) \<Rightarrow>
          (let pending = \<lparr>PreviousHash = activeHash, NewHash = TargetHash resp, SwappedUnix = time_Unix w\<rparr>
           in case writePending u pending w of
                (Some e, w) \<Rightarrow> (Return (Some (Wrap ''write pending update marker'' e)), w)
              | (None, w) \<Rightarrow>
                  (case Swap (u_slots u) w of
                     (Some e, w) \<Rightarrow> (Return (Some (Wrap ''swap'' e)), clearPending u w)
                   | (None, w) \<Rightarrow>
                       (let w = snd (os_Remove (u_deltaStaging u) w)
                        in case ActiveSlot (lib_sha L) (u_slots u) w of
                             (Inl e, w) \<Rightarrow> (Return (Some (Wrap ''read active slot after swap'' e)), w)
                           | (Inr (newActivePath, h, name), w) \<Rightarrow>
                               (case u_restart u c newActivePath (uc_SelfArgv (u_cfg u)) w of
                                  (Some e, w) \<Rightarrow> (Return (Some (Wrap ''restart'' e)), restart_failed u w)
                                | (None, w) \<Rightarrow> (Exec newActivePath, w))))))"

definition RunOnce :: "lib \<Rightarrow> 'z updater \<Rightarrow> ctx \<Rightarrow> 'z os_scheme \<Rightarrow> (outcome \<times> 'z updater) \<times> 'z os_scheme" where
  "RunOnce L u c w =
     (case cooldown_gate u w of
        (False, w) \<Rightarrow> ((Return None, u), w)
      | (True, w) \<Rightarrow>
          (case ActiveSlot (lib_sha L) (u_slots u) w of
             (Inl e, w) \<Rightarrow> ((Return (Some (Wrap ''read active slot'' e)), u), w)
           | (Inr (activePath, activeHash, name), w) \<Rightarrow>
               (case remote_call (u_hwInfo u) w of
                  (hw, w) \<Rightarrow>
                    (let hb = \<lparr>hbDeviceID = uc_DeviceID (u_cfg u), hbVersionHash = activeHash, hbHWInfo = hw,
                               hbTimestamp = time_Unix w, hbVersion = uc_Version (u_cfg u),
                               hbArtifact = uc_Artifact (u_cfg u)\<rparr>
                     in case heartbeatWithFallback u c hb w of
                          (Inl e, w) \<Rightarrow> ((Return (Some (Wrap ''heartbeat'' e)), u), w)
                        | (Inr (resp, pair), w) \<Rightarrow>
                            if \<not> UpdateAvailable resp then ((Return None, u), w)
                            else if RetryAfter resp > 0 then ((Return None, u), w)
                            else if Signature resp = '''' \<or> TargetHash resp = '''' \<or> DeltaHash resp = ''''
                            then ((Return (Some (Msg ''manifest missing signature, target_hash or delta_hash'')), u), w)
                            else
                              (case consumeForceOnce u w of
                                 ((forced, u), w) \<Rightarrow>
                                   if \<not> forced \<and> \<not> policyAllows L (u_cfg u) (TargetVersion resp)
                                   then ((Return None, u), w)
                                   else
                                     (case verify_manifest L (u_publicKey u) resp of
                                        Some e \<Rightarrow> ((Return (Some e), u), w)
                                      | None \<Rightarrow>
                                          (case fetch_transfer L u c resp pair w of
                                             (Some e, w) \<Rightarrow> ((Return (Some e), u), w)
                                           | (None, w) \<Rightarrow>
                                               (case reconstruct L u activePath resp w of
                                                  (Inl e, w) \<Rightarrow> ((Return (Some e), u), w)
                                                | (Inr newBin, w) \<Rightarrow>
                                                    (case install L u c activeHash resp newBin w of
                                                       (out, w) \<Rightarrow> ((out, u), w))))))))))"

section \<open>The loop\<close>

definition nextSleep :: "'z updater \<Rightarrow> int \<times> 'z updater" where
  "nextSleep u =
     (let base = uc_CheckInterval (u_cfg u)
      in if uc_Jitter (u_cfg u) \<le> 0 then (base, u)
         else
           (let span = rat_of_int base * uc_Jitter (u_cfg u);
                r = rat_of_int (int (u_rand u (u_draws u))) / 2 ^ 53;
                u = u\<lparr>u_draws := Suc (u_draws u)\<rparr>;
                d = floor (rat_of_int base + (r * 2 - 1) * span)
            in if d \<le> 0 then (base, u) else (d, u)))"

text \<open>
  The loop of \<open>Run\<close> for at most \<open>n\<close> cycles; the timer fires at \<open>fire\<close>, and \<open>None\<close> says that the loop
  was still going after \<open>n\<close> cycles.
\<close>

fun run_loop :: "lib \<Rightarrow> nat \<Rightarrow> 'z updater \<Rightarrow> ctx \<Rightarrow> int \<Rightarrow> 'z os_scheme \<Rightarrow> outcome option \<times> 'z os_scheme" where
  "run_loop L 0 u c fire w = (None, w)"
| "run_loop L (Suc n) u c fire w =
     (case RunOnce L u c w of
        ((Exec p, u), w) \<Rightarrow> (Some (Exec p), w)
      | ((Return e, u), w) \<Rightarrow>
          (case select_after c (max 0 (fire - clock w)) w of
             (Some e, w) \<Rightarrow> (Some (Return (Some e)), w)
           | (None, w) \<Rightarrow>
               (case nextSleep u of (d, u) \<Rightarrow> run_loop L n u c (clock w + d) w)))"

definition Run :: "lib \<Rightarrow> nat \<Rightarrow> 'z updater \<Rightarrow> ctx \<Rightarrow> 'z os_scheme \<Rightarrow> outcome option \<times> 'z os_scheme" where
  "Run L n u c w =
     (case BootPhase L u c w of
        (Exec p, w) \<Rightarrow> (Some (Exec p), w)
      | (Return (Some e), w) \<Rightarrow> (Some (Return (Some e)), w)
      | (Return None, w) \<Rightarrow> (case nextSleep u of (d, u) \<Rightarrow> run_loop L n u c (clock w + d) w))"

section \<open>Construction\<close>

text \<open>Which of the two warnings \<open>checkAgentDiskSpace\<close> raises, in 64-bit arithmetic.\<close>

definition agent_disk_breach :: "64 word \<Rightarrow> 64 word \<Rightarrow> int \<Rightarrow> int \<Rightarrow> bool \<times> bool" where
  "agent_disk_breach free tot minPct minMB =
     (minPct > 0 \<and> tot > 0 \<and> (free * 100) div tot < word_of_int minPct,
      minMB > 0 \<and> free < push_bit 20 (word_of_int minMB))"

definition checkAgentDiskSpace :: "(string \<Rightarrow> err + statfs) \<Rightarrow> string \<Rightarrow> int \<Rightarrow> int \<Rightarrow> (bool \<times> bool) option" where
  "checkAgentDiskSpace statfs dir minPct minMB =
     (case Free statfs dir of
        Inl e \<Rightarrow> None
      | Inr (free, tot) \<Rightarrow> Some (agent_disk_breach free tot minPct minMB))"

definition defaultHWInfo :: "string \<Rightarrow> string \<Rightarrow> ('z, hw_info) remote" where
  "defaultHWInfo goarch goos z = (\<lparr>hwArch = goarch, hwOS = goos, hwFreeRAM = 0, hwFreeDisk = 0\<rparr>, 0, z)"

definition updater_defaults :: "string list \<Rightarrow> updater_config \<Rightarrow> updater_config" where
  "updater_defaults os_Args cfg =
     cfg\<lparr>uc_CheckInterval := (if uc_CheckInterval cfg \<le> 0 then Hour else uc_CheckInterval cfg),
         uc_MaxRetries := (if uc_MaxRetries cfg < 0 then 0 else uc_MaxRetries cfg),
         uc_RetryBackoff := (if uc_RetryBackoff cfg \<le> 0 then 30 * Second else uc_RetryBackoff cfg),
         uc_SelfArgv := (if uc_SelfArgv cfg = [] then os_Args else uc_SelfArgv cfg)\<rparr>"

definition NewUpdater ::
  "string list \<Rightarrow> string \<times> string \<Rightarrow> (int \<Rightarrow> nat \<Rightarrow> nat) \<Rightarrow> 'z updater_deps \<Rightarrow> 'z os_scheme \<Rightarrow> (err + 'z updater) \<times> 'z os_scheme" where
  "NewUpdater os_Args platform seed deps w =
     (case (dp_Slots deps, dp_Watchdog deps, dp_Restart deps, dp_Primary deps) of
        (None, _, _, _) \<Rightarrow> (Inl (Msg ''updater: slots is required''), w)
      | (Some _, None, _, _) \<Rightarrow> (Inl (Msg ''updater: watchdog is required''), w)
      | (Some _, Some _, None, _) \<Rightarrow> (Inl (Msg ''updater: restart strategy is required''), w)
      | (Some _, Some _, Some _, None, _) \<Rightarrow> (Inl (Msg ''updater: primary client pair is required''), w)
      | (Some _, Some _, Some _, Some _, None) \<Rightarrow> (Inl (Msg ''updater: primary client pair is required''), w)
      | (Some slots, Some (wd, checker), Some restart, Some client, Some transport) \<Rightarrow>
          (let cfg = dp_Config deps; dir = uc_StateDir cfg
           in if length (dp_PublicKey deps) \<noteq> PublicKeySize then (Inl (Msg ''updater: invalid public key size''), w)
              else if uc_DeviceID cfg = '''' then (Inl (Msg ''updater: device id is required''), w)
              else if dir = '''' then (Inl (Msg ''updater: state dir is required''), w)
              else
                (case os_Stat dir w of
                   (Inl e, w) \<Rightarrow> (Inl (Wrap ''updater: stat state dir'' e), w)
                 | (Inr info, w) \<Rightarrow>
                     if info \<noteq> EDir then (Inl (Msg ''updater: state dir is not a directory''), w)
                     else
                       (let w = snd (SweepStaleTemp dir
                                  [''.tmp-'', stagingDeltaFile @ ''.partial'', stagingDeltaFile @ ''.''] orphanSweepMaxAge w)
                        in (Inr \<lparr>u_cfg = updater_defaults os_Args cfg,
                                 u_primary = \<lparr>pr_Client = client, pr_Transport = transport\<rparr>,
                                 u_fallback = dp_Fallback deps, u_slots = slots,
                                 u_publicKey = dp_PublicKey deps, u_watchdog = wd, u_checker = checker,
                                 u_restart = restart,
                                 u_hwInfo = (case dp_HWInfo deps of
                                    None \<Rightarrow> defaultHWInfo (fst platform) (snd platform) | Some f \<Rightarrow> f),
                                 u_seed = seed, u_rand = seed (clock w), u_draws = 0,
                                 u_pendingPath = path_join dir pendingUpdateFile,
                                 u_deltaStaging = path_join dir stagingDeltaFile,
                                 u_downloadState = path_join dir downloadStateFile,
                                 u_updateNowPath = path_join dir UpdateNowFile,
                                 u_restartCooldownPath = path_join dir restartCooldownFile,
                                 u_forceOnce = False\<rparr>, w)))))"

end
