(* ===== verification/Clock.thy ===== *)
theory Clock
  imports Downloader Slots
begin

text \<open>
  Time only moves forward: calls on files leave the clock alone, waiting and the network advance it, and
  so does a whole download. The termination of the agent's loop rests on this.
\<close>

text \<open>No step turns the clock back; a call on files leaves it alone.\<close>

definition later :: "'z os_scheme \<Rightarrow> 'z os_scheme \<Rightarrow> bool" where
  "later w w' \<longleftrightarrow> clock w \<le> clock w'"

lemma later_refl [simp]: "later w w"
  by (simp add: later_def)

lemma later_trans: "later w1 w2 \<Longrightarrow> later w2 w3 \<Longrightarrow> later w1 w3"
  by (simp add: later_def)

lemma later_rest: "same_rest w w' \<Longrightarrow> later w w'"
  by (simp add: later_def same_rest_def)

lemma later_quiet: "quiet w w' \<Longrightarrow> later w w'"
  by (simp add: later_def quiet_def)

text \<open>Time passes and the disk stays as it is; system calls may be made.\<close>

definition still :: "'z os_scheme \<Rightarrow> 'z os_scheme \<Rightarrow> bool" where
  "still w w' \<longleftrightarrow> same_disk w w' \<and> later w w'"

lemma still_refl [simp]: "still w w"
  by (simp add: still_def)

lemma still_trans: "still w1 w2 \<Longrightarrow> still w2 w3 \<Longrightarrow> still w1 w3"
  unfolding still_def by (blast intro: same_disk_trans later_trans)

lemma still_quiet: "quiet w w' \<Longrightarrow> still w w'"
  by (simp add: still_def later_quiet) (simp add: quiet_def)

lemma still_reads: "same_disk w w' \<and> same_rest w w' \<Longrightarrow> still w w'"
  by (simp add: still_def later_rest)

lemma file_calls_rest:
  "same_rest w (snd (os_Remove p w))" "same_rest w (snd (os_OpenCreate p m w))" "same_rest w (snd (os_Truncate0 f w))"
  "same_rest w (snd (os_Seek k w))" "same_rest w (snd (os_WriteAt f n d w))" "same_rest w (snd (os_Close w))"
  "same_rest w (snd (os_Rename p q w))"
  by (auto simp: os_Remove_def os_OpenCreate_def os_Truncate0_def os_Seek_def os_WriteAt_def os_Close_def os_Rename_def
      do_write_at_def syscall_def same_rest_def split: option.splits ent.splits sum.splits if_splits)

lemma WriteFile_rest: "\<not> is_tmp p \<Longrightarrow> same_rest w (snd (WriteFile p c m w))"
  using WriteFile_atomic [of p c m w "fst (WriteFile p c m w)" "snd (WriteFile p c m w)"]
  by (simp add: atomic_write_def)

lemma copy_at_rest: "same_rest w (snd (copy_at f off cs rerr w))"
proof (induction cs arbitrary: off w)
  case (Cons c cs)
  obtain n e w1 where 1: "os_WriteAt f off (bytes_of c) w = ((n, e), w1)" by (metis prod.collapse)
  have "same_rest w w1" using file_calls_rest(5) [of w f off "bytes_of c"] 1 by simp
  with Cons.IH [of w1 "off + n"] 1 show ?case
    by (cases e) (auto split: prod.splits intro: same_rest_trans)
qed simp

lemma receive_rest: "same_rest w (snd (receive tmp ch re eff off w))"
proof -
  obtain r1 w1 where 1: "os_OpenCreate tmp 420 w = (r1, w1)" by fastforce
  have s1: "same_rest w w1" using file_calls_rest(2) [of w tmp 420] 1 by simp
  show ?thesis
  proof (cases r1)
    case (Inl e)
    with 1 s1 show ?thesis by (simp add: receive_def)
  next
    case (Inr f)
    define o' where "o' = (if eff \<noteq> off then 0 else off)"
    obtain r2 w2 where 2: "(if eff \<noteq> off then os_Truncate0 f w1 else (None, w1)) = (r2, w2)" by fastforce
    have s2: "same_rest w w2" using 2 file_calls_rest(3) [of w1 f] s1 by (auto split: if_splits intro: same_rest_trans)
    obtain r3 w3 where 3: "os_Seek o' w2 = (r3, w3)" by fastforce
    have s3: "same_rest w w3" using 3 file_calls_rest(4) [of w2 o'] s2 by (auto intro: same_rest_trans)
    obtain n e w4 where 4: "copy_at f (nat o') ch re w3 = ((n, e), w4)" by (metis prod.collapse)
    have s4: "same_rest w w4" using copy_at_rest [of w3 f "nat o'" ch re] 4 s3 by (auto intro: same_rest_trans)
    have "receive tmp ch re eff off w = (case r2 of Some e \<Rightarrow> ((off, Some (Wrap ''truncate tmp'' e)), snd (os_Close w2))
        | None \<Rightarrow> (case r3 of Some e \<Rightarrow> ((o', Some (Wrap ''seek tmp'' e)), snd (os_Close w3))
            | None \<Rightarrow> ((o' + int n, e), snd (os_Close w4))))"
      unfolding receive_def 1 prod.case Inr sum.case 2 Let_def o'_def [symmetric] 3 4
      by (simp split: option.split)
    then show ?thesis using s2 s3 s4 file_calls_rest(6) same_rest_trans by (auto split: option.split)
  qed
qed

context delta_transport
begin

lemma attempt_later: "d_transport d = tr \<Longrightarrow> later w (snd (attempt d c tgt tmp off w))"
proof -
  assume tr: "d_transport d = tr"
  obtain r1 w1 where 1: "t_FetchRange tr c (tgt_URL tgt) off w = (r1, w1)" by fastforce
  have s1: "later w w1" using fetch_clock [OF 1] by (simp add: later_def)
  have "later w1 (snd (receive tmp ch re eff off w1))" for ch re eff by (rule later_rest [OF receive_rest])
  with s1 1 tr show ?thesis
    by (cases r1) (auto simp: attempt_receive split: prod.split intro: later_trans)
qed

lemma saveState_rest: "dl_layout d tgt tmp \<Longrightarrow> same_rest w (saveState d tgt tmp k w)"
  by (auto simp: saveState_def Let_def dl_layout_def intro: WriteFile_rest)

lemma after_failure_later: "dl_layout d tgt tmp \<Longrightarrow> later w (snd (after_failure d tgt tmp k e w))"
  by (rule later_rest)
    (auto simp: after_failure_def intro: saveState_rest same_rest_trans [OF file_calls_rest(1)])

lemma select_later: "later w (snd (select_after c d w))"
  by (auto simp: select_after_def os_Sleep_def later_def split: option.split)

lemma loop_later:
  "d_transport d = tr \<Longrightarrow> dl_layout d tgt tmp \<Longrightarrow> later w (snd (download_loop d c tgt tmp n i b off w))"
proof (induction n arbitrary: i b off w)
  case (0 i b off w)
  obtain no e1 w1 where 1: "attempt d c tgt tmp off w = ((no, e1), w1)" by (metis prod.collapse)
  have s1: "later w w1" using attempt_later [OF 0(1), of w c tgt tmp off] 1 by simp
  show ?case
  proof (cases e1)
    case None
    with 1 s1 show ?thesis by (auto simp: download_loop_step [of _ _ _ _ 0] split: option.split)
  next
    case (Some e)
    obtain o2 w2 where 2: "after_failure d tgt tmp no e w1 = (o2, w2)" by fastforce
    have "later w w2" using s1 after_failure_later [OF 0(2), of w1 no e] 2 by (auto intro: later_trans)
    with 1 2 Some show ?thesis by (auto simp: download_loop_step [of _ _ _ _ 0] split: option.split)
  qed
next
  case (Suc n i b off w)
  obtain no e1 w1 where 1: "attempt d c tgt tmp off w = ((no, e1), w1)" by (metis prod.collapse)
  have s1: "later w w1" using attempt_later [OF Suc.prems(1), of w c tgt tmp off] 1 by simp
  show ?case
  proof (cases "ctx_Err c w = None \<and> e1 \<noteq> None")
    case False
    with 1 s1 show ?thesis by (auto simp: download_loop_step [of _ _ _ _ "Suc n"] split: option.split)
  next
    case True
    then obtain e where e: "e1 = Some e" by auto
    obtain o2 w2 where 2: "after_failure d tgt tmp no e w1 = (o2, w2)" by fastforce
    obtain r3 w3 where 3: "select_after c (next_wait d i b e) w2 = (r3, w3)" by fastforce
    have "later w w3"
      using s1 after_failure_later [OF Suc.prems(2), of w1 no e] select_later [of w2 c "next_wait d i b e"] 2 3
      by (auto intro: later_trans)
    with Suc.IH [OF Suc.prems, of w3 "Suc i" "next_backoff b" o2] 1 2 3 True e show ?thesis
      by (cases r3) (auto simp: download_loop_step [of _ _ _ _ "Suc n"] intro: later_trans)
  qed
qed

lemma finish_later: "later w (snd (finish_download H d tgt tmp w))"
proof -
  obtain r1 w1 where 1: "hashFile H tmp w = (r1, w1)" by fastforce
  have s1: "same_rest w w1" using hashFile_result(1) [OF 1] by blast
  have cl: "same_rest v (clearState d v)" for v by (simp add: clearState_def file_calls_rest(1))
  obtain r2 w2 where 2: "os_Rename tmp (tgt_OutPath tgt) w1 = (r2, w2)" by fastforce
  have s2: "same_rest w w2" using 2 file_calls_rest(7) [of w1 tmp "tgt_OutPath tgt"] s1 by (auto intro: same_rest_trans)
  have s3: "same_rest w (clearState d (snd (os_Remove tmp w1)))" "same_rest w (clearState d w2)"
    using s1 s2 cl file_calls_rest(1) same_rest_trans by metis+
  show ?thesis
    by (rule later_rest) (use 1 2 s1 s2 s3 in \<open>auto simp: finish_download_def Let_def split: sum.split option.split\<close>)
qed

lemma Download_later:
  assumes "d_transport d = tr" "dl_layout d tgt (tmp_of d tgt w)"
  shows "later w (snd (Download H d c tgt w))"
proof -
  obtain st w1 where 1: "loadState d tgt w = (st, w1)" by fastforce
  have s1: "later w w1" using loadState_quiet [OF 1] later_rest by blast
  define tmp where "tmp = (case st of None \<Rightarrow> tgt_OutPath tgt @ ''.partial'' | Some s \<Rightarrow> ds_TempFile s)"
  have lay: "dl_layout d tgt tmp" using assms(2) 1 by (simp add: tmp_of_def tmp_def)
  define off where "off = (case st of None \<Rightarrow> 0 | Some s \<Rightarrow> ds_BytesReceived s)"
  obtain r2 w2 where 2: "download_loop d c tgt tmp (nat (dc_MaxRetries (d_cfg d))) 0 (dc_RetryBackoff (d_cfg d)) off w1 = (r2, w2)"
    by fastforce
  have s2: "later w w2" using loop_later [OF assms(1) lay, of w1 c] 2 s1 later_trans by (metis snd_conv)
  have "snd (Download H d c tgt w) \<in> {w1, w2, snd (finish_download H d tgt tmp w2)}"
  proof -
    have "Download H d c tgt w =
        (if dc_MaxRetries (d_cfg d) < 0 then (Some (Msg ''download failed''), w1)
         else case r2 of Inl e \<Rightarrow> (Some e, w2)
           | Inr (Some lastErr) \<Rightarrow> (Some (Wrap ''download failed'' lastErr), w2)
           | Inr None \<Rightarrow> finish_download H d tgt tmp w2)"
      unfolding Download_def 1 prod.case Let_def tmp_def [symmetric] off_def [symmetric] 2 ..
    then show ?thesis by (auto split: sum.split option.split)
  qed
  moreover have "later w (snd (finish_download H d tgt tmp w2))" by (rule later_trans [OF s2 finish_later])
  ultimately show ?thesis using s1 s2 by auto
qed

end

section \<open>The resume state\<close>

text \<open>The state file, if any, names the partial file; neither of the two is a link.\<close>

definition resume_state :: "string \<Rightarrow> string \<Rightarrow> tree \<Rightarrow> bool" where
  "resume_state tmp sp fs \<longleftrightarrow>
     no_link tmp fs \<and> no_link sp fs \<and>
     (\<forall>c m t s st. map_of fs sp = Some (EFile c m t s) \<longrightarrow>
        Option.bind (parse_json c) dstate_of_json = Some st \<longrightarrow> ds_TempFile st = tmp)"

lemma resume_state_cong:
  "map_of fs tmp = map_of gs tmp \<Longrightarrow> map_of fs sp = map_of gs sp \<Longrightarrow> resume_state tmp sp fs = resume_state tmp sp gs"
  by (simp add: resume_state_def no_link_def)

lemma dstate_names_temp:
  "Option.bind (parse_json (Json (dstate_to_json st))) dstate_of_json = Some st' \<Longrightarrow> ds_TempFile st' = ds_TempFile st"
proof -
  have l: "to_lower ''delta_hash'' = ''delta_hash''" "to_lower ''bytes_received'' = ''bytes_received''"
    "to_lower ''temp_file'' = ''temp_file''" "to_lower ''transport'' = ''transport''" by code_simp+
  assume "Option.bind (parse_json (Json (dstate_to_json st))) dstate_of_json = Some st'"
  then show ?thesis
    by (auto simp: dstate_to_json_def dstate_of_json_def get_str_def get_int_def jfield_Cons l
        split: option.splits if_splits)
qed

lemma remove_other: "q \<noteq> p \<Longrightarrow> map_of (files (snd (os_Remove p w))) q = map_of (files w) q"
  using os_Remove_files [of p w "fst (os_Remove p w)" "snd (os_Remove p w)"] by (auto split: if_splits)

lemma remove_self: "map_of (files (snd (os_Remove p w))) p = map_of (files w) p \<or> map_of (files (snd (os_Remove p w))) p = None"
  using os_Remove_files [of p w "fst (os_Remove p w)" "snd (os_Remove p w)"] by (auto split: if_splits)

lemma resume_remove: "resume_state tmp sp (files w) \<Longrightarrow> resume_state tmp sp (files (snd (os_Remove p w)))"
  using remove_other [of tmp p w] remove_other [of sp p w] remove_self [of p w]
  by (cases "tmp = p"; cases "sp = p") (auto simp: resume_state_def no_link_def split: option.splits)

lemma resume_save:
  assumes "resume_state tmp (dc_StatePath (d_cfg d)) (files w)" "dl_layout d tgt tmp"
  shows "resume_state tmp (dc_StatePath (d_cfg d)) (files (saveState d tgt tmp k w))"
proof (cases "dc_StatePath (d_cfg d) = ''''")
  case True
  with assms show ?thesis by (simp add: saveState_def)
next
  case False
  let ?sp = "dc_StatePath (d_cfg d)"
  define st where "st = \<lparr>ds_DeltaHash = tgt_DeltaHash tgt, ds_BytesReceived = k,
                   ds_TempFile = tmp, ds_Transport = t_Name (d_transport d)\<rparr>"
  obtain r w' where W: "WriteFile ?sp (Json (dstate_to_json st)) 420 w = (r, w')" by fastforce
  have nt: "\<not> is_tmp ?sp" "\<not> is_tmp tmp" "tmp \<noteq> ?sp" using assms(2) by (auto simp: dl_layout_def)
  note at = WriteFile_atomic [OF W nt(1), unfolded atomic_write_def]
  have "map_of (files w') tmp = map_of (files w) tmp"
    using evolvesD [OF conjunct1 [OF conjunct1 [OF at]], of tmp] nt by simp
  moreover have "saveState d tgt tmp k w = w'" using False W by (simp add: saveState_def st_def)
  moreover have "ds_TempFile st = tmp" by (simp add: st_def)
  ultimately show ?thesis
    using assms(1) at dstate_names_temp [of st] by (auto simp: resume_state_def no_link_def split: if_splits)
qed

context delta_transport
begin

lemma attempt_resume:
  assumes "attempt d c tgt tmp off w = (r, w')" "d_transport d = tr" "dl_layout d tgt tmp"
    and "resume_state tmp (dc_StatePath (d_cfg d)) (files w)"
  shows "resume_state tmp (dc_StatePath (d_cfg d)) (files w')"
proof -
  have fs: "file_step {tmp} w w'" using attempt_step [OF assms(1,2)] assms(4) by (simp add: resume_state_def)
  have nt: "\<not> is_tmp tmp" "dc_StatePath (d_cfg d) \<noteq> tmp" using assms(3) by (auto simp: dl_layout_def)
  have "map_of (files w') (dc_StatePath (d_cfg d)) = map_of (files w) (dc_StatePath (d_cfg d))"
    using file_step_other [OF fs, of "dc_StatePath (d_cfg d)"] nt(2) by simp
  moreover have "no_link tmp (files w')"
    using file_step_no_link [OF fs nt(1)] assms(4) by (simp add: resume_state_def)
  ultimately show ?thesis using assms(4) by (simp add: resume_state_def no_link_def)
qed

lemma after_failure_resume:
  "dl_layout d tgt tmp \<Longrightarrow> resume_state tmp (dc_StatePath (d_cfg d)) (files w) \<Longrightarrow>
   resume_state tmp (dc_StatePath (d_cfg d)) (files (snd (after_failure d tgt tmp k e w)))"
  by (simp add: after_failure_def resume_save resume_remove)

lemma loop_resume:
  "download_loop d c tgt tmp n i b off w = (r, w') \<Longrightarrow> d_transport d = tr \<Longrightarrow> dl_layout d tgt tmp \<Longrightarrow>
   resume_state tmp (dc_StatePath (d_cfg d)) (files w) \<Longrightarrow> resume_state tmp (dc_StatePath (d_cfg d)) (files w')"
proof (induction n arbitrary: i b off w)
  case (0 i b off w)
  obtain no e1 w1 where 1: "attempt d c tgt tmp off w = ((no, e1), w1)" by (metis prod.collapse)
  note s1 = attempt_resume [OF 1 0(2-4)]
  show ?case
  proof (cases e1)
    case None
    with 0 1 s1 show ?thesis by (auto simp: download_loop_step [of _ _ _ _ 0] split: option.splits)
  next
    case (Some e)
    obtain o2 w2 where 2: "after_failure d tgt tmp no e w1 = (o2, w2)" by fastforce
    with after_failure_resume [OF 0(3) s1, of no e] 0 1 Some show ?thesis
      by (auto simp: download_loop_step [of _ _ _ _ 0] split: option.splits)
  qed
next
  case (Suc n i b off w)
  obtain no e1 w1 where 1: "attempt d c tgt tmp off w = ((no, e1), w1)" by (metis prod.collapse)
  note s1 = attempt_resume [OF 1 Suc.prems(2-4)]
  show ?case
  proof (cases "ctx_Err c w = None \<and> e1 \<noteq> None")
    case False
    with Suc.prems 1 s1 show ?thesis by (auto simp: download_loop_step [of _ _ _ _ "Suc n"] split: option.splits)
  next
    case True
    then obtain e where e: "e1 = Some e" by auto
    obtain o2 w2 where 2: "after_failure d tgt tmp no e w1 = (o2, w2)" by fastforce
    obtain r3 w3 where 3: "select_after c (next_wait d i b e) w2 = (r3, w3)" by fastforce
    have "files w3 = files w2"
      using 3 by (auto simp: select_after_def os_Sleep_def split: option.splits if_splits)
    with after_failure_resume [OF Suc.prems(3) s1, of no e] 2
    have s3: "resume_state tmp (dc_StatePath (d_cfg d)) (files w3)" by simp
    have "w' = w3 \<or> download_loop d c tgt tmp n (Suc i) (next_backoff b) o2 w3 = (r, w')"
      using Suc.prems(1) 1 2 3 True e by (auto simp: download_loop_step [of _ _ _ _ "Suc n"] split: option.splits)
    with s3 Suc.IH [OF _ Suc.prems(2,3) s3] show ?thesis by blast
  qed
qed

lemma finish_resume:
  assumes "dl_layout d tgt tmp" "resume_state tmp (dc_StatePath (d_cfg d)) (files w)"
  shows "resume_state tmp (dc_StatePath (d_cfg d)) (files (snd (finish_download H d tgt tmp w)))"
proof -
  let ?sp = "dc_StatePath (d_cfg d)"
  obtain r1 w1 where 1: "hashFile H tmp w = (r1, w1)" by fastforce
  have s1: "resume_state tmp ?sp (files w1)" using hashFile_result(1) [OF 1] assms(2) by (simp add: same_disk_def)
  have cl: "resume_state tmp ?sp (files (clearState d v))" if "resume_state tmp ?sp (files v)" for v
    using that by (cases "?sp = ''''") (simp_all add: clearState_def resume_remove)
  obtain r2 w2 where 2: "os_Rename tmp (tgt_OutPath tgt) w1 = (r2, w2)" by fastforce
  have s2: "resume_state tmp ?sp (files w2)"
  proof (cases r2)
    case (Some x)
    with os_Rename_err 2 s1 show ?thesis by (fastforce simp: same_disk_def)
  next
    case None
    obtain e where "files w2 = put (tgt_OutPath tgt) e (del tmp (files w1))" using os_Rename_ok [OF 2 [unfolded None]] .
    with s1 assms(1) show ?thesis by (auto simp: resume_state_def no_link_def dl_layout_def)
  qed
  have s3: "resume_state tmp ?sp (files (clearState d (snd (os_Remove tmp w1))))"
    "resume_state tmp ?sp (files (clearState d w2))"
    using cl [OF resume_remove [OF s1]] cl [OF s2] by blast+
  show ?thesis
    using 1 2 s1 s2 s3 by (auto simp: finish_download_def Let_def split: sum.split option.split)
qed

text \<open>A download keeps the resume state in order.\<close>

lemma Download_resume:
  assumes "d_transport d = tr" "dl_layout d tgt (tmp_of d tgt w)"
    and "resume_state (tmp_of d tgt w) (dc_StatePath (d_cfg d)) (files w)"
  shows "resume_state (tmp_of d tgt w) (dc_StatePath (d_cfg d)) (files (snd (Download H d c tgt w)))"
proof -
  obtain st w1 where 1: "loadState d tgt w = (st, w1)" by fastforce
  define tmp where "tmp = tmp_of d tgt w"
  note asm = assms(2,3) [folded tmp_def]
  have tmp: "(case st of None \<Rightarrow> tgt_OutPath tgt @ ''.partial'' | Some s \<Rightarrow> ds_TempFile s) = tmp"
    using 1 by (simp add: tmp_def tmp_of_def)
  have s1: "resume_state tmp (dc_StatePath (d_cfg d)) (files w1)"
    using loadState_quiet [OF 1] asm(2) by (simp add: same_disk_def)
  define off where "off = (case st of None \<Rightarrow> 0 | Some s \<Rightarrow> ds_BytesReceived s)"
  obtain r2 w2 where 2: "download_loop d c tgt tmp (nat (dc_MaxRetries (d_cfg d))) 0 (dc_RetryBackoff (d_cfg d)) off w1 = (r2, w2)"
    by fastforce
  note s2 = loop_resume [OF 2 assms(1) asm(1) s1]
  have "Download H d c tgt w =
      (if dc_MaxRetries (d_cfg d) < 0 then (Some (Msg ''download failed''), w1)
       else case r2 of Inl e \<Rightarrow> (Some e, w2)
         | Inr (Some lastErr) \<Rightarrow> (Some (Wrap ''download failed'' lastErr), w2)
         | Inr None \<Rightarrow> finish_download H d tgt tmp w2)"
    unfolding Download_def 1 prod.case Let_def tmp off_def [symmetric] 2 ..
  then show ?thesis unfolding tmp_def [symmetric]
    using s1 s2 finish_resume [OF asm(1) s2] by (auto split: sum.split option.split)
qed

end

end
