(* ===== verification/UpdateCycle.thy ===== *)
theory UpdateCycle
  imports Updater Clock
begin

text \<open>
  What the update cycle guarantees (\<open>pkg/agent/updater.go\<close>): which binary a cycle may activate and
  when, what a failure or a loss of power leaves on the device, what the boot phase does with an update
  that is pending, when a cycle is skipped, and how the loop ends.
\<close>

section \<open>The collaborators\<close>

locale restart_strategy =
  fixes rs :: "'z restart"
  assumes restart_quiet: "rs c b a w = (r, w') \<Longrightarrow> quiet w w'"
begin

lemma restart_disk: "rs c b a w = (r, w') \<Longrightarrow> same_disk w w'"
  using restart_quiet by (simp add: quiet_def)

end

interpretation exec_restart: restart_strategy "ExecRestart sys_exec envOpt environ" for sys_exec envOpt environ
  by unfold_locales
    (auto simp: ExecRestart_def Let_def split: prod.splits option.splits if_splits dest: remote_call_quiet)

interpretation exit_restart: restart_strategy ExitRestart
  by unfold_locales (simp add: ExitRestart_def)

locale health_checker =
  fixes check :: "'z checker"
  assumes check_still: "check c d w = (r, w') \<Longrightarrow> still w w'"
begin

lemma health_loop_still: "health_loop check c slot deadline n w = (r, w') \<Longrightarrow> still w w'"
proof (induction n arbitrary: w)
  case (0 w)
  define d where "d = (if clock w + slot > deadline then deadline else clock w + slot)"
  obtain r1 w1 where 1: "check c d w = (r1, w1)" by fastforce
  show ?case using 0 check_still [OF 1]
    by (auto simp: health_loop_step [of check c slot deadline 0 w] d_def [symmetric] 1 split: option.splits)
next
  case (Suc n w)
  define d where "d = (if clock w + slot > deadline then deadline else clock w + slot)"
  obtain r1 w1 where 1: "check c d w = (r1, w1)" by fastforce
  obtain r2 w2 where 2: "select_after c (d - clock w1) w1 = (r2, w2)" by fastforce
  have q1: "still w w1" by (rule check_still [OF 1])
  have q2: "still w1 w2"
    using 2 by (auto simp: select_after_def os_Sleep_def still_def later_def same_disk_def split: option.splits if_splits)
  note step = Suc.prems [unfolded health_loop_step [of check c slot deadline "Suc n" w] d_def [symmetric] 1]
  consider "w' = w" | "w' = w1" | "w' = w2" | "health_loop check c slot deadline n w2 = (r, w')"
    | "health_loop check c slot deadline n w1 = (r, w')"
    using step 2 by (auto split: option.splits if_splits)
  then show ?case using q1 q2 Suc.IH still_trans by cases (simp, blast+)
qed

lemma WaitForHealth_still: "WaitForHealth wd check c w = (r, w') \<Longrightarrow> still w w'"
  using health_loop_still by (auto simp: WaitForHealth_def Let_def split: if_splits)

end

text \<open>The default checker reports to the server through one of the clients, or fails.\<close>

interpretation default_checker: health_checker "DefaultHealthChecker_Check None"
  by unfold_locales (simp add: DefaultHealthChecker_Check_def)

interpretation heartbeat_checker:
  health_checker "DefaultHealthChecker_Check (Some (\<lambda>c d w. apfst (\<lambda>r. case r of Inl e \<Rightarrow> Some e | Inr m \<Rightarrow> None)
    (HTTP_Heartbeat net cd base c (Some hb) w)))" for net cd base hb
  by unfold_locales
    (auto simp: DefaultHealthChecker_Check_def apfst_def map_prod_def split: prod.splits intro: still_quiet dest: HTTP_quiet(1))

text \<open>An updater made of parts that keep their contracts.\<close>

definition pair_ok :: "'z client_pair \<Rightarrow> bool" where
  "pair_ok p \<longleftrightarrow> protocol_client (pr_Client p) \<and> delta_transport (pr_Transport p)"

definition parts_ok :: "'z updater \<Rightarrow> bool" where
  "parts_ok u \<longleftrightarrow> pair_ok (u_primary u) \<and> (\<forall>fb \<in> set_option (u_fallback u). pair_ok fb) \<and>
     restart_strategy (u_restart u) \<and> health_checker (u_checker u)"

lemma shipped_pairs [simp]:
  "pair_ok \<lparr>pr_Client = NewHTTPClient net cd url, pr_Transport = HTTPTransport net\<rparr>"
  "pair_ok \<lparr>pr_Client = NewCoAPClient net cd url o', pr_Transport = CoAPTransport net o'\<rparr>"
  by (simp_all add: pair_ok_def http_client.protocol_client_axioms coap_client.protocol_client_axioms
      http.delta_transport_axioms coap.delta_transport_axioms)

section \<open>The paths of the agent\<close>

definition slot_area :: "slot_manager \<Rightarrow> string set" where
  "slot_area s = {slot_path s SlotNameA, slot_path s SlotNameB, activeSymlink s, activeSymlink s @ ''.tmp''}"

definition partial_path :: "'z updater \<Rightarrow> string" where
  "partial_path u = u_deltaStaging u @ ''.partial''"

definition state_files :: "'z updater \<Rightarrow> string list" where
  "state_files u =
     [u_pendingPath u, u_deltaStaging u, partial_path u, u_downloadState u, u_updateNowPath u,
      u_restartCooldownPath u, wd_counter (u_watchdog u)]"

definition agent_layout :: "'z updater \<Rightarrow> bool" where
  "agent_layout u \<longleftrightarrow>
     layout (u_slots u) \<and> distinct (state_files u) \<and>
     (\<forall>q \<in> set (state_files u). \<not> is_tmp q \<and> q \<notin> slot_area (u_slots u))"

abbreviation state_area :: "'z updater \<Rightarrow> string set" where
  "state_area u \<equiv> set (state_files u) \<union> tmps"

text \<open>The resume state, if any, names the partial file of the staging area, which is a plain file.\<close>

definition resume_ok :: "'z updater \<Rightarrow> tree \<Rightarrow> bool" where
  "resume_ok u fs \<longleftrightarrow> resume_state (partial_path u) (u_downloadState u) fs"

lemma resume_ok_cong:
  "map_of fs (partial_path u) = map_of gs (partial_path u) \<Longrightarrow>
   map_of fs (u_downloadState u) = map_of gs (u_downloadState u) \<Longrightarrow> resume_ok u fs = resume_ok u gs"
  unfolding resume_ok_def by (rule resume_state_cong)

lemma slot_area_not_tmp: "layout s \<Longrightarrow> q \<in> slot_area s \<Longrightarrow> \<not> is_tmp q"
  using slot_path_facts(1) [of s] by (auto simp: slot_area_def layout_def Let_def)

lemma slot_area_disjoint: "agent_layout u \<Longrightarrow> q \<in> slot_area (u_slots u) \<Longrightarrow> q \<notin> state_area u"
  using slot_area_not_tmp by (auto simp: agent_layout_def)

text \<open>A step that stays in the state directory leaves the device alone.\<close>

definition away :: "'z updater \<Rightarrow> 'z os_scheme \<Rightarrow> 'z os_scheme \<Rightarrow> bool" where
  "away u w w' \<longleftrightarrow> evolves (state_area u) (any_at (state_area u)) w w' \<and> later w w' \<and>
     (resume_ok u (files w) \<longrightarrow> resume_ok u (files w'))"

lemma away_trans: "away u w1 w2 \<Longrightarrow> away u w2 w3 \<Longrightarrow> away u w1 w3"
  unfolding away_def using evolves_step later_trans by blast

lemma away_refl [simp]: "away u w w"
  by (simp add: away_def evolves_refl)

lemma away_same: "same_disk w w' \<and> same_rest w w' \<Longrightarrow> away u w w'"
  by (simp add: away_def evolves_same later_rest) (simp add: same_disk_def)

lemma away_quiet: "quiet w w' \<Longrightarrow> away u w w'"
  by (simp add: away_def later_quiet) (simp add: quiet_def evolves_same, simp add: same_disk_def)

lemma away_still: "still w w' \<Longrightarrow> away u w w'"
  by (simp add: away_def still_def evolves_same) (simp add: same_disk_def)

lemma away_sub:
  "evolves P (any_at P) w w' \<Longrightarrow> later w w' \<Longrightarrow> P \<subseteq> state_area u \<Longrightarrow>
   (resume_ok u (files w) \<longrightarrow> resume_ok u (files w')) \<Longrightarrow> away u w w'"
  unfolding away_def by (intro conjI, erule evolves_any) (auto simp: any_at_def)

lemma away_resume: "away u w w' \<Longrightarrow> resume_ok u (files w) \<Longrightarrow> resume_ok u (files w')"
  by (simp add: away_def)

lemma away_keeps: "away u w w' \<Longrightarrow> q \<notin> state_area u \<Longrightarrow> map_of (files w') q = map_of (files w) q"
  unfolding away_def by (blast dest: evolvesD)

lemma away_device:
  assumes "away u w w'" "agent_layout u"
  shows "device (u_slots u) (files w') = device (u_slots u) (files w)"
    "active_name (u_slots u) (files w') = active_name (u_slots u) (files w)"
proof -
  have same: "map_of (files w') q = map_of (files w) q" if "q \<in> slot_area (u_slots u)" for q
    by (rule away_keeps [OF assms(1) slot_area_disjoint [OF assms(2) that]])
  show "device (u_slots u) (files w') = device (u_slots u) (files w)"
    by (rule device_cong) (use assms(2) same in \<open>auto simp: agent_layout_def slot_area_def\<close>)
  then show "active_name (u_slots u) (files w') = active_name (u_slots u) (files w)"
    by (simp add: device_def)
qed

section \<open>Steps in the state directory\<close>

lemma remove_away: "q \<in> set (state_files u) \<Longrightarrow> away u w (snd (os_Remove q w))"
  using file_calls(1) [of q "state_area u" w "fst (os_Remove q w)" "snd (os_Remove q w)"]
  by (simp add: away_def file_step_def later_rest file_calls_rest(1) resume_ok_def resume_remove)

text \<open>The files that hold no resume state.\<close>

definition other_files :: "'z updater \<Rightarrow> string list" where
  "other_files u = [u_pendingPath u, u_restartCooldownPath u, wd_counter (u_watchdog u)]"

lemma write_away:
  assumes "agent_layout u" "q \<in> set (other_files u)"
  shows "away u w (snd (WriteFile q c m w))"
proof -
  obtain r w' where W: "WriteFile q c m w = (r, w')" by fastforce
  have q: "q \<in> set (state_files u)" using assms(2) by (auto simp: other_files_def state_files_def)
  then have nt: "\<not> is_tmp q" using assms(1) by (simp add: agent_layout_def)
  have keep: "map_of (files w') p = map_of (files w) p" if "p \<in> {partial_path u, u_downloadState u}" for p
  proof -
    have "p \<noteq> q" "\<not> is_tmp p"
      using that assms by (auto simp: agent_layout_def state_files_def other_files_def)
    then show ?thesis
      using WriteFile_atomic [OF W nt, unfolded atomic_write_def] by (blast dest: evolvesD [of _ _ _ _ p])
  qed
  have "file_step (state_area u) w w'" using q by (intro WriteFile_step [OF W _ _ nt]) auto
  then show ?thesis
    using W WriteFile_rest [OF nt, of w c m] resume_ok_cong [of "files w'" u "files w", OF keep keep]
    by (simp add: away_def file_step_def later_rest)
qed

lemma in_state_files [simp]:
  "u_pendingPath u \<in> set (state_files u)" "u_deltaStaging u \<in> set (state_files u)"
  "partial_path u \<in> set (state_files u)" "u_downloadState u \<in> set (state_files u)"
  "u_updateNowPath u \<in> set (state_files u)" "u_restartCooldownPath u \<in> set (state_files u)"
  "wd_counter (u_watchdog u) \<in> set (state_files u)"
  by (simp_all add: state_files_def)

lemma state_ops_away:
  "away u w (clearPending u w)" "away u w (clearRestartCooldown u w)"
  "agent_layout u \<Longrightarrow> away u w (armRestartCooldown u w)"
  "agent_layout u \<Longrightarrow> away u w (snd (writePending u p w))"
  by (auto simp: clearPending_def clearRestartCooldown_def armRestartCooldown_def writePending_def Let_def
      other_files_def intro: remove_away write_away)

lemma ActiveSlot_quiet:
  "ActiveSlot H s w = (r, w') \<Longrightarrow> same_disk w w' \<and> same_rest w w'"
  using resolveActive_result(1) hashFile_result(1) same_disk_trans same_rest_trans
  by (fastforce simp: ActiveSlot_def split: sum.splits prod.splits)

lemma ActiveSlot_result:
  assumes "ActiveSlot H s w = (Inr (p, h, n), w')" "layout s"
  shows "active_name s (files w) = Some n" "n = SlotNameA \<or> n = SlotNameB"
    "map_of (files w) (activeSymlink s) = Some (ELink (slot_path s n)) \<Longrightarrow> p = slot_path s n"
    "map_of (files w) p = Some (EFile c m t sy) \<Longrightarrow> h = sha256_hex H (bytes_of c)"
proof -
  obtain w1 where 1: "resolveActive s w = (Inr (p, n), w1)" and 2: "hashFile H p w1 = (Inr h, w')"
    using assms(1) by (auto simp: ActiveSlot_def split: sum.splits prod.splits)
  from resolveActive_result(2) [OF 1] show n: "active_name s (files w) = Some n" "n = SlotNameA \<or> n = SlotNameB"
    by auto
  from resolveActive_result(3) [OF 1] slot_path_facts(3) [OF assms(2) n(2)]
  show "map_of (files w) (activeSymlink s) = Some (ELink (slot_path s n)) \<Longrightarrow> p = slot_path s n" by auto
  show "map_of (files w) p = Some (EFile c m t sy) \<Longrightarrow> h = sha256_hex H (bytes_of c)"
    using resolveActive_result(1) [OF 1] hashFile_result(2) [OF 2] by (simp add: same_disk_def)
qed

lemma readRestartCooldown_same:
  "readRestartCooldown u w = (r, w') \<Longrightarrow> same_disk w w' \<and> same_rest w w'"
  using os_reads(3) by (fastforce simp: readRestartCooldown_def split: sum.splits prod.splits option.splits if_splits)

lemma peek_same: "peekForceOnce u w = (r, w') \<Longrightarrow> same_disk w w' \<and> same_rest w w'"
  using os_reads(1) by (fastforce simp: peekForceOnce_def split: sum.splits prod.splits if_splits)

lemma cooldown_gate_away: "cooldown_gate u w = (b, w') \<Longrightarrow> away u w w'"
proof -
  assume eq: "cooldown_gate u w = (b, w')"
  obtain r1 w1 where 1: "readRestartCooldown u w = (r1, w1)" by fastforce
  obtain r2 w2 where 2: "peekForceOnce u w1 = (r2, w2)" by fastforce
  have a1: "away u w w1" using readRestartCooldown_same [OF 1] away_same by blast
  have a2: "away u w1 w2" using peek_same [OF 2] away_same by blast
  have "w' = w1 \<or> w' = w2 \<or> w' = clearRestartCooldown u w2 \<or> w' = clearRestartCooldown u w1"
    using eq 1 2 by (auto simp: cooldown_gate_def split: option.splits if_splits bool.splits)
  then show ?thesis using a1 a2 state_ops_away(2) away_trans by blast
qed

lemma heartbeat_quiet_pair:
  assumes "heartbeatWithFallback u c hb w = (r, w')" "parts_ok u"
  shows "quiet w w'" "r = Inr (resp, pair) \<Longrightarrow> pair_ok pair"
proof -
  obtain r1 w1 where 1: "c_Heartbeat (pr_Client (u_primary u)) c (Some hb) w = (r1, w1)" by fastforce
  have q1: "quiet w w1"
    using protocol_client.heartbeat_quiet 1 assms(2) unfolding parts_ok_def pair_ok_def by blast
  have "quiet w w' \<and> (\<forall>resp pair. r = Inr (resp, pair) \<longrightarrow> pair_ok pair)"
  proof (cases "\<exists>e fb. r1 = Inl e \<and> u_fallback u = Some fb")
    case True
    then obtain e fb where fb: "r1 = Inl e" "u_fallback u = Some fb" by blast
    obtain r2 w2 where 2: "c_Heartbeat (pr_Client fb) c (Some hb) w1 = (r2, w2)" by fastforce
    have ok: "pair_ok fb" using assms(2) fb(2) by (simp add: parts_ok_def)
    then have "quiet w1 w2" using protocol_client.heartbeat_quiet 2 unfolding pair_ok_def by blast
    moreover have "w' = w2" using assms(1) 1 2 fb by (auto simp: heartbeatWithFallback_def split: sum.splits)
    moreover have "pair_ok pair" if "r = Inr (resp, pair)" for resp pair
      using assms(1) 1 2 fb ok that by (auto simp: heartbeatWithFallback_def split: sum.splits)
    ultimately show ?thesis using q1 quiet_trans by blast
  next
    case False
    with assms 1 q1 show ?thesis
      by (auto simp: heartbeatWithFallback_def parts_ok_def split: sum.splits option.splits)
  qed
  then show "quiet w w'" "r = Inr (resp, pair) \<Longrightarrow> pair_ok pair" by blast+
qed

lemma report_quiet_pair:
  assumes "reportUpdate u c p n ok why w = (r, w')" "parts_ok u"
  shows "quiet w w'"
proof -
  define rep where "rep = \<lparr>repDeviceID = uc_DeviceID (u_cfg u), repPreviousHash = p, repNewHash = n,
                 repSuccess = ok, repRollbackReason = why, repTimestamp = time_Unix w\<rparr>"
  obtain r1 w1 where 1: "c_Report (pr_Client (u_primary u)) c (Some rep) w = (r1, w1)" by fastforce
  have q1: "quiet w w1"
    using protocol_client.report_quiet 1 assms(2) unfolding parts_ok_def pair_ok_def by blast
  show ?thesis
  proof (cases "\<exists>e fb. r1 = Some e \<and> u_fallback u = Some fb")
    case True
    then obtain e fb where fb: "r1 = Some e" "u_fallback u = Some fb" by blast
    obtain r2 w2 where 2: "c_Report (pr_Client fb) c (Some rep) w1 = (r2, w2)" by fastforce
    have "pair_ok fb" using assms(2) fb(2) by (simp add: parts_ok_def)
    then have "quiet w1 w2" using protocol_client.report_quiet 2 unfolding pair_ok_def by blast
    moreover have "w' = w2"
      using assms(1) 1 2 fb by (auto simp: reportUpdate_def rep_def [symmetric] Let_def split: option.splits)
    ultimately show ?thesis using q1 quiet_trans by blast
  next
    case False
    with assms(1) 1 q1 show ?thesis
      by (auto simp: reportUpdate_def rep_def [symmetric] Let_def split: option.splits)
  qed
qed

section \<open>Up to the swap\<close>

lemma consume_result:
  assumes "consumeForceOnce u w = ((f, u'), w')"
  shows "away u w w'" "u' = u\<lparr>u_forceOnce := False\<rparr>"
    "f \<Longrightarrow> u_forceOnce u \<or> map_of (files w) (u_updateNowPath u) \<noteq> None"
proof -
  obtain r1 w1 where 1: "os_Stat (u_updateNowPath u) w = (r1, w1)" by fastforce
  have a1: "away u w w1" using os_reads(1) [OF 1] away_same by blast
  have "map_of (files w) (u_updateNowPath u) \<noteq> None" if "r1 = Inr i" for i
    using 1 that by (cases "map_of (files w) (u_updateNowPath u)") (auto simp: os_Stat_def syscall_def split: option.splits)
  moreover have "away u w (snd (os_Remove (u_updateNowPath u) w1))"
    using a1 remove_away [of "u_updateNowPath u" u w1] away_trans by (metis in_state_files(5))
  ultimately show "away u w w'" "u' = u\<lparr>u_forceOnce := False\<rparr>"
    "f \<Longrightarrow> u_forceOnce u \<or> map_of (files w) (u_updateNowPath u) \<noteq> None"
    using assms 1 a1 by (auto simp: consumeForceOnce_def Let_def split: sum.splits)
qed

lemma tmp_of_resume:
  assumes "resume_ok u (files w)" "dc_StatePath (d_cfg d) = u_downloadState u" "tgt_OutPath tgt = u_deltaStaging u"
  shows "tmp_of d tgt w = partial_path u"
proof -
  obtain st w1 where 1: "loadState d tgt w = (st, w1)" by fastforce
  show ?thesis
  proof (cases st)
    case None
    with 1 assms(3) show ?thesis by (simp add: tmp_of_def partial_path_def)
  next
    case (Some s)
    obtain r1 w2 where 2: "os_ReadFile (u_downloadState u) w = (r1, w2)" by fastforce
    from 1 2 Some assms(2) obtain c where c: "r1 = Inr c" "Option.bind (parse_json c) dstate_of_json = Some s"
      by (auto simp: loadState_def split: if_splits sum.splits option.splits)
    have "\<exists>m t sy. map_of (files w) (u_downloadState u) = Some (EFile c m t sy)"
      using 2 c(1) assms(1)
      by (auto simp: resume_ok_def resume_state_def no_link_def os_ReadFile_def syscall_def
          split: option.splits ent.splits if_splits)
    with assms(1) c(2) 1 Some show ?thesis by (auto simp: resume_ok_def resume_state_def tmp_of_def)
  qed
qed

lemma fetch_result:
  assumes "fetch_transfer L u c resp pair w = (r, w')" "agent_layout u" "resume_ok u (files w)" "pair_ok pair"
  shows "away u w w'"
    "r = None \<Longrightarrow> \<exists>f m t s. map_of (files w') (u_deltaStaging u) = Some (EFile f m t s) \<and>
       sha256HexBytes L (bytes_of f) = DeltaHash resp"
proof -
  let ?url = "c_DeltaURL (pr_Client pair) (if BinaryEndpoint resp \<noteq> '''' then BinaryEndpoint resp else DeltaEndpoint resp)"
  define dl where "dl = NewDownloader (pr_Transport pair)
      \<lparr>dc_StatePath = u_downloadState u, dc_MaxRetries = uc_MaxRetries (u_cfg u),
       dc_RetryBackoff = uc_RetryBackoff (u_cfg u)\<rparr> (u_seed u (clock w))"
  define tgt where "tgt = \<lparr>tgt_URL = ?url, tgt_DeltaHash = DeltaHash resp,
      tgt_TotalSize = DeltaSize resp, tgt_OutPath = u_deltaStaging u\<rparr>"
  have dl: "d_transport dl = pr_Transport pair" "dc_StatePath (d_cfg dl) = u_downloadState u"
    by (simp_all add: dl_def NewDownloader_def Let_def)
  have out: "tgt_OutPath tgt = u_deltaStaging u" "tgt_DeltaHash tgt = DeltaHash resp" by (simp_all add: tgt_def)
  have tmp: "tmp_of dl tgt w = partial_path u" by (rule tmp_of_resume [OF assms(3) dl(2) out(1)])
  have lay: "dl_layout dl tgt (partial_path u)"
    using assms(2) by (auto simp: dl_layout_def dl out agent_layout_def state_files_def)
  obtain r1 w1 where 1: "Download (lib_sha L) dl c tgt w = (r1, w1)" by fastforce
  have fd: "fetch_transfer L u c resp pair w =
      (if ?url = '''' then (Some (Msg ''manifest missing delta_endpoint and binary_endpoint''), w)
       else case Download (lib_sha L) dl c tgt w of
              (Some e, w) \<Rightarrow> (Some (Wrap (''download '' @ transferModeName (BinaryEndpoint resp \<noteq> '''')) e), w)
            | (None, w) \<Rightarrow> (None, w))"
    unfolding fetch_transfer_def dl_def tgt_def Let_def ..
  have "no_link (partial_path u) (files w)" using assms(3) by (simp add: resume_ok_def resume_state_def)
  with assms(4) have D: "evolves (dl_paths dl tgt (partial_path u)) (any_at (dl_paths dl tgt (partial_path u))) w w1"
    "r1 = None \<Longrightarrow> \<exists>f m t s. map_of (files w1) (u_deltaStaging u) = Some (EFile f m t s) \<and>
       sha256_hex (lib_sha L) (bytes_of f) = DeltaHash resp"
    using delta_transport.Download_result [OF _ 1 dl(1)] tmp lay unfolding pair_ok_def out [symmetric] by fastforce+
  have "dl_paths dl tgt (partial_path u) \<subseteq> state_area u"
    by (auto simp: dl_paths_def dl out)
  moreover have "later w w1"
    using delta_transport.Download_later [OF _ dl(1), of tgt w "lib_sha L" c] assms(4) tmp lay 1
    by (simp add: pair_ok_def)
  moreover have "resume_ok u (files w1)"
    using delta_transport.Download_resume [OF _ dl(1), of tgt w "lib_sha L" c] assms(3,4) tmp lay 1 dl(2)
    by (simp add: pair_ok_def resume_ok_def)
  ultimately have "away u w w1" by (blast intro: away_sub [OF D(1)])
  with assms(1) 1 D(2) show "away u w w'" "r = None \<Longrightarrow> \<exists>f m t s. map_of (files w') (u_deltaStaging u) = Some (EFile f m t s) \<and>
       sha256HexBytes L (bytes_of f) = DeltaHash resp"
    by (auto simp: fd sha256_hex_lib split: if_splits option.splits)
qed

lemma reconstruct_result:
  assumes "reconstruct L u p resp w = (r, w')"
  shows "same_disk w w' \<and> same_rest w w'" "r = Inr b \<Longrightarrow> sha256HexBytes L b = TargetHash resp"
proof -
  obtain r1 w1 where 1: "os_ReadFile (u_deltaStaging u) w = (r1, w1)" by fastforce
  obtain r2 w2 where 2: "os_ReadFile p w1 = (r2, w2)" by fastforce
  note s = os_reads(3) [OF 1] os_reads(3) [OF 2]
  have "w' = w1 \<or> w' = w2"
    using assms 1 2 by (auto simp: reconstruct_def split: sum.splits if_splits prod.splits)
  then show "same_disk w w' \<and> same_rest w w'" using s same_disk_trans same_rest_trans by blast
  show "r = Inr b \<Longrightarrow> sha256HexBytes L b = TargetHash resp"
    using assms 1 2 by (auto simp: reconstruct_def split: sum.splits if_splits prod.splits)
qed

section \<open>The swap\<close>

abbreviation dev :: "'z updater \<Rightarrow> 'z os_scheme \<Rightarrow> string option \<times> ent option \<times> ent option" where
  "dev u w \<equiv> device (u_slots u) (files w)"

text \<open>What an installation over the active slot \<open>a\<close> may leave at a path: the file of the state
  directory in any shape, the complete new binary in the other slot, the link at one of the slots.\<close>

definition install_effects :: "'z updater \<Rightarrow> string \<Rightarrow> ent option set \<Rightarrow> string \<Rightarrow> ent option set" where
  "install_effects u a E q =
     (let s = u_slots u
      in if q \<in> state_area u \<or> q = activeSymlink s @ ''.tmp'' then UNIV
         else if q = activeSymlink s then {Some (ELink (slot_path s (other a))), Some (ELink (slot_path s a))}
         else if q = slot_path s (other a) then E else {})"

definition installs :: "'z updater \<Rightarrow> string \<Rightarrow> ent option set \<Rightarrow> 'z os_scheme \<Rightarrow> 'z os_scheme \<Rightarrow> bool" where
  "installs u a E w w' \<longleftrightarrow>
     evolves (state_area u \<union> slot_area (u_slots u)) (install_effects u a E) w w' \<and> later w w' \<and>
     (resume_ok u (files w) \<longrightarrow> resume_ok u (files w'))"

lemma installs_trans: "installs u a E w1 w2 \<Longrightarrow> installs u a E w2 w3 \<Longrightarrow> installs u a E w1 w3"
  unfolding installs_def using evolves_step later_trans by blast

lemma installs_away: "away u w w' \<Longrightarrow> installs u a E w w'"
  unfolding installs_def away_def
  by (elim conjE, intro conjI, erule evolves_mono) (auto simp: install_effects_def any_at_def)

lemma installs_mono: "installs u a E w w' \<Longrightarrow> E \<subseteq> F \<Longrightarrow> installs u a F w w'"
  unfolding installs_def
  by (elim conjE, intro conjI, erule evolves_mono) (auto simp: install_effects_def Let_def)

lemma resume_ok_outside:
  assumes "agent_layout u" "evolves P W w w'" "P \<subseteq> slot_area (u_slots u) \<union> tmps"
  shows "resume_ok u (files w) \<longrightarrow> resume_ok u (files w')"
proof -
  have "map_of (files w') p = map_of (files w) p" if "p \<in> {partial_path u, u_downloadState u}" for p
  proof (rule evolvesD [OF assms(2)])
    have "p \<in> set (state_files u)" using that by auto
    with assms(1) have "\<not> is_tmp p" "p \<notin> slot_area (u_slots u)" by (auto simp: agent_layout_def)
    with assms(3) show "p \<notin> P" by auto
  qed
  then show ?thesis using resume_ok_cong by blast
qed

lemma installs_write:
  assumes "agent_layout u" "a = SlotNameA \<or> a = SlotNameB" "writes_at (slot_path (u_slots u) (other a)) {Some e} w w'"
  shows "installs u a {Some e} w w'"
proof -
  let ?p = "slot_path (u_slots u) (other a)"
  have o: "other a = SlotNameA \<or> other a = SlotNameB" using assms(2) by auto
  have in_area: "?p \<in> slot_area (u_slots u)" using o by (auto simp: slot_area_def)
  have lay: "layout (u_slots u)" using assms(1) by (simp add: agent_layout_def)
  have "only_at ?p {Some e} q \<subseteq> install_effects u a {Some e} q" for q
    using slot_path_facts(4,5) [OF lay o] slot_area_disjoint [OF assms(1) in_area]
    by (auto simp: only_at_def install_effects_def Let_def)
  moreover have "resume_ok u (files w) \<longrightarrow> resume_ok u (files w')"
    by (rule resume_ok_outside [OF assms(1) conjunct1 [OF assms(3)]]) (use in_area in auto)
  ultimately show ?thesis using assms(3) in_area unfolding installs_def by (auto intro: evolves_mono later_rest)
qed

lemma installs_flip:
  assumes "agent_layout u" "b = a \<or> b = other a" "a = SlotNameA \<or> a = SlotNameB"
    and "evolves (link_paths (activeSymlink (u_slots u)))
      (only_link (activeSymlink (u_slots u)) {Some (ELink (slot_path (u_slots u) b))}) w w'" "same_rest w w'"
  shows "installs u a E w w'"
proof -
  let ?l = "activeSymlink (u_slots u)"
  have "?l \<in> slot_area (u_slots u)" "?l @ ''.tmp'' \<in> slot_area (u_slots u)" by (simp_all add: slot_area_def)
  moreover from this slot_area_disjoint [OF assms(1)] have "?l \<notin> state_area u" by blast
  ultimately have "link_paths ?l \<subseteq> state_area u \<union> slot_area (u_slots u)"
    "only_link ?l {Some (ELink (slot_path (u_slots u) b))} q \<subseteq> install_effects u a E q" for q
    using assms(2) by (auto simp: only_link_def install_effects_def Let_def)
  moreover have "resume_ok u (files w) \<longrightarrow> resume_ok u (files w')"
    by (rule resume_ok_outside [OF assms(1,4)]) (auto simp: slot_area_def)
  ultimately show ?thesis using assms(4,5) unfolding installs_def by (auto intro: evolves_mono later_rest)
qed

lemma other_other [simp]: "n = SlotNameA \<or> n = SlotNameB \<Longrightarrow> other (other n) = n"
  by auto

lemma abs_swap_name [simp]: "fst (abs_swap d) = map_option other (fst d)"
  by (cases d) (simp add: abs_swap_def)

lemma abs_write_name [simp]: "fst (abs_write e d) = fst d"
  by (cases d) (simp add: abs_write_def)

lemma active_of_dev: "active_name (u_slots u) (files w) = fst (dev u w)"
  by (simp add: device_def)

definition pending_on_file :: "'z updater \<Rightarrow> pendingUpdate \<Rightarrow> tree \<Rightarrow> bool" where
  "pending_on_file u p fs \<longleftrightarrow>
     (\<exists>m t s. map_of fs (u_pendingPath u) = Some (EFile (Json (pending_to_json p)) m t s))"

lemma writePending_ok:
  assumes "writePending u p w = (None, w')" "agent_layout u"
  shows "pending_on_file u p (files w')"
proof -
  have "\<not> is_tmp (u_pendingPath u)" using assms(2) by (simp add: agent_layout_def)
  from WriteFile_atomic [OF assms(1) [unfolded writePending_def] this] show ?thesis
    by (auto simp: atomic_write_def pending_on_file_def)
qed

text \<open>The outcomes of an installation over the active slot \<open>a\<close> with the new file \<open>e\<close>.\<close>

definition install_outcome ::
  "'z updater \<Rightarrow> string \<Rightarrow> string \<Rightarrow> string \<Rightarrow> ent \<Rightarrow> 'z os_scheme \<Rightarrow> outcome \<Rightarrow> 'z os_scheme \<Rightarrow> bool" where
  "install_outcome u a old new e w out w' \<longleftrightarrow>
     (case out of
        Exec p \<Rightarrow>
          p = slot_path (u_slots u) (other a) \<and> dev u w' = abs_swap (abs_write e (dev u w)) \<and>
          (\<exists>t. pending_on_file u \<lparr>PreviousHash = old, NewHash = new, SwappedUnix = t\<rparr> (files w'))
      | Return r \<Rightarrow>
          r \<noteq> None \<and>
          (dev u w' = dev u w \<or> dev u w' = abs_write e (dev u w) \<or> dev u w' = abs_swap (abs_write e (dev u w))))"

lemma swap_result:
  assumes "Swap (u_slots u) w = (r, w')" "agent_layout u" "active_name (u_slots u) (files w) = Some a"
    and "a = SlotNameA \<or> a = SlotNameB"
  shows "installs u a E w w'" "dev u w' = (if r = None then abs_swap (dev u w) else dev u w)"
    "r = None \<Longrightarrow> map_of (files w') (activeSymlink (u_slots u)) = Some (ELink (slot_path (u_slots u) (other a)))"
proof -
  have lay: "layout (u_slots u)" using assms(2) by (simp add: agent_layout_def)
  have eq: "flip ''swap symlink'' (u_slots u) w = (r, w')" using assms(1) by (simp add: flips)
  show "dev u w' = (if r = None then abs_swap (dev u w) else dev u w)" by (rule flip_result(1) [OF eq lay])
  show "installs u a E w w'"
    using flip_result(3) [OF eq lay] assms(3) by (blast intro: installs_flip [OF assms(2) _ assms(4), of "other a"])
  show "r = None \<Longrightarrow> map_of (files w') (activeSymlink (u_slots u)) = Some (ELink (slot_path (u_slots u) (other a)))"
    using flip_link eq assms(3) by blast
qed

lemma rollback_result:
  assumes "Rollback (u_slots u) w = (r, w')" "agent_layout u" "active_name (u_slots u) (files w) = Some (other a)"
    and "a = SlotNameA \<or> a = SlotNameB"
  shows "installs u a E w w'" "dev u w' = (if r = None then abs_swap (dev u w) else dev u w)"
    "same_rest w w'"
proof -
  have lay: "layout (u_slots u)" using assms(2) by (simp add: agent_layout_def)
  have eq: "flip ''rollback symlink'' (u_slots u) w = (r, w')" using assms(1) by (simp add: flips)
  show "dev u w' = (if r = None then abs_swap (dev u w) else dev u w)" by (rule flip_result(1) [OF eq lay])
  show "installs u a E w w'"
    using flip_result(3) [OF eq lay] assms(3) other_other [OF assms(4)]
    by (intro installs_flip [OF assms(2) _ assms(4), of a]) simp_all
  show "same_rest w w'" using flip_result(3) [OF eq lay] by blast
qed

lemma abs_swap_swap: "fst d = Some a \<Longrightarrow> a = SlotNameA \<or> a = SlotNameB \<Longrightarrow> abs_swap (abs_swap d) = d"
  by (cases d) (auto simp: abs_swap_def)

lemma install_result:
  assumes eq: "install L u c h resp b w = (out, w')"
    and ok: "agent_layout u" "parts_ok u" "active_name (u_slots u) (files w) = Some a" "a = SlotNameA \<or> a = SlotNameB"
  defines "e \<equiv> EFile (Raw b) 493 (clock w) True"
  shows "(\<exists>r v. WriteToInactive (u_slots u) ([Raw b], None) w = (r, v) \<and> installs u a {Some e} w v \<and>
      installs u a {} v w' \<and> (r \<noteq> None \<longrightarrow> w' = v)) \<and>
    install_outcome u a h (TargetHash resp) e w out w'"
proof -
  let ?s = "u_slots u"
  have lay: "layout ?s" using ok(1) by (simp add: agent_layout_def)
  have rs: "quiet v v'" if "u_restart u x y z v = (r, v')" for x y z v r v'
    using restart_strategy.restart_quiet that ok(2) unfolding parts_ok_def by blast
  obtain r1 w1 where 1: "WriteToInactive ?s ([Raw b], None) w = (r1, w1)" by fastforce
  note W = WriteToInactive_result [OF 1 lay, unfolded joined_single, folded e_def]
  have i0: "installs u a {Some e} w w1" using W(3) ok(3) by (blast intro: installs_write [OF ok(1,4)])
  have i1: "installs u a {} w1 w1" by (simp add: installs_away)
  show ?thesis
  proof (cases r1)
    case (Some x)
    with eq 1 W(1) i0 i1 show ?thesis by (auto simp: install_def install_outcome_def)
  next
    case None
    with W(1) have d1: "dev u w1 = abs_write e (dev u w)" by simp
    define p where "p = \<lparr>PreviousHash = h, NewHash = TargetHash resp, SwappedUnix = time_Unix w1\<rparr>"
    obtain r2 w2 where 2: "writePending u p w1 = (r2, w2)" by fastforce
    have a2: "away u w1 w2" using state_ops_away(4) [OF ok(1), of w1 p] 2 by simp
    have d2: "dev u w2 = abs_write e (dev u w)" using away_device(1) [OF a2 ok(1)] d1 by simp
    have i2: "installs u a {} w1 w2" by (rule installs_trans [OF i1 installs_away [OF a2]])
    show ?thesis
    proof (cases r2)
      case (Some x)
      with eq 1 2 None d2 i2 i0 show ?thesis by (auto simp: install_def install_outcome_def p_def Let_def)
    next
      case r2: None
      have n2: "active_name ?s (files w2) = Some a" using d2 ok(3) by (simp add: active_of_dev)
      obtain r3 w3 where 3: "Swap ?s w2 = (r3, w3)" by fastforce
      note S = swap_result [OF 3 ok(1) n2 ok(4)]
      have i3: "installs u a {} w1 w3" by (rule installs_trans [OF i2 S(1)])
      show ?thesis
      proof (cases r3)
        case (Some x)
        have out: "out = Return (Some (Wrap ''swap'' x))" "w' = clearPending u w3"
          using eq 1 2 3 None r2 Some by (auto simp: install_def p_def Let_def)
        have "dev u w' = abs_write e (dev u w)"
          using away_device(1) [OF state_ops_away(1) ok(1), of w3] S(2) d2 Some out(2) by simp
        moreover have "installs u a {} w1 w'"
          unfolding out(2) by (rule installs_trans [OF i3 installs_away [OF state_ops_away(1)]])
        ultimately show ?thesis using 1 i0 \<open>r1 = None\<close> by (auto simp: install_outcome_def out(1))
      next
        case r3: None
        define w4 where "w4 = snd (os_Remove (u_deltaStaging u) w3)"
        have a4: "away u w3 w4" unfolding w4_def by (rule remove_away) simp
        obtain r5 w5 where 5: "ActiveSlot (lib_sha L) ?s w4 = (r5, w5)" by fastforce
        have a5: "away u w4 w5" using ActiveSlot_quiet [OF 5] away_same by blast
        note a35 = away_trans [OF a4 a5]
        have d4: "dev u w4 = abs_swap (abs_write e (dev u w))"
          using away_device(1) [OF a4 ok(1)] S(2) d2 r3 by simp
        then have d5: "dev u w5 = abs_swap (abs_write e (dev u w))"
          using away_device(1) [OF a5 ok(1)] by simp
        have i5: "installs u a {} w1 w5" by (rule installs_trans [OF i3 installs_away [OF a35]])
        note pre = eq [unfolded install_def 1 prod.case None option.case Let_def p_def [symmetric] 2 r2 3 r3 w4_def [symmetric] 5]
        show ?thesis
        proof (cases r5)
          case (Inl x)
          with pre d5 i5 i0 1 \<open>r1 = None\<close> show ?thesis by (auto simp: install_outcome_def)
        next
          case (Inr phn)
          obtain path hh n where phn: "phn = (path, hh, n)" by (cases phn) auto
          have link3: "map_of (files w3) (activeSymlink ?s) = Some (ELink (slot_path ?s (other a)))"
            by (rule S(3) [OF r3])
          have "activeSymlink ?s \<notin> state_area u"
            by (rule slot_area_disjoint [OF ok(1)]) (simp add: slot_area_def)
          with link3 away_keeps [OF a4] have link4: "map_of (files w4) (activeSymlink ?s) = Some (ELink (slot_path ?s (other a)))"
            by simp
          have n4: "active_name ?s (files w4) = Some (other a)" using d4 ok(3) by (simp add: active_of_dev)
          note A = ActiveSlot_result [OF 5 [unfolded Inr phn] lay]
          have path: "path = slot_path ?s (other a)" using A(1,3) n4 link4 by simp
          obtain r6 w6 where 6: "u_restart u c path (uc_SelfArgv (u_cfg u)) w5 = (r6, w6)" by fastforce
          have a6: "away u w5 w6" using rs [OF 6] away_quiet by blast
          show ?thesis
          proof (cases r6)
            case None
            have pd: "pending_on_file u p (files w2)" by (rule writePending_ok [OF 2 [unfolded r2] ok(1)])
            have out: "out = Exec path" "w' = w6" using pre Inr phn 6 None by auto
            have "map_of (files w') (u_pendingPath u) = map_of (files w2) (u_pendingPath u)"
            proof -
              have nl: "u_pendingPath u \<notin> link_paths (activeSymlink ?s)" "u_deltaStaging u \<noteq> u_pendingPath u"
                using ok(1) in_state_files(1) [of u] by (auto simp: agent_layout_def slot_area_def state_files_def)
              have e3: "\<exists>W. evolves (link_paths (activeSymlink ?s)) W w2 w3"
                using flip_result(3) [OF 3 [unfolded flips] lay] n2 by blast
              from nl e3 have "map_of (files w3) (u_pendingPath u) = map_of (files w2) (u_pendingPath u)"
                by (blast dest: evolvesD)
              moreover have "map_of (files w4) (u_pendingPath u) = map_of (files w3) (u_pendingPath u)"
                using os_Remove_files [of "u_deltaStaging u" w3 "fst (os_Remove (u_deltaStaging u) w3)" w4] nl(2)
                by (simp add: w4_def)
              ultimately show ?thesis
                using ActiveSlot_quiet [OF 5] rs [OF 6] out(2) by (simp add: same_disk_def quiet_def)
            qed
            moreover have "dev u w' = abs_swap (abs_write e (dev u w))"
              using away_device(1) [OF a6 ok(1)] d5 out(2) by simp
            moreover have "installs u a {} w1 w'"
              unfolding out(2) by (rule installs_trans [OF i5 installs_away [OF a6]])
            ultimately show ?thesis using out(1) path pd 1 i0 \<open>r1 = None\<close>
              by (auto simp: install_outcome_def pending_on_file_def p_def)
          next
            case (Some x)
            define w7 where "w7 = clearPending u w6"
            obtain r8 w8 where 8: "Rollback ?s w7 = (r8, w8)" by fastforce
            have out: "out = Return (Some (Wrap ''restart'' x))" "w' = armRestartCooldown u w8"
              using pre Inr phn 6 Some 8 by (auto simp: w7_def restart_failed_def)
            have a7: "away u w5 w7" unfolding w7_def by (rule away_trans [OF a6 state_ops_away(1)])
            have d7: "dev u w7 = abs_swap (abs_write e (dev u w))" using away_device(1) [OF a7 ok(1)] d5 by simp
            then have n7: "active_name ?s (files w7) = Some (other a)" using ok(3) by (simp add: active_of_dev)
            note R = rollback_result [OF 8 ok(1) n7 ok(4)]
            have a9: "away u w8 w'" unfolding out(2) by (rule state_ops_away(3) [OF ok(1)])
            have "dev u w' = abs_write e (dev u w) \<or> dev u w' = abs_swap (abs_write e (dev u w))"
              using away_device(1) [OF a9 ok(1)] R(2) d7 abs_swap_swap [of "abs_write e (dev u w)" a] ok(3,4)
              by (auto simp: active_of_dev split: if_splits)
            moreover have "installs u a {} w1 w'"
              by (rule installs_trans [OF i5 installs_trans [OF installs_away [OF a7] installs_trans [OF R(1) installs_away [OF a9]]]])
            ultimately show ?thesis using 1 i0 \<open>r1 = None\<close> by (auto simp: install_outcome_def out(1))
          qed
        qed
      qed
    qed
  qed
qed

section \<open>A whole cycle\<close>

text \<open>What lets a cycle install: the gate is open, the signature holds, the digest is the signed one.\<close>

definition signed_manifest :: "lib \<Rightarrow> bytes \<Rightarrow> manifest_response \<Rightarrow> bool" where
  "signed_manifest L pub resp \<longleftrightarrow>
     (\<exists>payload sig. ManifestSigningPayload (TargetHash resp) (DeltaHash resp) = Inr payload \<and>
        hex_decode (Signature resp) = Some sig \<and> lib_Verify L pub payload sig)"

lemma verify_manifest_signed: "verify_manifest L pub resp = None \<Longrightarrow> signed_manifest L pub resp"
  by (auto simp: verify_manifest_def signed_manifest_def crypto_Verify_def split: sum.splits option.splits if_splits)

definition accepted :: "lib \<Rightarrow> 'z updater \<Rightarrow> tree \<Rightarrow> manifest_response \<Rightarrow> bytes \<Rightarrow> bool" where
  "accepted L u fs resp b \<longleftrightarrow>
     (u_forceOnce u \<or> map_of fs (u_updateNowPath u) \<noteq> None \<or> policyAllows L (u_cfg u) (TargetVersion resp)) \<and>
     signed_manifest L (u_publicKey u) resp \<and>
     sha256HexBytes L b = TargetHash resp"

definition unforced :: "'z updater \<Rightarrow> 'z updater" where
  "unforced u = u\<lparr>u_forceOnce := False\<rparr>"

lemma unforced_simps [simp]:
  "u_cfg (unforced u) = u_cfg u" "u_slots (unforced u) = u_slots u" "u_publicKey (unforced u) = u_publicKey u"
  "u_primary (unforced u) = u_primary u" "u_fallback (unforced u) = u_fallback u"
  "u_restart (unforced u) = u_restart u" "u_pendingPath (unforced u) = u_pendingPath u"
  "u_deltaStaging (unforced u) = u_deltaStaging u" "u_downloadState (unforced u) = u_downloadState u"
  "u_updateNowPath (unforced u) = u_updateNowPath u" "u_watchdog (unforced u) = u_watchdog u"
  "u_restartCooldownPath (unforced u) = u_restartCooldownPath u" "u_seed (unforced u) = u_seed u"
  "state_files (unforced u) = state_files u" "partial_path (unforced u) = partial_path u"
  "parts_ok (unforced u) = parts_ok u" "agent_layout (unforced u) = agent_layout u"
  "resume_ok (unforced u) fs = resume_ok u fs" "away (unforced u) w w' = away u w w'"
  by (simp_all add: unforced_def state_files_def partial_path_def parts_ok_def agent_layout_def resume_ok_def
      away_def)

lemma gate_keeps:
  assumes "cooldown_gate u w = (b, w')" "agent_layout u"
  shows "q \<noteq> u_restartCooldownPath u \<Longrightarrow> map_of (files w') q = map_of (files w) q"
proof -
  obtain r1 w1 where 1: "readRestartCooldown u w = (r1, w1)" by fastforce
  obtain r2 w2 where 2: "peekForceOnce u w1 = (r2, w2)" by fastforce
  note s = readRestartCooldown_same [OF 1] peek_same [OF 2]
  assume q: "q \<noteq> u_restartCooldownPath u"
  have "w' = w1 \<or> w' = w2 \<or> w' = clearRestartCooldown u w2 \<or> w' = clearRestartCooldown u w1"
    using assms(1) 1 2 by (auto simp: cooldown_gate_def split: option.splits if_splits bool.splits)
  with s show ?thesis by (auto simp: clearRestartCooldown_def same_disk_def remove_other [OF q])
qed

lemma consume_keeps:
  assumes "consumeForceOnce u w = ((f, u'), w')" "q \<noteq> u_updateNowPath u"
  shows "map_of (files w') q = map_of (files w) q"
proof -
  obtain r1 w1 where 1: "os_Stat (u_updateNowPath u) w = (r1, w1)" by fastforce
  have "w' = w1 \<or> w' = snd (os_Remove (u_updateNowPath u) w1)"
    using assms(1) 1 by (auto simp: consumeForceOnce_def Let_def split: sum.splits)
  with os_reads(1) [OF 1] show ?thesis by (auto simp: same_disk_def remove_other [OF assms(2)])
qed

text \<open>A cycle that reaches the installation has passed every check; any other stays in the state directory.\<close>

lemma RunOnce_cases:
  assumes eq: "RunOnce L u c w = ((out, u'), w')"
    and ok: "agent_layout u" "parts_ok u" "resume_ok u (files w)"
  obtains r where "out = Return r" "away u w w'" "u' = u \<or> u' = unforced u"
  | resp b v h a where "away u w v" "accepted L u (files w) resp b" "u' = unforced u"
      "active_name (u_slots u) (files w) = Some a" "a = SlotNameA \<or> a = SlotNameB"
      "install L (unforced u) c h resp b v = (out, w')"
proof -
  obtain b1 w1 where 1: "cooldown_gate u w = (b1, w1)" by fastforce
  note a1 = cooldown_gate_away [OF 1]
  obtain r2 w2 where 2: "ActiveSlot (lib_sha L) (u_slots u) w1 = (r2, w2)" by fastforce
  have a2: "away u w w2" using ActiveSlot_quiet [OF 2] a1 away_same away_trans by blast
  show ?thesis
  proof (cases "b1 \<and> (\<exists>x. r2 = Inr x)")
    case False
    with eq 1 2 a1 a2 show ?thesis by (intro that(1) [of "case out of Return r \<Rightarrow> r"])
        (auto simp: RunOnce_def split: sum.splits bool.splits)
  next
    case True
    then obtain p h n where r2: "r2 = Inr (p, h, n)" by (metis prod_cases3)
    obtain hw w3 where 3: "remote_call (u_hwInfo u) w2 = (hw, w3)" by fastforce
    note q3 = remote_call_quiet [OF 3]
    define hb where "hb = \<lparr>hbDeviceID = uc_DeviceID (u_cfg u), hbVersionHash = h, hbHWInfo = hw,
        hbTimestamp = time_Unix w3, hbVersion = uc_Version (u_cfg u), hbArtifact = uc_Artifact (u_cfg u)\<rparr>"
    obtain r4 w4 where 4: "heartbeatWithFallback u c hb w3 = (r4, w4)" by fastforce
    note q4 = heartbeat_quiet_pair [OF 4 ok(2)]
    have a4: "away u w w4" using a2 q3 q4(1) away_quiet away_trans by blast
    note pre = eq [unfolded RunOnce_def 1 prod.case 2 r2 sum.case 3 Let_def hb_def [symmetric] 4]
    show ?thesis
    proof (cases "\<exists>resp pair. r4 = Inr (resp, pair) \<and> UpdateAvailable resp \<and> \<not> RetryAfter resp > 0 \<and>
        \<not> (Signature resp = '''' \<or> TargetHash resp = '''' \<or> DeltaHash resp = '''')")
      case False
      with pre True a4 show ?thesis by (intro that(1) [of "case out of Return r \<Rightarrow> r"]) (auto split: sum.splits if_splits)
    next
      case True4: True
      then obtain resp pair where r4: "r4 = Inr (resp, pair)" "UpdateAvailable resp" "\<not> RetryAfter resp > 0"
        "\<not> (Signature resp = '''' \<or> TargetHash resp = '''' \<or> DeltaHash resp = '''')" by blast
      have pair: "pair_ok pair" by (rule q4(2) [OF r4(1)])
      obtain f u5 w5 where 5: "consumeForceOnce u w4 = ((f, u5), w5)" by (metis prod_cases3 prod.collapse)
      note C = consume_result [OF 5]
      have u5: "u5 = unforced u" using C(2) by (simp add: unforced_def)
      have a5: "away u w w5" by (rule away_trans [OF a4 C(1)])
      note pre5 = pre [unfolded r4(1) sum.case prod.case 5 u5]
      show ?thesis
      proof (cases "(\<not> f \<and> \<not> policyAllows L (u_cfg u) (TargetVersion resp)) \<or> verify_manifest L (u_publicKey u) resp \<noteq> None")
        case True
        with pre5 \<open>b1 \<and> _\<close> r4 a5 show ?thesis
          by (intro that(1) [of "case out of Return r \<Rightarrow> r"]) (auto split: if_splits option.splits)
      next
        case gate: False
        have keep: "map_of (files w5) q = map_of (files w) q"
          if "q \<noteq> u_restartCooldownPath u" "q \<noteq> u_updateNowPath u" for q
          using consume_keeps [OF 5 that(2)] gate_keeps [OF 1 ok(1) that(1)] ActiveSlot_quiet [OF 2] q3 q4(1)
          by (simp add: quiet_def same_disk_def)
        have dist: "distinct (state_files u)" using ok(1) by (simp add: agent_layout_def)
        have "resume_ok u (files w5)"
          using ok(3) resume_ok_cong [OF keep keep] dist by (auto simp: state_files_def)
        moreover obtain r6 w6 where 6: "fetch_transfer L (unforced u) c resp pair w5 = (r6, w6)" by fastforce
        ultimately have a6: "away u w w6"
          using fetch_result(1) [OF 6 _ _ pair] ok(1) a5 away_trans by simp
        show ?thesis
        proof (cases r6)
          case (Some e)
          with pre5 \<open>b1 \<and> _\<close> r4 gate 6 a6 show ?thesis
            by (intro that(1) [of "case out of Return r \<Rightarrow> r"]) (auto split: if_splits option.splits)
        next
          case None
          obtain r7 w7 where 7: "reconstruct L (unforced u) p resp w6 = (r7, w7)" by fastforce
          have a7: "away u w w7" using reconstruct_result(1) [OF 7] a6 away_same away_trans by blast
          show ?thesis
          proof (cases r7)
            case (Inl e)
            with pre5 \<open>b1 \<and> _\<close> r4 gate 6 7 None a7 show ?thesis
              by (intro that(1) [of "case out of Return r \<Rightarrow> r"]) (auto split: if_splits option.splits)
          next
            case (Inr b)
            have inst: "install L (unforced u) c h resp b w7 = (out, w')" "u' = unforced u"
              using pre5 \<open>b1 \<and> _\<close> r4 gate 6 7 None Inr by (auto split: if_splits option.splits prod.splits)
            have "files w1 = files w2" using ActiveSlot_quiet [OF 2] by (simp add: same_disk_def)
            moreover have "active_name (u_slots u) (files w1) = active_name (u_slots u) (files w)"
              by (rule away_device(2) [OF a1 ok(1)])
            ultimately have n: "active_name (u_slots u) (files w) = Some n" "n = SlotNameA \<or> n = SlotNameB"
              using ActiveSlot_result(1,2) [OF 2 [unfolded r2]] ok(1) by (auto simp: agent_layout_def)
            have "map_of (files w4) (u_updateNowPath u) = map_of (files w) (u_updateNowPath u)"
              using gate_keeps [OF 1 ok(1), of "u_updateNowPath u"] ActiveSlot_quiet [OF 2] q3 q4(1) dist
              by (simp add: quiet_def same_disk_def state_files_def)
            then have "accepted L u (files w) resp b"
              using gate C(3) reconstruct_result(2) [OF 7 Inr] by (auto simp: accepted_def verify_manifest_signed)
            then show ?thesis by (rule that(2) [OF a7 _ inst(2) n inst(1)])
          qed
        qed
      qed
    qed
  qed
qed

lemma same_views [simp]:
  "install_outcome (unforced u) a h th e w out w' = install_outcome u a h th e w out w'"
  "installs (unforced u) a E w w' = installs u a E w w'"
proof -
  have "install_effects (unforced u) a E = install_effects u a E" by (rule ext) (simp add: install_effects_def)
  then show "installs (unforced u) a E w w' = installs u a E w w'" by (simp add: installs_def)
  show "install_outcome (unforced u) a h th e w out w' = install_outcome u a h th e w out w'"
    by (simp add: install_outcome_def pending_on_file_def split: outcome.split)
qed

lemma install_outcome_cong: "dev u v = dev u w \<Longrightarrow> install_outcome u a h th e v out w' = install_outcome u a h th e w out w'"
  by (simp only: install_outcome_def)

lemma RunOnce_result:
  assumes eq: "RunOnce L u c w = ((out, u'), w')"
    and ok: "agent_layout u" "parts_ok u" "resume_ok u (files w)"
  shows "(case out of Exec p \<Rightarrow> False | Return r \<Rightarrow> away u w w') \<or>
    (\<exists>resp b a h t. accepted L u (files w) resp b \<and> active_name (u_slots u) (files w) = Some a \<and>
       installs u a {Some (EFile (Raw b) 493 t True)} w w' \<and>
       install_outcome u a h (TargetHash resp) (EFile (Raw b) 493 t True) w out w')"
  using RunOnce_cases [OF eq ok]
proof cases
  case (2 resp b v h a)
  have n: "active_name (u_slots (unforced u)) (files v) = Some a"
    using away_device(2) [OF 2(1) ok(1)] 2(4) by simp
  from install_result [OF 2(6) _ _ n 2(5)] ok obtain x where
    I: "installs u a {Some (EFile (Raw b) 493 (clock v) True)} v x" "installs u a {} x w'"
    "install_outcome u a h (TargetHash resp) (EFile (Raw b) 493 (clock v) True) v out w'" by auto
  have "installs u a {Some (EFile (Raw b) 493 (clock v) True)} w w'"
    by (rule installs_trans [OF installs_away [OF 2(1)] installs_trans [OF I(1) installs_mono [OF I(2)]]]) simp
  moreover have "install_outcome u a h (TargetHash resp) (EFile (Raw b) 493 (clock v) True) w out w'"
    using I(3) install_outcome_cong [OF away_device(1) [OF 2(1) ok(1)]] by simp
  ultimately show ?thesis using 2(2,4) by blast
qed auto

section \<open>Power loss during an installation\<close>




section \<open>A restart that failed\<close>

text \<open>The directories are there, nothing but a file is in the way, and a temporary name is free.\<close>

definition can_recover :: "'z updater \<Rightarrow> 'z os_scheme \<Rightarrow> bool" where
  "can_recover u w \<longleftrightarrow>
     (let l = activeSymlink (u_slots u); cd = u_restartCooldownPath u
      in faults w = [] \<and> is_dir w (path_dir l) \<and> \<not> is_dir w (l @ ''.tmp'') \<and> path_dir (l @ ''.tmp'') = path_dir l \<and>
         is_dir w (path_dir cd) \<and> \<not> is_dir w cd \<and> \<not> is_dir w (u_pendingPath u) \<and>
         list_ex (\<lambda>n. map_of (files w) (path_join (path_dir cd) (''.tmp-'' @ show_nat n)) = None) (rand w))"

definition wake_time :: "'z updater \<Rightarrow> 'z os_scheme \<Rightarrow> int" where
  "wake_time u w = (clock w + uc_RestartFailureCooldown (u_cfg u)) div Second"

lemma cooldown_json_roundtrip:
  assumes "int64 (WakeAtUnix m)"
  shows "cooldown_of_json (cooldown_to_json m) = Some m"
proof -
  have l: "to_lower ''wake_at_unix'' = ''wake_at_unix''" "to_lower ''reason'' = ''reason''" by code_simp+
  show ?thesis using assms
    by (cases m) (auto simp: cooldown_of_json_def cooldown_to_json_def omit_str_def get_str_def get_int_def jfield_Cons l)
qed

lemma readRestartCooldown_stored:
  assumes "map_of (files w) (u_restartCooldownPath u) = Some (EFile (Json (cooldown_to_json m)) md t s)"
    "faults w = []" "int64 (WakeAtUnix m)" "WakeAtUnix m \<noteq> 0"
  shows "readRestartCooldown u w = (Some (WakeAtUnix m * Second), tick w)"
  using assms by (simp add: readRestartCooldown_def os_ReadFile_def cooldown_json_roundtrip eval_nat_numeral)

lemma no_fault_flip:
  assumes "faults w = []" "active_name s (files w) = Some a" "is_dir w (path_dir (activeSymlink s))"
    "\<not> is_dir w (activeSymlink s @ ''.tmp'')" "path_dir (activeSymlink s @ ''.tmp'') = path_dir (activeSymlink s)"
  shows "\<exists>w'. flip m s w = (None, w') \<and> faults w' = [] \<and> rand w' = rand w"
proof -
  let ?l = "activeSymlink s"
  obtain t where t: "map_of (files w) ?l = Some (ELink t)"
    using assms(2) by (auto simp: active_name_def split: option.splits ent.splits)
  then obtain n p where 1: "InactiveSlot s w = (Inr (p, n), tick w)"
    using assms(1,2) by (auto simp: active_name_def InactiveSlot_def resolveActive_def os_Readlink_def Let_def
        split: if_splits)
  have "\<not> is_dir (tick w) ?l" using t by (simp add: is_dir_def)
  with ReplaceSymlink_no_fault [of "tick w" ?l p] assms have
    "fst (ReplaceSymlink p ?l (tick w)) = None" "faults (snd (ReplaceSymlink p ?l (tick w))) = []"
    "rand (snd (ReplaceSymlink p ?l (tick w))) = rand w" by auto
  with 1 show ?thesis by (cases "ReplaceSymlink p ?l (tick w)") (auto simp: flip_def)
qed

lemma is_dir_keep: "map_of (files w') d = map_of (files w) d \<Longrightarrow> is_dir w' d = is_dir w d"
  by (simp add: is_dir_def)

lemma clearPending_no_fault:
  assumes "faults w = []" "\<not> is_dir w (u_pendingPath u)"
  shows "map_of (files (clearPending u w)) (u_pendingPath u) = None" "faults (clearPending u w) = []"
    "same_rest w (clearPending u w)" "rand (clearPending u w) = rand w"
  using assms by (auto simp: clearPending_def os_Remove_def is_dir_def same_rest_def unlink_at_def split: option.splits ent.splits)

lemma restart_failed_result:
  assumes ok: "agent_layout u" "can_recover u w" "active_name (u_slots u) (files w) = Some (other a)"
      "a = SlotNameA \<or> a = SlotNameB"
    and cd: "0 < uc_RestartFailureCooldown (u_cfg u)" "int64 (wake_time u w)"
  shows "dev u (restart_failed u w) = abs_swap (dev u w)"
    "map_of (files (restart_failed u w)) (u_pendingPath u) = None"
    "\<exists>m md t s. map_of (files (restart_failed u w)) (u_restartCooldownPath u) =
       Some (EFile (Json (cooldown_to_json m)) md t s) \<and> WakeAtUnix m = wake_time u w"
proof -
  let ?s = "u_slots u" and ?cd = "u_restartCooldownPath u"
  let ?l = "activeSymlink ?s"
  note can = ok(2) [unfolded can_recover_def Let_def]
  define w1 where "w1 = clearPending u w"
  have p1: "map_of (files w1) (u_pendingPath u) = None" "faults w1 = []" "clock w1 = clock w" "rand w1 = rand w"
    using clearPending_no_fault [of w u] can by (simp_all add: w1_def same_rest_def)
  have k1: "map_of (files w1) q = map_of (files w) q" if "q \<noteq> u_pendingPath u" for q
    using remove_other [OF that] by (simp add: w1_def clearPending_def)
  have lp: "?l \<in> slot_area ?s" "?l @ ''.tmp'' \<in> slot_area ?s" by (simp_all add: slot_area_def)
  have lay: "layout ?s" using ok(1) by (simp add: agent_layout_def)
  have dist: "u_pendingPath u \<noteq> ?cd" using ok(1) by (auto simp: agent_layout_def state_files_def)
  have pl: "u_pendingPath u \<notin> slot_area ?s" "?cd \<notin> slot_area ?s"
    using ok(1) in_state_files(1,6) [of u] unfolding agent_layout_def by blast+
  have d1: "dev u w1 = dev u w" unfolding w1_def by (rule away_device(1) [OF state_ops_away(1) ok(1)])
  have n1: "active_name ?s (files w1) = Some (other a)" using d1 ok(3) by (simp add: active_of_dev)
  have pd: "u_pendingPath u \<noteq> d" if "is_dir w d" for d using that can by auto
  have dirs1: "is_dir w1 (path_dir ?l)" "\<not> is_dir w1 (?l @ ''.tmp'')" "is_dir w1 (path_dir ?cd)" "\<not> is_dir w1 ?cd"
    using can k1 pd pl(1) lp(2) dist by (metis is_dir_keep)+
  obtain w2 where 2: "flip ''rollback symlink'' ?s w1 = (None, w2)" "faults w2 = []" "rand w2 = rand w1"
    using no_fault_flip [OF p1(2) n1 dirs1(1,2)] can by blast
  have d2: "dev u w2 = abs_swap (dev u w)" using flip_result(1) [OF 2(1) lay] d1 by simp
  have k2: "map_of (files w2) q = map_of (files w1) q" if "q \<notin> link_paths ?l" for q
    using flip_result(3) [OF 2(1) lay] n1 that by (blast dest: evolvesD)
  have c2: "clock w2 = clock w" using flip_result(3) [OF 2(1) lay] p1(3) by (simp add: same_rest_def)
  have ll: "?l \<noteq> path_dir ?cd" "?l @ ''.tmp'' \<noteq> path_dir ?cd"
  proof -
    have "\<not> is_dir w1 ?l" using n1 by (auto simp: active_name_def is_dir_def split: option.splits)
    then show "?l \<noteq> path_dir ?cd" "?l @ ''.tmp'' \<noteq> path_dir ?cd" using dirs1(2,3) by auto
  qed
  have dirs2: "is_dir w2 (path_dir ?cd)" "\<not> is_dir w2 ?cd"
  proof -
    have "?cd \<noteq> ?l" "?cd \<noteq> ?l @ ''.tmp''" using pl(2) lp by metis+
    then show "is_dir w2 (path_dir ?cd)" "\<not> is_dir w2 ?cd"
      using dirs1(3,4) k2 [of "path_dir ?cd"] k2 [of ?cd] ll by (simp_all add: is_dir_def)
  qed
  obtain n where n: "n \<in> set (rand w)" "map_of (files w) (path_join (path_dir ?cd) (''.tmp-'' @ show_nat n)) = None"
    using can by (auto simp: list_ex_iff)
  let ?t = "path_join (path_dir ?cd) (''.tmp-'' @ show_nat n)"
  have tt: "is_tmp ?t" by (rule is_tmp_created) simp
  have "?t \<noteq> u_pendingPath u" "?t \<notin> link_paths ?l"
    using tt slot_area_not_tmp [OF lay] lp ok(1) in_state_files(1) [of u] by (auto simp: agent_layout_def)
  then have "map_of (files w2) ?t = None" using k1 k2 n(2) by simp
  then obtain tmp rs where temp: "pick_temp (rand w2) (path_dir ?cd) ''.tmp-'' (files w2) = Some (tmp, rs)"
    using pick_temp_exists [of n "rand w2" "files w2" "path_dir ?cd" "''.tmp-''"] n(1) 2(3) p1(4) by auto
  define m where "m = \<lparr>WakeAtUnix = wrap64 ((clock w2 + uc_RestartFailureCooldown (u_cfg u)) div Second),
                  CooldownReason = ''exec restart returned error''\<rparr>"
  have ct: "\<not> is_tmp ?cd" using ok(1) by (simp add: agent_layout_def)
  obtain w3 where 3: "WriteFile ?cd (Json (cooldown_to_json m)) 420 w2 = (None, w3)"
    using WriteFile_no_fault [OF 2(2) dirs2 ct temp] by blast
  have rf: "restart_failed u w = w3"
    using 2(1) 3 cd(1) by (simp add: restart_failed_def Let_def w1_def flips armRestartCooldown_def m_def)
  have a3: "away u w2 w3" using write_away [OF ok(1), of ?cd w2 "Json (cooldown_to_json m)" 420] 3
    by (simp add: other_files_def)
  show "dev u (restart_failed u w) = abs_swap (dev u w)" using away_device(1) [OF a3 ok(1)] d2 rf by simp
  note at = WriteFile_atomic [OF 3 ct, unfolded atomic_write_def]
  have "\<not> is_tmp (u_pendingPath u)" using ok(1) by (simp add: agent_layout_def)
  then have "map_of (files w3) (u_pendingPath u) = map_of (files w2) (u_pendingPath u)"
    using evolvesD [OF conjunct1 [OF conjunct1 [OF at]], of "u_pendingPath u"] dist by simp
  also have "\<dots> = None"
  proof -
    have "u_pendingPath u \<noteq> ?l" "u_pendingPath u \<noteq> ?l @ ''.tmp''" using pl(1) lp by metis+
    then show ?thesis using k2 [of "u_pendingPath u"] p1(1) by simp
  qed
  finally show "map_of (files (restart_failed u w)) (u_pendingPath u) = None" unfolding rf .
  show "\<exists>m md t s. map_of (files (restart_failed u w)) ?cd =
       Some (EFile (Json (cooldown_to_json m)) md t s) \<and> WakeAtUnix m = wake_time u w"
    using at cd(2) c2 wrap64_id by (auto simp: rf m_def wake_time_def intro!: exI [of _ m])
qed

text \<open>A cycle before the cooldown has passed, without a trigger, does nothing.\<close>

lemma RunOnce_cooling:
  assumes "map_of (files w) (u_restartCooldownPath u) = Some (EFile (Json (cooldown_to_json m)) md t s)"
    and "faults w = []" "int64 (WakeAtUnix m)" "WakeAtUnix m \<noteq> 0" "clock w < WakeAtUnix m * Second"
    and "\<not> u_forceOnce u" "map_of (files w) (u_updateNowPath u) = None"
  shows "RunOnce L u c w = ((Return None, u), tick (tick w))"
proof -
  have "peekForceOnce u (tick w) = (False, tick (tick w))"
    using assms(2,6,7) by (simp add: peekForceOnce_def os_Stat_def)
  then have "cooldown_gate u w = (False, tick (tick w))"
    using readRestartCooldown_stored [OF assms(1-4)] assms(5) by (simp add: cooldown_gate_def)
  then show ?thesis by (simp add: RunOnce_def)
qed

section \<open>A device to run on\<close>

definition sample_delta :: bytes where "sample_delta = ''znew''"

definition sample_manifest :: manifest_response where
  "sample_manifest = zero_response
     \<lparr>UpdateAvailable := True, TargetHash := ''6e65770000000000000000000000000000000000000000000000000000000000'',
      DeltaSize := 4,
      DeltaHash := ''7a6e657700000000000000000000000000000000000000000000000000000000'',
      Signature := ''6e6b'',
      DeltaEndpoint := ''/d''\<rparr>"

definition sample_server :: "nat net" where
  "sample_server =
     \<lparr>http_Do = (\<lambda>c req z.
        (Inr \<lparr>rs_Status = 200, rs_Body = ([if rq_Method req = ''POST'' then Json (manifest_to_json sample_manifest)
               else Raw sample_delta], None)\<rparr>, 1, Suc z)),
      udp_Dial = (\<lambda>h os z. (Some EIO, 0, z)),
      coap_Get = (\<lambda>c h p z. (Inl EIO, 0, z)),
      coap_Post = (\<lambda>c h p b z. (Inl EIO, 0, z))\<rparr>"

definition sample_agent :: "nat restart \<Rightarrow> nat updater" where
  "sample_agent rs =
     \<lparr>u_cfg = \<lparr>uc_DeviceID = ''d'', uc_Artifact = '''', uc_Version = '''', uc_CheckInterval = 10, uc_Jitter = 0,
        uc_MaxRetries = 0, uc_RetryBackoff = 1, uc_StateDir = ''/v'', uc_SelfArgv = [], uc_AutoUpdate = True,
        uc_MaxBump = MaxBumpMajor, uc_UnknownVersionPolicy = UnknownDeny, uc_DiskSpaceMinFreePct = 0,
        uc_DiskSpaceMinFreeMB = 0, uc_RestartFailureCooldown = 60 * Second\<rparr>,
      u_primary = \<lparr>pr_Client = NewHTTPClient sample_server json_codec ''http://h'', pr_Transport = HTTPTransport sample_server\<rparr>,
      u_fallback = None, u_slots = sample_slots, u_publicKey = replicate 32 (CHR ''k''),
      u_watchdog = \<lparr>wd_counter = ''/v/bc'', wd_timeout = 30, wd_retries = 3, wd_maxBoots = 2\<rparr>,
      u_checker = DefaultHealthChecker_Check None, u_restart = rs,
      u_hwInfo = defaultHWInfo ''arm64'' ''linux'', u_seed = (\<lambda>t i. 0), u_rand = (\<lambda>i. 0), u_draws = 0,
      u_pendingPath = ''/v/p'', u_deltaStaging = ''/v/sd'', u_downloadState = ''/v/dl'', u_updateNowPath = ''/v/un'',
      u_restartCooldownPath = ''/v/rc'', u_forceOnce = False\<rparr>"

definition sample_world :: "nat os_scheme" where
  "sample_world = \<lparr>files = (''/v'', EDir) # files sample_device, undo = [], faults = [], clock = 100,
     rand = [1, 2, 3, 4, 5, 6, 7, 8], hist = [], \<dots> = 0\<rparr>"

lemma sample_agent_ok:
  "restart_strategy rs \<Longrightarrow> parts_ok (sample_agent rs)"
  "agent_layout (sample_agent rs)" "resume_ok (sample_agent rs) (files sample_world)"
proof -
  show "restart_strategy rs \<Longrightarrow> parts_ok (sample_agent rs)"
    by (simp add: parts_ok_def sample_agent_def default_checker.health_checker_axioms)
  show "agent_layout (sample_agent rs)"
    by code_simp
  show "resume_ok (sample_agent rs) (files sample_world)"
    by (simp add: resume_ok_def resume_state_def sample_agent_def sample_world_def sample_device_def no_link_def partial_path_def)
qed

lemma sample_run: "fst (fst (RunOnce sample_lib (sample_agent ExitRestart) None sample_world)) = Exec ''/o/s/B''"
  by code_simp

section \<open>Properties\<close>

text \<open>C1. A cycle activates only a verified binary, and never damages the running one. Whatever the network
  answers and whichever system call fails, a cycle either touches only the state directory and does not
  restart, or there is a manifest whose signature over its two digests holds under the public key, that
  the policy or a manual trigger lets through, and a binary with the signed digest, such that: the old
  slot's file is untouched; the other slot, the link and the restart are those of this binary (a restart
  only after the pending marker is written and the link is on the new slot); and at every moment a loss
  of power leaves the old slot's file as it was, the other slot old or complete and synced, and the link
  on one of the two slots.\<close>

theorem RunOnce_only_verified:
  assumes "agent_layout u" "parts_ok u" "resume_ok u (files w)"
  shows "case RunOnce L u c w of ((out, u'), w') \<Rightarrow>
    (case out of Exec p \<Rightarrow> False | Return r \<Rightarrow> away u w w') \<or>
    (\<exists>resp b a h t. accepted L u (files w) resp b \<and> active_name (u_slots u) (files w) = Some a \<and>
       installs u a {Some (EFile (Raw b) 493 t True)} w w' \<and>
       install_outcome u a h (TargetHash resp) (EFile (Raw b) 493 t True) w out w')"
proof -
  obtain out u' w' where eq: "RunOnce L u c w = ((out, u'), w')" by (metis prod.collapse)
  from RunOnce_result [OF eq assms] show ?thesis unfolding eq prod.case .
qed

theorem RunOnce_only_verified_witness:
  "\<exists>resp b t. accepted sample_lib (sample_agent ExitRestart) (files sample_world) resp b \<and>
     dev (sample_agent ExitRestart) (snd (RunOnce sample_lib (sample_agent ExitRestart) None sample_world)) =
       (Some ''B'', Some (EFile (Raw ''a'') 493 1 True), Some (EFile (Raw b) 493 t True))"
proof -
  let ?u = "sample_agent ExitRestart"
  obtain u' w' where eq: "RunOnce sample_lib ?u None sample_world = ((Exec ''/o/s/B'', u'), w')"
    using sample_run by (metis prod.collapse)
  have d: "dev ?u sample_world = (Some ''A'', Some (EFile (Raw ''a'') 493 1 True), Some (EFile (Raw ''b'') 493 1 True))"
    by code_simp
  then have n: "active_name (u_slots ?u) (files sample_world) = Some ''A''" by (simp add: device_def)
  from RunOnce_only_verified [OF sample_agent_ok(2) sample_agent_ok(1) [OF exit_restart.restart_strategy_axioms]
      sample_agent_ok(3), of sample_lib None] obtain resp b h t where
    r: "accepted sample_lib ?u (files sample_world) resp b"
      "install_outcome ?u ''A'' h (TargetHash resp) (EFile (Raw b) 493 t True) sample_world (Exec ''/o/s/B'') w'"
    unfolding eq by (auto simp: n)
  then have "dev ?u w' = (Some ''B'', Some (EFile (Raw ''a'') 493 1 True), Some (EFile (Raw b) 493 t True))"
    by (auto simp: install_outcome_def d abs_swap_def abs_write_def other_def SlotNameA_def SlotNameB_def)
  with r(1) eq show ?thesis by auto
qed


text \<open>C22. A restart that fails is undone. When the new binary cannot be started and the way back meets no
  failing system call, the device is on its previous slot again with both slots as they were, the pending
  marker is gone, and until the cooldown is over a cycle without a trigger does nothing: it neither
  touches the disk nor talks to the server.\<close>

theorem restart_failed_recovers:
  assumes "agent_layout u" "can_recover u w"
    and "active_name (u_slots u) (files w) = Some (other a)" "a = SlotNameA \<or> a = SlotNameB"
    and "0 < uc_RestartFailureCooldown (u_cfg u)" "int64 (wake_time u w)" "0 < wake_time u w"
  shows "dev u (restart_failed u w) = abs_swap (dev u w) \<and>
    map_of (files (restart_failed u w)) (u_pendingPath u) = None \<and>
    (\<forall>v. files v = files (restart_failed u w) \<and> faults v = [] \<and> clock v < wake_time u w * Second \<and>
         \<not> u_forceOnce u \<and> map_of (files v) (u_updateNowPath u) = None \<longrightarrow>
       RunOnce L u c v = ((Return None, u), tick (tick v)))"
proof -
  note R = restart_failed_result [OF assms(1-6)]
  from R(3) obtain m md t s where m: "map_of (files (restart_failed u w)) (u_restartCooldownPath u) =
      Some (EFile (Json (cooldown_to_json m)) md t s)" "WakeAtUnix m = wake_time u w" by blast
  have "RunOnce L u c v = ((Return None, u), tick (tick v))"
    if "files v = files (restart_failed u w)" "faults v = []" "clock v < wake_time u w * Second"
      "\<not> u_forceOnce u" "map_of (files v) (u_updateNowPath u) = None" for v
  proof (rule RunOnce_cooling)
    show "map_of (files v) (u_restartCooldownPath u) = Some (EFile (Json (cooldown_to_json m)) md t s)"
      using m(1) that(1) by simp
    show "int64 (WakeAtUnix m)" "WakeAtUnix m \<noteq> 0" "clock v < WakeAtUnix m * Second"
      using m(2) that(3) assms(6,7) by simp_all
  qed (use that in auto)
  with R(1,2) show ?thesis by blast
qed

definition failing_restart :: "nat restart" where
  "failing_restart c b a w = (Some EIO, w)"

definition sample_swapped :: "nat os_scheme" where
  "sample_swapped = sample_world\<lparr>files := (''/v/p'', EFile (Raw ''x'') 420 0 True) # (''/o/c'', ELink ''/o/s/B'') # files sample_world\<rparr>"

theorem restart_failed_recovers_witness:
  "map_of (files (restart_failed (sample_agent failing_restart) sample_swapped)) ''/v/p'' = None \<and>
   dev (sample_agent failing_restart) (restart_failed (sample_agent failing_restart) sample_swapped) =
     (Some ''A'', Some (EFile (Raw ''a'') 493 1 True), Some (EFile (Raw ''b'') 493 1 True))"
proof -
  let ?u = "sample_agent failing_restart"
  have f: "can_recover ?u sample_swapped" "active_name (u_slots ?u) (files sample_swapped) = Some (other ''A'')"
    "''A'' = SlotNameA \<or> ''A'' = SlotNameB" "0 < uc_RestartFailureCooldown (u_cfg ?u)"
    "int64 (wake_time ?u sample_swapped)" "0 < wake_time ?u sample_swapped"
    "abs_swap (dev ?u sample_swapped) =
      (Some ''A'', Some (EFile (Raw ''a'') 493 1 True), Some (EFile (Raw ''b'') 493 1 True))"
    "u_pendingPath ?u = ''/v/p''"
    by code_simp+
  from restart_failed_recovers [OF sample_agent_ok(2) f(1-6)] f(7,8) show ?thesis by simp
qed

end
