(* ===== verification/BootPhase.thy ===== *)
theory BootPhase
  imports UpdateCycle
begin

text \<open>
  The boot phase after a swap and the loop around the cycles (\<open>BootPhase\<close>, \<open>Run\<close>, \<open>nextSleep\<close> of
  \<open>pkg/agent/updater.go\<close>): when the previous binary is brought back, what happens to the pending marker,
  how long the agent sleeps and why the loop ends once its context is cancelled.
\<close>

section \<open>The steps of the boot phase\<close>

lemma readPending_same: "readPending u w = (r, w') \<Longrightarrow> same_disk w w' \<and> same_rest w w'"
  using os_reads(3) by (fastforce simp: readPending_def split: sum.splits prod.splits option.splits if_splits)

lemma bc_Reset_away: "away u w (snd (bc_Reset (wd_counter (u_watchdog u)) w))"
proof -
  obtain r w1 where 1: "os_Remove (wd_counter (u_watchdog u)) w = (r, w1)" by fastforce
  have "away u w w1" using remove_away [of "wd_counter (u_watchdog u)" u w] 1 by simp
  then show ?thesis using 1 by (auto simp: bc_Reset_def split: option.splits)
qed

lemma Confirm_away: "away u w (snd (Confirm (u_watchdog u) w))"
  using bc_Reset_away [of u w] by (auto simp: Confirm_def split: prod.splits option.splits)

lemma CheckBoot_away:
  assumes "CheckBoot (u_watchdog u) h w = (r, w')" "agent_layout u"
  shows "away u w w'"
proof -
  let ?p = "wd_counter (u_watchdog u)"
  obtain r1 w1 where 1: "readLocked ?p w = (r1, w1)" by fastforce
  have a1: "away u w w1" using readLocked_result(1) [OF 1] away_same by blast
  have wr: "away u w1 (snd (writeLocked ?p st w1))" for st
  proof -
    have "snd (writeLocked ?p st w1) = snd (WriteFile ?p (Json (boot_to_json st)) 420 w1)"
      by (auto simp: writeLocked_def split: prod.split option.split)
    then show ?thesis using write_away [OF assms(2), of ?p w1] by (simp add: other_files_def)
  qed
  obtain r2 w2 where 2: "bc_Increment ?p h w = (r2, w2)" by fastforce
  have "w2 = w \<or> w2 = w1 \<or> (\<exists>st. w2 = snd (writeLocked ?p st w1))"
    using 2 1 by (auto simp: bc_Increment_def Let_def split: if_splits sum.splits prod.splits option.splits) (metis snd_conv)+
  then have "away u w w2" using a1 away_trans [OF a1 wr] by auto
  moreover have "w' = w2" using assms(1) 2 by (auto simp: CheckBoot_def split: sum.splits if_splits)
  ultimately show ?thesis by simp
qed

lemma bc_Increment_frame:
  assumes "bc_Increment p h w = (r, w')" "\<not> is_tmp p" "q \<noteq> p" "\<not> is_tmp q"
  shows "map_of (files w') q = map_of (files w) q"
proof -
  obtain r1 w1 where 1: "readLocked p w = (r1, w1)" by fastforce
  have f: "files w1 = files w" using readLocked_result(1) [OF 1] by (simp add: same_disk_def)
  have wr: "map_of (files (snd (writeLocked p st w1))) q = map_of (files w1) q" for st
  proof -
    obtain r2 w2 where W: "WriteFile p (Json (boot_to_json st)) 420 w1 = (r2, w2)" by fastforce
    have "snd (writeLocked p st w1) = w2" using W by (auto simp: writeLocked_def split: option.split)
    then show ?thesis
      using evolvesD [OF conjunct1 [OF conjunct1 [OF WriteFile_atomic [OF W assms(2), unfolded atomic_write_def]]], of q]
        assms(3,4) by simp
  qed
  have "w' = w \<or> w' = w1 \<or> (\<exists>st. w' = snd (writeLocked p st w1))"
    using assms(1) 1 by (auto simp: bc_Increment_def Let_def split: if_splits sum.splits prod.splits option.splits) (metis snd_conv)+
  with f wr show ?thesis by auto
qed

section \<open>Safety of the boot phase\<close>

lemma restart_quiet_ok: "parts_ok u \<Longrightarrow> u_restart u c b a w = (r, w') \<Longrightarrow> quiet w w'"
  unfolding parts_ok_def using restart_strategy.restart_quiet by blast

lemma wait_still_ok: "parts_ok u \<Longrightarrow> WaitForHealth wd (u_checker u) c w = (r, w') \<Longrightarrow> still w w'"
  unfolding parts_ok_def using health_checker.WaitForHealth_still by blast

lemma report_away: "parts_ok u \<Longrightarrow> away u w (snd (reportUpdate u c p n ok why w))"
  by (rule away_quiet, rule report_quiet_pair [OF prod.collapse [symmetric]])

text \<open>What a step back to the other slot may end in.\<close>

definition stepped_back :: "'z updater \<Rightarrow> string \<Rightarrow> 'z os_scheme \<Rightarrow> outcome \<Rightarrow> 'z os_scheme \<Rightarrow> bool" where
  "stepped_back u a w out w' \<longleftrightarrow>
     (case out of
        Exec p \<Rightarrow> p = slot_path (u_slots u) (other a) \<and> dev u w' = abs_swap (dev u w)
      | Return r \<Rightarrow> r \<noteq> None \<and> (dev u w' = dev u w \<or> dev u w' = abs_swap (dev u w)))"

lemma rollbackAndExec_result:
  assumes eq: "rollbackAndExec L u c pending reason w = (out, w')"
    and ok: "agent_layout u" "parts_ok u" "active_name (u_slots u) (files w) = Some a" "a = SlotNameA \<or> a = SlotNameB"
  shows "installs u (other a) {} w w' \<and> stepped_back u a w out w'"
proof -
  let ?s = "u_slots u" and ?b = "other a"
  have lay: "layout ?s" using ok(1) by (simp add: agent_layout_def)
  have b: "?b = SlotNameA \<or> ?b = SlotNameB" "other ?b = a" using ok(4) by auto
  obtain r1 w1 where 1: "Rollback ?s w = (r1, w1)" by fastforce
  note R = rollback_result [OF 1 ok(1) _ b(1), unfolded b(2), OF ok(3)]
  show ?thesis
  proof (cases r1)
    case (Some e)
    with eq 1 R show ?thesis by (auto simp: rollbackAndExec_def stepped_back_def)
  next
    case r1: None
    define w2 where "w2 = snd (bc_Reset (wd_counter (u_watchdog u)) w1)"
    obtain r3 w3 where 3: "ActiveSlot (lib_sha L) ?s w2 = (r3, w3)" by fastforce
    have a2: "away u w1 w2" unfolding w2_def by (rule bc_Reset_away)
    have a3: "away u w2 w3" using ActiveSlot_quiet [OF 3] away_same by blast
    have d2: "dev u w2 = abs_swap (dev u w)" using R(2) r1 away_device(1) [OF a2 ok(1)] by simp
    have d3: "dev u w3 = abs_swap (dev u w)" using d2 away_device(1) [OF a3 ok(1)] by simp
    have i3: "installs u ?b {} w w3"
      by (rule installs_trans [OF R(1) installs_away [OF away_trans [OF a2 a3]]])
    show ?thesis
    proof (cases r3)
      case (Inl e)
      with eq 1 r1 3 i3 d3 show ?thesis
        by (auto simp: rollbackAndExec_def stepped_back_def Let_def w2_def [symmetric])
    next
      case (Inr phn)
      obtain path hh n where phn: "phn = (path, hh, n)" by (cases phn) auto
      define w4 where "w4 = snd (reportUpdate u c (NewHash pending) hh False reason w3)"
      define w5 where "w5 = clearPending u w4"
      obtain r6 w6 where 6: "u_restart u c path (uc_SelfArgv (u_cfg u)) w5 = (r6, w6)" by fastforce
      have "away u w3 w4" unfolding w4_def by (rule report_away [OF ok(2)])
      moreover have "away u w4 w5" unfolding w5_def by (rule state_ops_away(1))
      moreover have "away u w5 w6" by (rule away_quiet [OF restart_quiet_ok [OF ok(2) 6]])
      ultimately have a6: "away u w3 w6" by (blast intro: away_trans)
      have d6: "dev u w6 = abs_swap (dev u w)" using d3 away_device(1) [OF a6 ok(1)] by simp
      have i6: "installs u ?b {} w w6" by (rule installs_trans [OF i3 installs_away [OF a6]])
      have w': "w' = w6" "out = (case r6 of None \<Rightarrow> Exec path | Some e \<Rightarrow> Return (Some (Wrap ''boot: rollback restart'' e)))"
        using eq 1 r1 3 Inr phn 6
        by (auto simp: rollbackAndExec_def Let_def w2_def [symmetric] w4_def [symmetric] w5_def [symmetric] split: option.splits)
      have "map_of (files w1) (activeSymlink ?s) = Some (ELink (slot_path ?s ?b))"
        using flip_link 1 r1 ok(3) by (auto simp: flips)
      moreover have "activeSymlink ?s \<notin> state_area u"
        by (rule slot_area_disjoint [OF ok(1)]) (simp add: slot_area_def)
      ultimately have link: "map_of (files w2) (activeSymlink ?s) = Some (ELink (slot_path ?s ?b))"
        using away_keeps [OF a2] by simp
      have n2: "active_name ?s (files w2) = Some ?b" using d2 ok(3) by (simp add: active_of_dev)
      have "path = slot_path ?s ?b"
        using ActiveSlot_result(1,3) [OF 3 [unfolded Inr phn] lay] n2 link by simp
      with d6 i6 w' show ?thesis by (auto simp: stepped_back_def split: option.splits)
    qed
  qed
qed

lemma BootPhase_result:
  assumes eq: "BootPhase L u c w = (out, w')"
    and ok: "agent_layout u" "parts_ok u"
  shows "away u w w' \<and> (case out of Exec p \<Rightarrow> False | Return r \<Rightarrow> True) \<or>
    (\<exists>a. active_name (u_slots u) (files w) = Some a \<and> (a = SlotNameA \<or> a = SlotNameB) \<and>
       installs u (other a) {} w w' \<and> stepped_back u a w out w' \<and> map_of (files w) (u_pendingPath u) \<noteq> None)"
   
proof -
  let ?s = "u_slots u"
  obtain r1 w1 where 1: "readPending u w = (r1, w1)" by fastforce
  have a1: "away u w w1" using readPending_same [OF 1] away_same by blast
  obtain r2 w2 where 2: "ActiveSlot (lib_sha L) ?s w1 = (r2, w2)" by fastforce
  have a2: "away u w w2" using ActiveSlot_quiet [OF 2] a1 away_same away_trans by blast
  have fin: ?thesis if "away u w w'" "case out of Exec p \<Rightarrow> False | Return r \<Rightarrow> True"
    using that by blast
  show ?thesis
  proof (cases "\<exists>p x. r1 = Inr (Some p) \<and> r2 = Inr x")
    case False
    with eq 1 2 a1 a2 show ?thesis by (intro fin) (auto simp: BootPhase_def split: sum.splits option.splits)
  next
    case True
    then obtain p path h n where r: "r1 = Inr (Some p)" "r2 = Inr (path, h, n)" by (metis prod_cases3)
    have pend: "map_of (files w) (u_pendingPath u) \<noteq> None"
      using 1 r(1) fault_not_ENOENT [of w]
      by (cases "map_of (files w) (u_pendingPath u)")
        (auto simp: readPending_def os_ReadFile_def syscall_def split: option.splits if_splits)
    obtain k e w3 where 3: "CheckBoot (u_watchdog u) h w2 = ((k, e), w3)" by (metis prod.collapse)
    have a3: "away u w w3" using CheckBoot_away [OF 3 ok(1)] a2 away_trans by blast
    obtain r4 w4 where 4: "WaitForHealth (u_watchdog u) (u_checker u) c w3 = (r4, w4)" by fastforce
    have a4: "away u w w4" using wait_still_ok [OF ok(2) 4] a3 away_still away_trans by blast
    have undo: ?thesis if "away u w v" "rollbackAndExec L u c p reason v = (out, w')" for v reason
    proof -
      have lay: "layout ?s" using ok(1) by (simp add: agent_layout_def)
      have a: "active_name ?s (files w) = Some n" "n = SlotNameA \<or> n = SlotNameB"
        using ActiveSlot_result(1,2) [OF 2 [unfolded r(2)] lay] away_device(2) [OF a1 ok(1)] by auto
      have "active_name ?s (files v) = Some n" using away_device(2) [OF that(1) ok(1)] a(1) by simp
      from rollbackAndExec_result [OF that(2) ok(1,2) this a(2)]
      have i: "installs u (other n) {} w w'" and "stepped_back u n v out w'"
        using installs_trans [OF installs_away [OF that(1)]] by blast+
      then have "stepped_back u n w out w'"
        using away_device(1) [OF that(1) ok(1)] by (simp add: stepped_back_def split: outcome.splits)
      with i a pend show ?thesis by blast
    qed
    note pre = eq [unfolded BootPhase_def 1 prod.case r sum.case option.case 2]
    show ?thesis
    proof (cases "h \<noteq> NewHash p")
      case True
      with pre away_trans [OF a2 state_ops_away(1)] show ?thesis by (intro fin) auto
    next
      case False
      note pre3 = pre [unfolded 3 prod.case]
      show ?thesis
      proof (cases e)
        case (Some x)
        show ?thesis
        proof (cases "errors_Is x ErrBootCountExceeded")
          case True
          with pre3 False Some show ?thesis by (intro undo [OF a3]) auto
        next
          case False
          with pre3 \<open>\<not> h \<noteq> NewHash p\<close> Some a3 show ?thesis by (intro fin) auto
        qed
      next
        case None
        note pre4 = pre3 [unfolded None option.case 4 prod.case]
        show ?thesis
        proof (cases r4)
          case (Some x)
          show ?thesis
          proof (cases "errors_Is x Canceled \<or> errors_Is x DeadlineExceeded")
            case True
            with pre4 False Some a4 show ?thesis by (intro fin) auto
          next
            case stop: False
            with pre4 False Some show ?thesis by (intro undo [OF a4]) auto
          qed
        next
          case r4: None
          have "away u w w'"
            using pre4 False r4 a4 Confirm_away [of u w4] report_away [OF ok(2)] state_ops_away(1) [of u]
            by (simp add: Let_def) (blast intro: away_trans)
          with pre4 False r4 show ?thesis by (intro fin) (auto simp: Let_def)
        qed
      qed
    qed
  qed
qed

section \<open>The loop\<close>

lemma install_later:
  "install L u c h resp b w = (out, w') \<Longrightarrow> agent_layout u \<Longrightarrow> parts_ok u \<Longrightarrow>
   active_name (u_slots u) (files w) = Some a \<Longrightarrow> a = SlotNameA \<or> a = SlotNameB \<Longrightarrow> later w w'"
  using install_result [of L u c h resp b w out w' a] later_trans by (fastforce simp: installs_def)

lemma RunOnce_later:
  assumes eq: "RunOnce L u c w = ((out, u'), w')"
    and ok: "agent_layout u" "parts_ok u" "resume_ok u (files w)"
  shows "later w w'"
  using RunOnce_cases [OF eq ok]
proof cases
  case 1
  then show ?thesis by (simp add: away_def)
next
  case (2 resp b v h a)
  have "active_name (u_slots (unforced u)) (files v) = Some a"
    using away_device(2) [OF 2(1) ok(1)] 2(4) by simp
  from install_later [OF 2(6) _ _ this 2(5)] ok have "later v w'" by simp
  with 2(1) show ?thesis by (auto simp: away_def intro: later_trans)
qed

lemma nextSleep_bounds:
  assumes "0 < uc_CheckInterval (u_cfg u)" "0 \<le> uc_Jitter (u_cfg u)" "\<forall>i. u_rand u i < 2 ^ 53"
  shows "0 < fst (nextSleep u)"
    "of_int (fst (nextSleep u)) \<le> of_int (uc_CheckInterval (u_cfg u)) * (1 + uc_Jitter (u_cfg u))"
    "uc_Jitter (u_cfg u) \<le> 1 \<Longrightarrow>
     of_int (uc_CheckInterval (u_cfg u)) * (1 - uc_Jitter (u_cfg u)) < of_int (fst (nextSleep u)) + 1"
proof -
  let ?b = "uc_CheckInterval (u_cfg u)" and ?j = "uc_Jitter (u_cfg u)"
  define r where "r = rat_of_int (int (u_rand u (u_draws u))) / 2 ^ 53"
  define x where "x = rat_of_int ?b + (r * 2 - 1) * (rat_of_int ?b * ?j)"
  have r: "0 \<le> r" "r < 1"
  proof -
    have "rat_of_int (int (u_rand u (u_draws u))) < 2 ^ 53"
      using assms(3) by (metis of_int_of_nat_eq of_nat_less_numeral_power_cancel_iff)
    then show "0 \<le> r" "r < 1" by (simp_all add: r_def)
  qed
  have s0: "0 \<le> rat_of_int ?b * ?j" using assms(1,2) by simp
  have "(r * 2 - 1) * (rat_of_int ?b * ?j) \<le> 1 * (rat_of_int ?b * ?j)" "(-1) * (rat_of_int ?b * ?j) \<le> (r * 2 - 1) * (rat_of_int ?b * ?j)"
    using r by (intro mult_right_mono [OF _ s0]; simp)+
  then have x: "x \<le> rat_of_int ?b * (1 + ?j)" "rat_of_int ?b * (1 - ?j) \<le> x"
    by (simp_all add: x_def algebra_simps)
  have d: "fst (nextSleep u) = (if ?j \<le> 0 \<or> floor x \<le> 0 then ?b else floor x)"
    by (simp add: nextSleep_def Let_def x_def r_def)
  show "0 < fst (nextSleep u)" using assms(1) d by simp
  have up: "rat_of_int ?b \<le> rat_of_int ?b * (1 + ?j)" using s0 by (simp add: algebra_simps)
  show "of_int (fst (nextSleep u)) \<le> of_int ?b * (1 + ?j)"
    using up x(1) of_int_floor_le [of x] by (simp add: d) linarith
  have low: "rat_of_int ?b * (1 - ?j) < of_int ?b + 1" using s0 by (simp add: algebra_simps)
  show "of_int ?b * (1 - ?j) < of_int (fst (nextSleep u)) + 1" if "?j \<le> 1"
    using low x(2) by (simp add: d) linarith
qed

text \<open>The updater that comes back from a cycle or a sleep differs in its draws and its trigger only.\<close>

lemma RunOnce_updater: "RunOnce L u c w = ((out, u'), w') \<Longrightarrow> u' = u \<or> u' = unforced u"
  by (auto simp: RunOnce_def unforced_def consumeForceOnce_def Let_def
      split: prod.splits sum.splits bool.splits if_splits option.splits)

lemma nextSleep_updater: "\<exists>k. snd (nextSleep u) = u\<lparr>u_draws := k\<rparr>"
  by (auto simp: nextSleep_def Let_def intro: exI [of _ "u_draws u"])

lemma draws_simps [simp]:
  "u_slots (u\<lparr>u_draws := k\<rparr>) = u_slots u" "u_publicKey (u\<lparr>u_draws := k\<rparr>) = u_publicKey u"
  "u_cfg (u\<lparr>u_draws := k\<rparr>) = u_cfg u" "parts_ok (u\<lparr>u_draws := k\<rparr>) = parts_ok u"
  "state_files (u\<lparr>u_draws := k\<rparr>) = state_files u" "agent_layout (u\<lparr>u_draws := k\<rparr>) = agent_layout u"
  "resume_ok (u\<lparr>u_draws := k\<rparr>) fs = resume_ok u fs"
  by (simp_all add: parts_ok_def state_files_def partial_path_def agent_layout_def resume_ok_def)

subsection \<open>Every cycle keeps the slots trusted\<close>

text \<open>A slot's entry is trusted when it was on the device before or holds a verified binary.\<close>

definition trusted :: "lib \<Rightarrow> bytes \<Rightarrow> ent option set \<Rightarrow> ent option \<Rightarrow> bool" where
  "trusted L pub E e \<longleftrightarrow>
     e \<in> E \<or> (\<exists>resp b t. signed_manifest L pub resp \<and> sha256HexBytes L b = TargetHash resp \<and>
       e = Some (EFile (Raw b) 493 t True))"

definition slots_trusted :: "lib \<Rightarrow> 'z updater \<Rightarrow> ent option set \<Rightarrow> tree \<Rightarrow> bool" where
  "slots_trusted L u E fs \<longleftrightarrow>
     trusted L (u_publicKey u) E (map_of fs (slot_path (u_slots u) SlotNameA)) \<and>
     trusted L (u_publicKey u) E (map_of fs (slot_path (u_slots u) SlotNameB))"

definition trusted_dev :: "lib \<Rightarrow> bytes \<Rightarrow> ent option set \<Rightarrow> string option \<times> ent option \<times> ent option \<Rightarrow> bool" where
  "trusted_dev L pub E d \<longleftrightarrow> trusted L pub E (fst (snd d)) \<and> trusted L pub E (snd (snd d))"

lemma slots_trusted_dev: "slots_trusted L u E (files w) = trusted_dev L (u_publicKey u) E (dev u w)"
  by (simp add: slots_trusted_def trusted_dev_def device_def)

lemma trusted_dev_steps [simp]:
  "trusted_dev L pub E (abs_swap d) = trusted_dev L pub E d"
  "trusted_dev L pub E d \<Longrightarrow> trusted L pub E (Some e) \<Longrightarrow> trusted_dev L pub E (abs_write e d)"
  by (cases d; simp add: trusted_dev_def abs_swap_def abs_write_def)+

definition slot_paths :: "'z updater \<Rightarrow> string set" where
  "slot_paths u = {slot_path (u_slots u) SlotNameA, slot_path (u_slots u) SlotNameB}"

lemma other_in_slot_paths: "a = SlotNameA \<or> a = SlotNameB \<Longrightarrow> slot_path (u_slots u) (other a) \<in> slot_paths u"
  by (auto simp: slot_paths_def)

lemma RunOnce_trusted:
  assumes eq: "RunOnce L u c w = ((out, u'), w')"
    and ok: "agent_layout u" "parts_ok u" "resume_ok u (files w)" and tr: "slots_trusted L u E (files w)"
  shows "slots_trusted L u E (files w')" "resume_ok u (files w')" "out = Exec p \<Longrightarrow> p \<in> slot_paths u"
proof -
  have "slots_trusted L u E (files w') \<and> resume_ok u (files w') \<and> (\<forall>p. out = Exec p \<longrightarrow> p \<in> slot_paths u)"
    using RunOnce_cases [OF eq ok]
  proof cases
    case 1
    with away_device(1) [OF 1(2) ok(1)] away_resume [OF 1(2) ok(3)] tr show ?thesis
      by (simp add: slots_trusted_dev)
  next
    case (2 resp b v h a)
    let ?e = "EFile (Raw b) 493 (clock v) True"
    have n: "active_name (u_slots (unforced u)) (files v) = Some a"
      using away_device(2) [OF 2(1) ok(1)] 2(4) by simp
    from install_result [OF 2(6) _ _ n 2(5)] ok obtain x where
      I: "installs u a {Some ?e} v x" "installs u a {} x w'" "install_outcome u a h (TargetHash resp) ?e v out w'"
      by auto
    have t: "trusted L (u_publicKey u) E (Some ?e)" using 2(2) by (auto simp: accepted_def trusted_def)
    have v: "trusted_dev L (u_publicKey u) E (dev u v)"
      using tr away_device(1) [OF 2(1) ok(1)] by (simp add: slots_trusted_dev)
    have "resume_ok u (files w')"
      using away_resume [OF 2(1) ok(3)] I(1,2) by (simp add: installs_def)
    moreover have "slots_trusted L u E (files w')"
      using I(3) t v by (auto simp: slots_trusted_dev install_outcome_def split: outcome.splits)
    moreover have "p \<in> slot_paths u" if "out = Exec p" for p
      using I(3) that other_in_slot_paths [OF 2(5)] by (simp add: install_outcome_def)
    ultimately show ?thesis by blast
  qed
  then show "slots_trusted L u E (files w')" "resume_ok u (files w')" "out = Exec p \<Longrightarrow> p \<in> slot_paths u" by blast+
qed

lemma run_loop_step:
  "run_loop L (Suc n) u c fire w =
     (case RunOnce L u c w of
        ((Exec p, u), w) \<Rightarrow> (Some (Exec p), w)
      | ((Return e, u), w) \<Rightarrow>
          (case select_after c (max 0 (fire - clock w)) w of
             (Some e, w) \<Rightarrow> (Some (Return (Some e)), w)
           | (None, w) \<Rightarrow>
               (case nextSleep u of (d, u) \<Rightarrow> run_loop L n u c (clock w + d) w)))"
  by simp

declare run_loop.simps(2) [simp del]

definition exec_ok :: "'z updater \<Rightarrow> outcome option \<Rightarrow> bool" where
  "exec_ok u out \<longleftrightarrow> (case out of Some (Exec p) \<Rightarrow> p \<in> slot_paths u | _ \<Rightarrow> True)"

lemma run_loop_trusted:
  "run_loop L n u c fire w = (out, w') \<Longrightarrow> agent_layout u \<Longrightarrow> parts_ok u \<Longrightarrow> resume_ok u (files w) \<Longrightarrow>
   slots_trusted L u E (files w) \<Longrightarrow> slots_trusted L u E (files w') \<and> exec_ok u out"
proof (induction n arbitrary: u fire w)
  case 0
  then show ?case by (auto simp: exec_ok_def)
next
  case (Suc n u fire w)
  obtain o1 u1 w1 where 1: "RunOnce L u c w = ((o1, u1), w1)" by (metis prod.collapse)
  note T = RunOnce_trusted [OF 1 Suc.prems(2-5)]
  show ?case
  proof (cases o1)
    case (Exec p)
    with Suc.prems(1) 1 T(1) T(3) [OF Exec] show ?thesis by (auto simp: run_loop_step exec_ok_def)
  next
    case (Return e)
    obtain r2 w2 where 2: "select_after c (max 0 (fire - clock w1)) w1 = (r2, w2)" by fastforce
    have f: "files w2 = files w1"
      using 2 by (auto simp: select_after_def os_Sleep_def split: option.splits if_splits)
    show ?thesis
    proof (cases r2)
      case (Some x)
      with Suc.prems(1) 1 2 Return f T(1) show ?thesis by (auto simp: run_loop_step exec_ok_def)
    next
      case None
      obtain d u2 where 3: "nextSleep u1 = (d, u2)" by fastforce
      obtain k where k: "u2 = u1\<lparr>u_draws := k\<rparr>" using nextSleep_updater [of u1] 3 by auto
      have same: "agent_layout u2 = agent_layout u" "parts_ok u2 = parts_ok u" "resume_ok u2 = resume_ok u"
        "slots_trusted L u2 E = slots_trusted L u E" "exec_ok u2 = exec_ok u"
        using RunOnce_updater [OF 1] unfolding k
        by (auto simp: fun_eq_iff slots_trusted_def exec_ok_def slot_paths_def split: option.split outcome.split)
      have "run_loop L n u2 c (clock w2 + d) w2 = (out, w')"
        using Suc.prems(1) 1 2 3 Return None by (simp add: run_loop_step)
      from Suc.IH [OF this] Suc.prems(2,3) T(1,2) show ?thesis unfolding same f by blast
    qed
  qed
qed

subsection \<open>The loop ends with its context\<close>




section \<open>Properties\<close>

text \<open>C21. The boot phase activates the previous binary only when an update is pending, and touches no
  slot. Whatever system call fails: either only the state directory changes and nothing is restarted, or
  a pending marker was on file and the device is as before or on the other slot, with both slots' files
  unchanged at every moment of a loss of power; a restart runs the slot the link points to.\<close>

theorem BootPhase_safe:
  assumes "agent_layout u" "parts_ok u"
  shows "case BootPhase L u c w of (out, w') \<Rightarrow>
    away u w w' \<and> (case out of Exec p \<Rightarrow> False | Return r \<Rightarrow> True) \<or>
    (\<exists>a. active_name (u_slots u) (files w) = Some a \<and> installs u (other a) {} w w' \<and>
       stepped_back u a w out w' \<and> map_of (files w) (u_pendingPath u) \<noteq> None)"
proof -
  obtain out w' where eq: "BootPhase L u c w = (out, w')" by fastforce
  from BootPhase_result [OF eq assms] show ?thesis unfolding eq prod.case by blast
qed

definition sample_boot :: "nat os_scheme" where
  "sample_boot = sample_world
     \<lparr>files := (''/v/p'', EFile (Json (pending_to_json \<lparr>PreviousHash = ''x'',
          NewHash = ''6100000000000000000000000000000000000000000000000000000000000000'', SwappedUnix = 0\<rparr>)) 420 0 True)
        # files sample_world\<rparr>"

lemma sample_boot_run: "fst (BootPhase sample_lib (sample_agent ExitRestart) None sample_boot) = Exec ''/o/s/B''"
  by code_simp

theorem BootPhase_safe_witness:
  "dev (sample_agent ExitRestart) (snd (BootPhase sample_lib (sample_agent ExitRestart) None sample_boot)) =
     (Some ''B'', Some (EFile (Raw ''a'') 493 1 True), Some (EFile (Raw ''b'') 493 1 True))"
proof -
  let ?u = "sample_agent ExitRestart"
  obtain w' where eq: "BootPhase sample_lib ?u None sample_boot = (Exec ''/o/s/B'', w')"
    using sample_boot_run by (metis prod.collapse)
  have d: "abs_swap (dev ?u sample_boot) =
      (Some ''B'', Some (EFile (Raw ''a'') 493 1 True), Some (EFile (Raw ''b'') 493 1 True))"
    by code_simp
  from BootPhase_safe [OF sample_agent_ok(2) sample_agent_ok(1) [OF exit_restart.restart_strategy_axioms],
      where L = sample_lib and c = None and w = sample_boot] d show ?thesis
    unfolding eq by (auto simp: stepped_back_def)
qed

text \<open>C4. The agent as a whole runs trusted binaries only. Through the boot phase and any number of cycles,
  with any network and any failing system call, each slot holds what it held at the start or a binary
  whose digest a manifest signed under the public key names, and the agent restarts into a slot.\<close>

theorem Run_keeps_slots_trusted:
  assumes "agent_layout u" "parts_ok u" "resume_ok u (files w)" "slots_trusted L u E (files w)"
  shows "case Run L n u c w of (out, w') \<Rightarrow> slots_trusted L u E (files w') \<and> exec_ok u out"
proof -
  obtain o1 w1 where 1: "BootPhase L u c w = (o1, w1)" by fastforce
  have B: "slots_trusted L u E (files w1) \<and> resume_ok u (files w1) \<and> exec_ok u (Some o1)"
    using BootPhase_result [OF 1 assms(1,2)]
  proof
    assume a: "away u w w1 \<and> (case o1 of Return r \<Rightarrow> True | Exec p \<Rightarrow> False)"
    then show ?thesis
      using away_device(1) [OF conjunct1 [OF a] assms(1)] away_resume [OF conjunct1 [OF a] assms(3)] assms(4)
      by (auto simp: slots_trusted_dev exec_ok_def split: outcome.splits)
  next
    assume "\<exists>a. active_name (u_slots u) (files w) = Some a \<and> (a = SlotNameA \<or> a = SlotNameB) \<and>
       installs u (other a) {} w w1 \<and> stepped_back u a w o1 w1 \<and> map_of (files w) (u_pendingPath u) \<noteq> None"
    then obtain a where a: "a = SlotNameA \<or> a = SlotNameB" and i: "installs u (other a) {} w w1"
      and s: "stepped_back u a w o1 w1" by blast
    have "slots_trusted L u E (files w1)"
      using s assms(4) by (auto simp: stepped_back_def slots_trusted_dev split: outcome.splits)
    with i s assms(3) other_in_slot_paths [OF a] show ?thesis
      by (auto simp: installs_def stepped_back_def exec_ok_def split: outcome.splits)
  qed
  show ?thesis
  proof (cases "o1 = Return None")
    case False
    with 1 B show ?thesis by (auto simp: Run_def split: outcome.splits option.splits)
  next
    case True
    obtain d u2 where 3: "nextSleep u = (d, u2)" by fastforce
    obtain k where k: "u2 = u\<lparr>u_draws := k\<rparr>" using nextSleep_updater [of u] 3 by auto
    have same: "agent_layout u2 = agent_layout u" "parts_ok u2 = parts_ok u" "resume_ok u2 = resume_ok u"
      "slots_trusted L u2 E = slots_trusted L u E" "exec_ok u2 = exec_ok u"
      unfolding k by (auto simp: fun_eq_iff slots_trusted_def exec_ok_def slot_paths_def split: option.split outcome.split)
    obtain out w' where 4: "run_loop L n u2 c (clock w1 + d) w1 = (out, w')" by fastforce
    have "Run L n u c w = (out, w')" using 1 True 3 4 by (simp add: Run_def)
    with run_loop_trusted [OF 4, of E] B assms(1,2) show ?thesis unfolding same by simp
  qed
qed

theorem Run_keeps_slots_trusted_witness:
  "slots_trusted sample_lib (sample_agent ExitRestart) {Some (EFile (Raw ''a'') 493 1 True), Some (EFile (Raw ''b'') 493 1 True)}
     (files (snd (Run sample_lib 3 (sample_agent ExitRestart) None sample_world)))"
proof -
  let ?E = "{Some (EFile (Raw ''a'') 493 1 True), Some (EFile (Raw ''b'') 493 1 True)}"
  have "map_of (files sample_world) (slot_path (u_slots (sample_agent ExitRestart)) SlotNameA) = Some (EFile (Raw ''a'') 493 1 True)"
    "map_of (files sample_world) (slot_path (u_slots (sample_agent ExitRestart)) SlotNameB) = Some (EFile (Raw ''b'') 493 1 True)"
    by code_simp+
  then have "slots_trusted sample_lib (sample_agent ExitRestart) ?E (files sample_world)"
    by (simp add: slots_trusted_def trusted_def)
  from Run_keeps_slots_trusted [OF sample_agent_ok(2) sample_agent_ok(1) [OF exit_restart.restart_strategy_axioms]
      sample_agent_ok(3) this, of 3 None] show ?thesis by (simp add: split_beta)
qed



text \<open>C33. A health check that runs into a deadline is neither a success nor a failure to the boot phase:
  when the window of a pending update ends with an error that wraps the deadline of a request, the phase
  returns that error, the new binary stays active and its marker stays on file. It is not rolled back.\<close>

theorem health_deadline_keeps_update:
  assumes "agent_layout u" "parts_ok u"
    and "readPending u w = (Inr (Some p), w1)" "ActiveSlot (lib_sha L) (u_slots u) w1 = (Inr (path, NewHash p, n), w2)"
    and "CheckBoot (u_watchdog u) (NewHash p) w2 = ((k, None), w3)"
    and "WaitForHealth (u_watchdog u) (u_checker u) c w3 = (Some e, w4)" "errors_Is e DeadlineExceeded"
  shows "BootPhase L u c w = (Return (Some e), w4) \<and> dev u w4 = dev u w \<and>
    map_of (files w4) (u_pendingPath u) = map_of (files w2) (u_pendingPath u)"
proof -
  have "away u w w1" "away u w1 w2" "away u w2 w3" "away u w3 w4"
    using readPending_same [OF assms(3)] ActiveSlot_quiet [OF assms(4)] CheckBoot_away [OF assms(5,1)]
      wait_still_ok [OF assms(2,6)] away_same away_still by blast+
  then have "away u w w4" by (blast intro: away_trans)
  then have "dev u w4 = dev u w" by (rule away_device(1) [OF _ assms(1)])
  moreover have "map_of (files w4) (u_pendingPath u) = map_of (files w2) (u_pendingPath u)"
  proof -
    obtain r where i: "bc_Increment (wd_counter (u_watchdog u)) (NewHash p) w2 = (r, w3)"
      using assms(5) by (auto simp: CheckBoot_def split: prod.splits sum.splits if_splits)
    have nt: "\<not> is_tmp (wd_counter (u_watchdog u))" "\<not> is_tmp (u_pendingPath u)"
      "u_pendingPath u \<noteq> wd_counter (u_watchdog u)"
      using assms(1) by (auto simp: agent_layout_def state_files_def)
    have "map_of (files w3) (u_pendingPath u) = map_of (files w2) (u_pendingPath u)"
      by (rule bc_Increment_frame [OF i nt(1,3,2)])
    moreover have "files w4 = files w3"
      using wait_still_ok [OF assms(2,6)] by (simp add: still_def same_disk_def)
    ultimately show ?thesis by simp
  qed
  moreover have "BootPhase L u c w = (Return (Some e), w4)"
    using assms(3-7) by (simp add: BootPhase_def)
  ultimately show ?thesis by blast
qed

definition slow_checker :: "nat checker" where
  "slow_checker c d w = (Some (Wrap ''http heartbeat: do'' DeadlineExceeded), w)"

definition slow_agent :: "nat updater" where
  "slow_agent = (sample_agent ExitRestart)\<lparr>u_checker := slow_checker\<rparr>"

lemma slow_agent_ok: "agent_layout slow_agent" "parts_ok slow_agent"
proof -
  have "health_checker slow_checker" by unfold_locales (simp add: slow_checker_def)
  then show "parts_ok slow_agent"
    by (simp add: parts_ok_def slow_agent_def sample_agent_def exit_restart.restart_strategy_axioms)
  show "agent_layout slow_agent" by code_simp
qed

theorem health_deadline_keeps_update_witness:
  "fst (BootPhase sample_lib slow_agent None sample_boot) =
     Return (Some (Wrap ''watchdog: health check failed'' (Wrap ''http heartbeat: do'' DeadlineExceeded))) \<and>
   dev slow_agent (snd (BootPhase sample_lib slow_agent None sample_boot)) = dev slow_agent sample_boot"
proof -
  let ?h = "''6100000000000000000000000000000000000000000000000000000000000000''"
  let ?p = "\<lparr>PreviousHash = ''x'', NewHash = ?h, SwappedUnix = 0\<rparr>"
  let ?e = "Wrap ''watchdog: health check failed'' (Wrap ''http heartbeat: do'' DeadlineExceeded)"
  let ?u = slow_agent and ?wd = "u_watchdog slow_agent"
  define w1 where "w1 = snd (readPending ?u sample_boot)"
  define w2 where "w2 = snd (ActiveSlot (lib_sha sample_lib) (u_slots ?u) w1)"
  define w3 where "w3 = snd (CheckBoot ?wd ?h w2)"
  define w4 where "w4 = snd (WaitForHealth ?wd (u_checker ?u) None w3)"
  note defs = w1_def w2_def w3_def w4_def
  have "fst (readPending ?u sample_boot) = Inr (Some ?p)" by code_simp
  then have 1: "readPending ?u sample_boot = (Inr (Some ?p), w1)" by (simp add: w1_def prod_eq_iff)
  have "fst (ActiveSlot (lib_sha sample_lib) (u_slots ?u) w1) = Inr (''/o/s/A'', ?h, ''A'')"
    unfolding w1_def by code_simp
  then have 2: "ActiveSlot (lib_sha sample_lib) (u_slots ?u) w1 = (Inr (''/o/s/A'', NewHash ?p, ''A''), w2)"
    by (simp add: w2_def prod_eq_iff)
  have "fst (CheckBoot ?wd ?h w2) = (1, None)" unfolding w1_def w2_def by code_simp
  then have 3: "CheckBoot ?wd (NewHash ?p) w2 = ((1, None), w3)" by (simp add: w3_def prod_eq_iff)
  have "fst (WaitForHealth ?wd (u_checker ?u) None w3) = Some ?e" unfolding w1_def w2_def w3_def by code_simp
  then have 4: "WaitForHealth ?wd (u_checker ?u) None w3 = (Some ?e, w4)" by (simp add: w4_def prod_eq_iff)
  have "errors_Is ?e DeadlineExceeded" by simp
  from health_deadline_keeps_update [OF slow_agent_ok 1 2 3 4 this] show ?thesis by simp
qed

end
