(* ===== verification/Store.thy ===== *)
theory Store
  imports Lru Crypto Atomicio
begin

text \<open>
  The content-addressed store of \<open>pkg/server/store.go\<close>. Its state extends the operating system: the
  options, the two byte caches, the negative cache of \<open>HasBinary\<close>, and the delta generations that were
  dispatched and have not run yet (one goroutine each). An operation is one step; a generation that was
  dispatched runs as a step of its own, at any later time and in any order. \<open>HasBinary\<close>, which lets go of
  its lock around the call of \<open>Stat\<close>, is the composition of the two critical sections that other
  operations may come between. The request coalescing (\<open>singleflight\<close>) runs its argument once for the
  callers that wait together, so in a sequence of steps it is the argument. The counters of the metrics
  and the log are left out.
\<close>

section \<open>Options and state\<close>

definition ErrBinaryNotFound :: err where
  "ErrBinaryNotFound = Sentinel ''binary not found in store''"

definition ErrDeltaTooLarge :: err where
  "ErrDeltaTooLarge = Sentinel ''delta exceeds the configured size budget''"

definition DefaultDeltaGenConcurrency :: int where "DefaultDeltaGenConcurrency = 2"
definition DefaultTargetCacheBytes :: int where "DefaultTargetCacheBytes = push_bit 20 200"
definition DefaultHotDeltaCacheBytes :: int where "DefaultHotDeltaCacheBytes = push_bit 20 512"

definition hotKeyDelta :: string where "hotKeyDelta = ''d:''"
definition hotKeyBinary :: string where "hotKeyBinary = ''f:''"

definition hasBinaryMissTTL :: int where "hasBinaryMissTTL = 30 * 1000000000"
definition hasBinaryMissCap :: nat where "hasBinaryMissCap = 256"

record store_options =
  so_BinariesDir :: string
  so_DeltasDir :: string
  so_TargetCacheBytes :: int
  so_HotDeltaCacheBytes :: int
  so_DeltaConcurrency :: int
  so_DeltaMaxSourceBytes :: int
  so_DiskSpaceMinFreePct :: int
  so_DiskSpaceMinFreeMB :: int

record store = os +
  st_opts :: store_options
  hotCache :: byteBudgetLRU
  targetCache :: byteBudgetLRU
  missCache :: "(string \<times> int) list"
  generations :: "(string \<times> string) list"

section \<open>Open\<close>

text \<open>\<open>os.MkdirAll\<close>: the missing directories of a path, outermost first.\<close>

definition os_Mkdir :: "string \<Rightarrow> 'z os_scheme \<Rightarrow> err option \<times> 'z os_scheme" where
  "os_Mkdir p = syscall Some (\<lambda>w.
     (if map_of (files w) p \<noteq> None then (Some EEXIST, w)
      else if is_dir w (path_dir p) then (None, link_at p EDir w)
      else (Some ENOENT, w)))"

fun mkdir_all :: "nat \<Rightarrow> string \<Rightarrow> 'z os_scheme \<Rightarrow> err option \<times> 'z os_scheme" where
  "mkdir_all 0 p w = (Some ENOENT, w)"
| "mkdir_all (Suc n) p w =
     (case os_Stat p w of
        (Inr EDir, w) \<Rightarrow> (None, w)
      | (Inr _, w) \<Rightarrow> (Some ENOTDIR, w)
      | (Inl _, w) \<Rightarrow>
          (case (if path_dir p = p then (None, w) else mkdir_all n (path_dir p) w) of
             (Some e, w) \<Rightarrow> (Some e, w)
           | (None, w) \<Rightarrow>
               (case os_Mkdir p w of
                  (None, w) \<Rightarrow> (None, w)
                | (Some e, w) \<Rightarrow>
                    (case os_Lstat p w of
                       (Inr EDir, w) \<Rightarrow> (None, w)
                     | (_, w) \<Rightarrow> (Some e, w)))))"

definition os_MkdirAll :: "string \<Rightarrow> 'z os_scheme \<Rightarrow> err option \<times> 'z os_scheme" where
  "os_MkdirAll p = mkdir_all (Suc (length p)) (path_clean p)"

definition disk_breach :: "64 word \<Rightarrow> 64 word \<Rightarrow> int \<Rightarrow> int \<Rightarrow> bool \<times> bool" where
  "disk_breach free tot minPct minMB =
     (minPct > 0 \<and> tot > 0 \<and> (free * 100) div tot < word_of_int minPct,
      minMB > 0 \<and> free < push_bit 20 (word_of_int minMB))"

text \<open>What \<open>checkDiskSpace\<close> would log: nothing to say, or the two breaches.\<close>

definition checkDiskSpace :: "(string \<Rightarrow> err + statfs) \<Rightarrow> string \<Rightarrow> int \<Rightarrow> int \<Rightarrow> (bool \<times> bool) option" where
  "checkDiskSpace statfs path minPct minMB =
     (case Free statfs path of
        Inl e \<Rightarrow> None
      | Inr (free, tot) \<Rightarrow> Some (disk_breach free tot minPct minMB))"

definition store_defaults :: "store_options \<Rightarrow> store_options" where
  "store_defaults o1 =
     (let o2 = (if so_TargetCacheBytes o1 \<le> 0 then o1\<lparr>so_TargetCacheBytes := DefaultTargetCacheBytes\<rparr> else o1);
          o3 = (if so_HotDeltaCacheBytes o2 \<le> 0 then o2\<lparr>so_HotDeltaCacheBytes := DefaultHotDeltaCacheBytes\<rparr> else o2)
      in if so_DeltaConcurrency o3 \<le> 0 then o3\<lparr>so_DeltaConcurrency := DefaultDeltaGenConcurrency\<rparr> else o3)"

text \<open>\<open>Open\<close> fills the fields of the store in the state of the process; the result carries what the disk
  check reports for the two directories.\<close>

definition Open ::
  "(string \<Rightarrow> err + statfs) \<Rightarrow> store_options \<Rightarrow> 'z store_scheme \<Rightarrow> (err + (bool \<times> bool) option list) \<times> 'z store_scheme" where
  "Open statfs opts s =
     (if so_BinariesDir opts = '''' \<or> so_DeltasDir opts = '''' then
        (Inl (Msg ''store: binaries_dir and deltas_dir are required''), s)
      else
        (let opts = store_defaults opts
         in case os_MkdirAll (so_BinariesDir opts) s of
              (Some e, s) \<Rightarrow> (Inl (Wrap ''create store dir'' e), s)
            | (None, s) \<Rightarrow>
                (case os_MkdirAll (so_DeltasDir opts) s of
                   (Some e, s) \<Rightarrow> (Inl (Wrap ''create store dir'' e), s)
                 | (None, s) \<Rightarrow>
                     (let s = s\<lparr>st_opts := opts, hotCache := newByteBudgetLRU (so_HotDeltaCacheBytes opts),
                                targetCache := newByteBudgetLRU (so_TargetCacheBytes opts),
                                missCache := [], generations := []\<rparr>;
                          s = snd (SweepStaleTemp (so_BinariesDir opts) [''.tmp-''] (24 * 3600 * 1000000000) s);
                          s = snd (SweepStaleTemp (so_DeltasDir opts) [''.tmp-''] (24 * 3600 * 1000000000) s);
                          warn = (\<lambda>d. checkDiskSpace statfs d (so_DiskSpaceMinFreePct opts) (so_DiskSpaceMinFreeMB opts))
                      in (Inr (warn (so_BinariesDir opts) #
                               (if so_DeltasDir opts \<noteq> so_BinariesDir opts then [warn (so_DeltasDir opts)] else [])),
                          s)))))"

section \<open>Content-addressed binaries\<close>

definition binaryPath :: "store_options \<Rightarrow> string \<Rightarrow> string" where
  "binaryPath opts hash = path_join (so_BinariesDir opts) (hash @ ''.bin'')"

definition st_DeltaPath :: "store_options \<Rightarrow> string \<Rightarrow> string \<Rightarrow> string" where
  "st_DeltaPath opts fromHash toHash =
     path_join (so_DeltasDir opts) (fromHash @ ''_'' @ toHash @ ''.delta.zst'')"

definition FullPath :: "store_options \<Rightarrow> string \<Rightarrow> string" where
  "FullPath opts hash = path_join (so_DeltasDir opts) (hash @ ''.full.zst'')"

definition fileExists :: "string \<Rightarrow> 'z os_scheme \<Rightarrow> bool \<times> 'z os_scheme" where
  "fileExists p w = (case os_Stat p w of (Inr _, w) \<Rightarrow> (True, w) | (Inl _, w) \<Rightarrow> (False, w))"

definition invalidateMissCache :: "'z store_scheme \<Rightarrow> 'z store_scheme" where
  "invalidateMissCache s = s\<lparr>missCache := []\<rparr>"

definition RegisterBinary :: "lib \<Rightarrow> bytes \<Rightarrow> 'z store_scheme \<Rightarrow> (err + string) \<times> 'z store_scheme" where
  "RegisterBinary L data s =
     (let hash = sha256HexBytes L data; path = binaryPath (st_opts s) hash
      in case os_Stat path s of
           (Inr _, s) \<Rightarrow> (Inr hash, invalidateMissCache s)
         | (Inl _, s) \<Rightarrow>
             (case WriteFile path (Raw data) 420 s of
                (Some e, s) \<Rightarrow> (Inl (Wrap ''write binary'' e), s)
              | (None, s) \<Rightarrow> (Inr hash, invalidateMissCache s)))"

definition RegisterBinaryFile ::
  "lib \<Rightarrow> string \<Rightarrow> 'z store_scheme \<Rightarrow> (err + string \<times> int) \<times> 'z store_scheme" where
  "RegisterBinaryFile L path s =
     (case os_ReadFile path s of
        (Inl e, s) \<Rightarrow> (Inl (Wrap ''read binary'' e), s)
      | (Inr c, s) \<Rightarrow>
          (let data = bytes_of c
           in case RegisterBinary L data s of
                (Inl e, s) \<Rightarrow> (Inl e, s)
              | (Inr hash, s) \<Rightarrow> (Inr (hash, int (length data)), s)))"

subsection \<open>HasBinary\<close>

text \<open>The first critical section: a miss that is still fresh. An expired one is forgotten.\<close>

definition miss_check :: "string \<Rightarrow> 'z store_scheme \<Rightarrow> bool \<times> 'z store_scheme" where
  "miss_check hash s =
     (case map_of (missCache s) hash of
        Some deadline \<Rightarrow>
          if os_Now s < deadline then (True, s) else (False, s\<lparr>missCache := del hash (missCache s)\<rparr>)
      | None \<Rightarrow> (False, s))"

text \<open>The second: the miss is recorded. At the cap, an entry goes first, the one the iteration over the
  map comes to first; which one that is is read off the random numbers of the state.\<close>

definition miss_victim :: "'z store_scheme \<Rightarrow> nat" where
  "miss_victim s = (case rand s of [] \<Rightarrow> 0 | r # _ \<Rightarrow> r mod length (missCache s))"

definition miss_record :: "string \<Rightarrow> 'z store_scheme \<Rightarrow> 'z store_scheme" where
  "miss_record hash s =
     (let m = missCache s;
          i = miss_victim s;
          m = (if hasBinaryMissCap \<le> length m then take i m @ drop (Suc i) m else m)
      in s\<lparr>missCache := put hash (os_Now s + hasBinaryMissTTL) m\<rparr>)"

definition HasBinary :: "string \<Rightarrow> 'z store_scheme \<Rightarrow> bool \<times> 'z store_scheme" where
  "HasBinary hash s =
     (case miss_check hash s of
        (True, s) \<Rightarrow> (False, s)
      | (False, s) \<Rightarrow>
          (case os_Stat (binaryPath (st_opts s) hash) s of
             (Inr _, s) \<Rightarrow> (True, s)
           | (Inl _, s) \<Rightarrow> (False, miss_record hash s)))"

subsection \<open>Reading\<close>

definition BinarySize :: "string \<Rightarrow> 'z store_scheme \<Rightarrow> (err + int) \<times> 'z store_scheme" where
  "BinarySize hash s =
     (case os_Stat (binaryPath (st_opts s) hash) s of
        (Inl e, s) \<Rightarrow>
          (if errors_Is e ENOENT then (Inl ErrBinaryNotFound, s) else (Inl (Wrap ''stat binary'' e), s))
      | (Inr fi, s) \<Rightarrow> (Inr (ent_size fi), s))"

definition LoadBinary :: "string \<Rightarrow> 'z store_scheme \<Rightarrow> (err + bytes) \<times> 'z store_scheme" where
  "LoadBinary hash s =
     (case os_ReadFile (binaryPath (st_opts s) hash) s of
        (Inl e, s) \<Rightarrow>
          (if errors_Is e ENOENT then (Inl ErrBinaryNotFound, s) else (Inl (Wrap ''read binary'' e), s))
      | (Inr c, s) \<Rightarrow> (Inr (bytes_of c), s))"

section \<open>Deltas\<close>

definition HasDelta :: "string \<Rightarrow> string \<Rightarrow> 'z store_scheme \<Rightarrow> bool \<times> 'z store_scheme" where
  "HasDelta fromHash toHash s = fileExists (st_DeltaPath (st_opts s) fromHash toHash) s"

text \<open>The loop over the two binaries; the reason names the one that is over the budget.\<close>

fun can_diff_loop :: "(string \<times> string) list \<Rightarrow> 'z store_scheme \<Rightarrow> (bool \<times> string) \<times> 'z store_scheme" where
  "can_diff_loop [] s = ((True, ''''), s)"
| "can_diff_loop ((role, hash) # bs) s =
     (case BinarySize hash s of
        (Inl e, s) \<Rightarrow> can_diff_loop bs s
      | (Inr sz, s) \<Rightarrow>
          if so_DeltaMaxSourceBytes (st_opts s) < sz
          then ((False, role @ '' binary is over the delta budget''), s)
          else can_diff_loop bs s)"

definition CanDiff :: "string \<Rightarrow> string \<Rightarrow> 'z store_scheme \<Rightarrow> (bool \<times> string) \<times> 'z store_scheme" where
  "CanDiff fromHash toHash s =
     (if so_DeltaMaxSourceBytes (st_opts s) \<le> 0 then ((True, ''''), s)
      else
        (case fileExists (st_DeltaPath (st_opts s) fromHash toHash) s of
           (True, s) \<Rightarrow> ((True, ''''), s)
         | (False, s) \<Rightarrow> can_diff_loop [(''source'', fromHash), (''target'', toHash)] s))"

definition putHot :: "string \<Rightarrow> bytes \<Rightarrow> 'z store_scheme \<Rightarrow> 'z store_scheme" where
  "putHot key data s = s\<lparr>hotCache := snd (b_Put key data (hotCache s))\<rparr>"

definition hot_get :: "string \<Rightarrow> 'z store_scheme \<Rightarrow> bytes option \<times> 'z store_scheme" where
  "hot_get key s = (case b_Get key (hotCache s) of (r, c) \<Rightarrow> (r, s\<lparr>hotCache := c\<rparr>))"

definition loadTarget :: "string \<Rightarrow> 'z store_scheme \<Rightarrow> (err + bytes) \<times> 'z store_scheme" where
  "loadTarget hash s =
     (case b_Get hash (targetCache s) of
        (Some data, c) \<Rightarrow> (Inr data, s\<lparr>targetCache := c\<rparr>)
      | (None, c) \<Rightarrow>
          (case LoadBinary hash (s\<lparr>targetCache := c\<rparr>) of
             (Inl e, s) \<Rightarrow> (Inl e, s)
           | (Inr data, s) \<Rightarrow> (Inr data, s\<lparr>targetCache := snd (b_Put hash data (targetCache s))\<rparr>)))"

text \<open>The slot that bounds the concurrent generations is free: one runs at a time here.\<close>

definition generateAndCacheDelta ::
  "lib \<Rightarrow> string \<Rightarrow> string \<Rightarrow> 'z store_scheme \<Rightarrow> (err + string) \<times> 'z store_scheme" where
  "generateAndCacheDelta L fromHash toHash s =
     (let out = st_DeltaPath (st_opts s) fromHash toHash
      in case fileExists out s of
           (True, s) \<Rightarrow> (Inr out, s)
         | (False, s) \<Rightarrow>
        (case fileExists out s of
           (True, s) \<Rightarrow> (Inr out, s)
         | (False, s) \<Rightarrow>
        (case LoadBinary fromHash s of
           (Inl e, s) \<Rightarrow> (Inl e, s)
         | (Inr oldBin, s) \<Rightarrow>
        (case loadTarget toHash s of
           (Inl e, s) \<Rightarrow> (Inl e, s)
         | (Inr newBin, s) \<Rightarrow>
        (case delta_Generate L oldBin newBin of
           Inl e \<Rightarrow> (Inl (Wrap ''generate delta'' e), s)
         | Inr patch \<Rightarrow>
        (case WriteFile out (Raw patch) 420 s of
           (Some e, s) \<Rightarrow> (Inl (Wrap ''write delta'' e), s)
         | (None, s) \<Rightarrow> (Inr out, putHot (hotKeyDelta @ fromHash @ ''_'' @ toHash) patch s)))))))"

definition EnsureDelta ::
  "lib \<Rightarrow> ctx \<Rightarrow> string \<Rightarrow> string \<Rightarrow> 'z store_scheme \<Rightarrow> (err + string) \<times> 'z store_scheme" where
  "EnsureDelta L c fromHash toHash s =
     (let p = st_DeltaPath (st_opts s) fromHash toHash
      in case fileExists p s of
           (True, s) \<Rightarrow> (Inr p, s)
         | (False, s) \<Rightarrow>
             (case CanDiff fromHash toHash s of
                ((False, reason), s) \<Rightarrow> (Inl (Wrap reason ErrDeltaTooLarge), s)
              | ((True, _), s) \<Rightarrow>
                  (case ctx_Err c s of
                     Some e \<Rightarrow> (Inl e, s)
                   | None \<Rightarrow> generateAndCacheDelta L fromHash toHash s)))"

text \<open>The order of the three tests, each of which may leave a trace in the negative cache.\<close>

definition can_start :: "string \<Rightarrow> string \<Rightarrow> 'z store_scheme \<Rightarrow> bool \<times> 'z store_scheme" where
  "can_start fromHash toHash s =
     (case fileExists (st_DeltaPath (st_opts s) fromHash toHash) s of
        (True, s) \<Rightarrow> (False, s)
      | (False, s) \<Rightarrow>
          (case HasBinary fromHash s of
             (False, s) \<Rightarrow> (False, s)
           | (True, s) \<Rightarrow> HasBinary toHash s))"

definition StartDeltaGeneration :: "string \<Rightarrow> string \<Rightarrow> 'z store_scheme \<Rightarrow> bool \<times> 'z store_scheme" where
  "StartDeltaGeneration fromHash toHash s =
     (case can_start fromHash toHash s of
        (False, s) \<Rightarrow> (False, s)
      | (True, s) \<Rightarrow>
          (case CanDiff fromHash toHash s of
             ((False, reason), s) \<Rightarrow> (False, s)
           | ((True, _), s) \<Rightarrow> (True, s\<lparr>generations := generations s @ [(fromHash, toHash)]\<rparr>)))"

text \<open>One of the dispatched goroutines runs.\<close>

definition run_generation :: "lib \<Rightarrow> nat \<Rightarrow> 'z store_scheme \<Rightarrow> 'z store_scheme" where
  "run_generation L i s =
     (if i < length (generations s) then
        (let (f, t) = generations s ! i;
             s = s\<lparr>generations := take i (generations s) @ drop (Suc i) (generations s)\<rparr>
         in snd (generateAndCacheDelta L f t s))
      else s)"

section \<open>Transfers\<close>

text \<open>The path through the hot cache and the disk. A result without an error is \<open>found\<close> or not.\<close>

definition read_cached :: "string \<Rightarrow> string \<Rightarrow> 'z store_scheme \<Rightarrow> (err + bytes) \<times> 'z store_scheme" where
  "read_cached key path s =
     (case hot_get key s of
        (Some data, s) \<Rightarrow> (Inr data, s)
      | (None, s) \<Rightarrow>
          (case os_ReadFile path s of
             (Inl e, s) \<Rightarrow> (Inl (Wrap ''read cached artifact'' e), s)
           | (Inr c, s) \<Rightarrow> (Inr (bytes_of c), putHot key (bytes_of c) s)))"

definition getCached ::
  "string \<Rightarrow> string \<Rightarrow> ('z store_scheme \<Rightarrow> 'z store_scheme) option \<Rightarrow> 'z store_scheme \<Rightarrow>
   (err + bytes option) \<times> 'z store_scheme" where
  "getCached key path onMiss s =
     (case hot_get key s of
        (Some data, s) \<Rightarrow> (Inr (Some data), s)
      | (None, s) \<Rightarrow>
          (case fileExists path s of
             (False, s) \<Rightarrow> (Inr None, case onMiss of Some f \<Rightarrow> f s | None \<Rightarrow> s)
           | (True, s) \<Rightarrow>
               (case read_cached key path s of
                  (Inl e, s) \<Rightarrow> (if errors_Is e ENOENT then (Inr None, s) else (Inl e, s))
                | (Inr data, s) \<Rightarrow> (Inr (Some data), s))))"

definition GetDeltaBytes ::
  "string \<Rightarrow> string \<Rightarrow> 'z store_scheme \<Rightarrow> (err + bytes option) \<times> 'z store_scheme" where
  "GetDeltaBytes fromHash toHash s =
     getCached (hotKeyDelta @ fromHash @ ''_'' @ toHash) (st_DeltaPath (st_opts s) fromHash toHash)
       (Some (\<lambda>s. snd (StartDeltaGeneration fromHash toHash s))) s"

definition PeekHotDelta :: "string \<Rightarrow> string \<Rightarrow> 'z store_scheme \<Rightarrow> bytes option \<times> 'z store_scheme" where
  "PeekHotDelta fromHash toHash s = hot_get (hotKeyDelta @ fromHash @ ''_'' @ toHash) s"

definition PeekHotBinary :: "string \<Rightarrow> 'z store_scheme \<Rightarrow> bytes option \<times> 'z store_scheme" where
  "PeekHotBinary hash s = hot_get (hotKeyBinary @ hash) s"

text \<open>The generation of a compressed binary, run under the request coalescing.\<close>

definition compress_binary ::
  "lib \<Rightarrow> ctx \<Rightarrow> string \<Rightarrow> 'z store_scheme \<Rightarrow> (err + bytes) \<times> 'z store_scheme" where
  "compress_binary L c hash s =
     (case ctx_Err c s of
        Some e \<Rightarrow> (Inl e, s)
      | None \<Rightarrow>
     (case hot_get (hotKeyBinary @ hash) s of
        (Some data, s) \<Rightarrow> (Inr data, s)
      | (None, s) \<Rightarrow>
     (case LoadBinary hash s of
        (Inl e, s) \<Rightarrow> (Inl e, s)
      | (Inr raw, s) \<Rightarrow>
     (case CompressBytes L raw of
        Inl e \<Rightarrow> (Inl (Wrap ''compress binary'' e), s)
      | Inr packed \<Rightarrow>
     (case WriteFile (FullPath (st_opts s) hash) (Raw packed) 420 s of
        (Some e, s) \<Rightarrow> (Inl (Wrap ''write compressed binary'' e), s)
      | (None, s) \<Rightarrow> (Inr packed, putHot (hotKeyBinary @ hash) packed s))))))"

text \<open>From the second half of \<open>GetBinaryBytes\<close> on: nothing usable is cached.\<close>

definition get_uncached ::
  "lib \<Rightarrow> ctx \<Rightarrow> string \<Rightarrow> 'z store_scheme \<Rightarrow> (err + bytes option) \<times> 'z store_scheme" where
  "get_uncached L c hash s =
     (case HasBinary hash s of
        (False, s) \<Rightarrow> (Inr None, s)
      | (True, s) \<Rightarrow>
          (case compress_binary L c hash s of
             (Inl e, s) \<Rightarrow> (if errors_Is e ErrBinaryNotFound then (Inr None, s) else (Inl e, s))
           | (Inr data, s) \<Rightarrow> (Inr (Some data), s)))"

definition GetBinaryBytes ::
  "lib \<Rightarrow> ctx \<Rightarrow> string \<Rightarrow> 'z store_scheme \<Rightarrow> (err + bytes option) \<times> 'z store_scheme" where
  "GetBinaryBytes L c hash s =
     (let key = hotKeyBinary @ hash; path = FullPath (st_opts s) hash
      in case hot_get key s of
           (Some data, s) \<Rightarrow> (Inr (Some data), s)
         | (None, s) \<Rightarrow>
             (case fileExists path s of
                (True, s) \<Rightarrow>
                  (case getCached key path None s of
                     (Inr None, s) \<Rightarrow> get_uncached L c hash s
                   | (r, s) \<Rightarrow> (r, s))
              | (False, s) \<Rightarrow> get_uncached L c hash s))"

definition InvalidateHot :: "'z store_scheme \<Rightarrow> 'z store_scheme" where
  "InvalidateHot s = s\<lparr>hotCache := b_Clear (hotCache s)\<rparr>"

text \<open>\<open>Close\<close> waits for the goroutines; the argument is the number of generations that end before the
  deadline of the context, if it has one.\<close>

fun run_generations :: "lib \<Rightarrow> nat \<Rightarrow> 'z store_scheme \<Rightarrow> 'z store_scheme" where
  "run_generations L 0 s = s"
| "run_generations L (Suc n) s = run_generations L n (run_generation L 0 s)"

definition Close :: "lib \<Rightarrow> nat option \<Rightarrow> 'z store_scheme \<Rightarrow> err option \<times> 'z store_scheme" where
  "Close L deadline s =
     (let s' = run_generations L (case deadline of Some n \<Rightarrow> n | None \<Rightarrow> length (generations s)) s
      in (if generations s' = [] then None else Some DeadlineExceeded, s'))"

section \<open>What the store promises\<close>

text \<open>A delta or a compressed binary is good when it was made from binaries with the digests its name
  carries; such a transfer gives back the target.\<close>

definition delta_for :: "lib \<Rightarrow> string \<Rightarrow> string \<Rightarrow> bytes \<Rightarrow> bool" where
  "delta_for L f t d \<longleftrightarrow> (\<exists>a b. sha256HexBytes L a = f \<and> sha256HexBytes L b = t \<and> delta_Generate L a b = Inr d)"

definition full_for :: "lib \<Rightarrow> string \<Rightarrow> bytes \<Rightarrow> bool" where
  "full_for L h z \<longleftrightarrow> (\<exists>b. sha256HexBytes L b = h \<and> CompressBytes L b = Inr z)"

text \<open>The contents that belong at a path of the store.\<close>

definition store_path :: "store_options \<Rightarrow> string \<Rightarrow> bool" where
  "store_path opts q \<longleftrightarrow>
     (\<exists>h. IsValidHash h \<and> (q = binaryPath opts h \<or> q = FullPath opts h)) \<or>
     (\<exists>f t. IsValidHash f \<and> IsValidHash t \<and> q = st_DeltaPath opts f t)"

definition belongs :: "lib \<Rightarrow> store_options \<Rightarrow> string \<Rightarrow> bytes \<Rightarrow> bool" where
  "belongs L opts q c \<longleftrightarrow>
     (\<forall>h. IsValidHash h \<longrightarrow> q = binaryPath opts h \<longrightarrow> sha256HexBytes L c = h) \<and>
     (\<forall>h. IsValidHash h \<longrightarrow> q = FullPath opts h \<longrightarrow> full_for L h c) \<and>
     (\<forall>f t. IsValidHash f \<longrightarrow> IsValidHash t \<longrightarrow> q = st_DeltaPath opts f t \<longrightarrow> delta_for L f t c)"

fun ent_ok :: "lib \<Rightarrow> store_options \<Rightarrow> string \<Rightarrow> ent option \<Rightarrow> bool" where
  "ent_ok L opts q (Some (EFile c m t s)) = (s \<and> belongs L opts q (bytes_of c))"
| "ent_ok L opts q (Some (ELink t)) = False"
| "ent_ok L opts q _ = True"

text \<open>On disk this holds for every entry that a loss of power may leave.\<close>

definition disk_ok :: "lib \<Rightarrow> 'z store_scheme \<Rightarrow> bool" where
  "disk_ok L s \<longleftrightarrow> (\<forall>q. store_path (st_opts s) q \<longrightarrow> (\<forall>e \<in> crash_ents (snap s) q. ent_ok L (st_opts s) q e))"

definition hot_rule :: "lib \<Rightarrow> string \<Rightarrow> bytes \<Rightarrow> bool" where
  "hot_rule L k v \<longleftrightarrow>
     (\<forall>f t. IsValidHash f \<longrightarrow> IsValidHash t \<longrightarrow> k = hotKeyDelta @ f @ ''_'' @ t \<longrightarrow> delta_for L f t v) \<and>
     (\<forall>h. IsValidHash h \<longrightarrow> k = hotKeyBinary @ h \<longrightarrow> full_for L h v)"

definition target_rule :: "lib \<Rightarrow> string \<Rightarrow> bytes \<Rightarrow> bool" where
  "target_rule L h b \<longleftrightarrow> (IsValidHash h \<longrightarrow> sha256HexBytes L b = h)"

definition mem_ok :: "lib \<Rightarrow> 'z store_scheme \<Rightarrow> bool" where
  "mem_ok L s \<longleftrightarrow>
     bytes_lru.holds (hot_rule L) (hotCache s) \<and> bytes_lru.holds (target_rule L) (targetCache s) \<and>
     length (missCache s) \<le> hasBinaryMissCap \<and>
     (\<forall>g \<in> set (generations s). IsValidHash (fst g) \<and> IsValidHash (snd g)) \<and>
     so_BinariesDir (st_opts s) \<noteq> '''' \<and> so_DeltasDir (st_opts s) \<noteq> ''''"

definition store_ok :: "lib \<Rightarrow> 'z store_scheme \<Rightarrow> bool" where
  "store_ok L s \<longleftrightarrow> lib_ok L \<and> disk_ok L s \<and> mem_ok L s"

section \<open>Names\<close>

lemma IsValidHash_seg:
  assumes "IsValidHash h"
  shows "path_seg (h @ ''.bin'')" "path_seg (h @ ''.full.zst'')"
  using assms IsValidHash_chars [OF assms] by (auto simp: path_seg_def)

lemma IsValidHash_delta_seg:
  assumes "IsValidHash f" "IsValidHash t"
  shows "path_seg (f @ ''_'' @ t @ ''.delta.zst'')"
  using IsValidHash_chars [OF assms(1)] IsValidHash_chars [OF assms(2)] by (auto simp: path_seg_def)

lemma store_path_base:
  "so_BinariesDir o1 \<noteq> '''' \<Longrightarrow> IsValidHash h \<Longrightarrow> path_base (binaryPath o1 h) = h @ ''.bin''"
  "so_DeltasDir o1 \<noteq> '''' \<Longrightarrow> IsValidHash h \<Longrightarrow> path_base (FullPath o1 h) = h @ ''.full.zst''"
  "so_DeltasDir o1 \<noteq> '''' \<Longrightarrow> IsValidHash f \<Longrightarrow> IsValidHash t \<Longrightarrow>
   path_base (st_DeltaPath o1 f t) = f @ ''_'' @ t @ ''.delta.zst''"
  using path_base_join IsValidHash_seg IsValidHash_delta_seg
  by (simp_all add: binaryPath_def FullPath_def st_DeltaPath_def)

text \<open>The three kinds of names are apart, and each name says which digests it is for.\<close>

lemma store_path_inj:
  assumes "so_BinariesDir o1 \<noteq> ''''" "so_DeltasDir o1 \<noteq> ''''"
  shows "IsValidHash h \<Longrightarrow> IsValidHash h' \<Longrightarrow> binaryPath o1 h = binaryPath o1 h' \<Longrightarrow> h = h'"
    "IsValidHash h \<Longrightarrow> IsValidHash h' \<Longrightarrow> FullPath o1 h = FullPath o1 h' \<Longrightarrow> h = h'"
    "IsValidHash f \<Longrightarrow> IsValidHash t \<Longrightarrow> IsValidHash f' \<Longrightarrow> IsValidHash t' \<Longrightarrow>
     st_DeltaPath o1 f t = st_DeltaPath o1 f' t' \<Longrightarrow> f = f' \<and> t = t'"
    "IsValidHash h \<Longrightarrow> IsValidHash h' \<Longrightarrow> binaryPath o1 h \<noteq> FullPath o1 h'"
    "IsValidHash h \<Longrightarrow> IsValidHash f \<Longrightarrow> IsValidHash t \<Longrightarrow> binaryPath o1 h \<noteq> st_DeltaPath o1 f t"
    "IsValidHash h \<Longrightarrow> IsValidHash f \<Longrightarrow> IsValidHash t \<Longrightarrow> FullPath o1 h \<noteq> st_DeltaPath o1 f t"
proof -
  note base = store_path_base(1) [OF assms(1)] store_path_base(1) [OF assms(1)] store_path_base(1) [OF assms(1)] store_path_base(2,3) [OF assms(2)]
  show "h = h'" if "IsValidHash h" "IsValidHash h'" "binaryPath o1 h = binaryPath o1 h'"
    using base(1) [OF that(1)] base(1) [OF that(2)] that(3) by (metis append_same_eq)
  show "h = h'" if "IsValidHash h" "IsValidHash h'" "FullPath o1 h = FullPath o1 h'"
    using base(4) [OF that(1)] base(4) [OF that(2)] that(3) by (metis append_same_eq)
  show "f = f' \<and> t = t'" if "IsValidHash f" "IsValidHash t" "IsValidHash f'" "IsValidHash t'"
    "st_DeltaPath o1 f t = st_DeltaPath o1 f' t'"
  proof -
    have "f @ ''_'' @ t @ ''.delta.zst'' = f' @ ''_'' @ t' @ ''.delta.zst''"
      using base(5) [OF that(1,2)] base(5) [OF that(3,4)] that(5) by metis
    moreover have "length f = length f'" using that by (simp add: IsValidHash_length)
    ultimately show ?thesis by simp
  qed
  show "binaryPath o1 h \<noteq> FullPath o1 h'" if "IsValidHash h" "IsValidHash h'"
  proof
    assume "binaryPath o1 h = FullPath o1 h'"
    then have "h @ ''.bin'' = h' @ ''.full.zst''" using base(1,4) that by metis
    then have "length (h @ ''.bin'') = length (h' @ ''.full.zst'')" by simp
    with that show False by (simp add: IsValidHash_length)
  qed
  show "binaryPath o1 h \<noteq> st_DeltaPath o1 f t" if "IsValidHash h" "IsValidHash f" "IsValidHash t"
  proof
    assume "binaryPath o1 h = st_DeltaPath o1 f t"
    then have "h @ ''.bin'' = f @ ''_'' @ t @ ''.delta.zst''" using base(1,5) that by metis
    then have "length (h @ ''.bin'') = length (f @ ''_'' @ t @ ''.delta.zst'')" by simp
    with that show False by (simp add: IsValidHash_length)
  qed
  show "FullPath o1 h \<noteq> st_DeltaPath o1 f t" if "IsValidHash h" "IsValidHash f" "IsValidHash t"
  proof
    assume "FullPath o1 h = st_DeltaPath o1 f t"
    then have "h @ ''.full.zst'' = f @ ''_'' @ t @ ''.delta.zst''" using base(4,5) that by metis
    then have "length (h @ ''.full.zst'') = length (f @ ''_'' @ t @ ''.delta.zst'')" by simp
    with that show False by (simp add: IsValidHash_length)
  qed
qed

lemma store_path_not_tmp:
  assumes "so_BinariesDir o1 \<noteq> ''''" "so_DeltasDir o1 \<noteq> ''''" "store_path o1 q"
  shows "\<not> is_tmp q"
proof -
  have "\<exists>h r. IsValidHash h \<and> path_base q = h @ r"
    using assms store_path_base [of o1] by (auto simp: store_path_def)
  then obtain h r where h: "IsValidHash h" "path_base q = h @ r" by blast
  then obtain c h' where c: "h = c # h'" "c \<noteq> CHR ''.''"
    using IsValidHash_chars [OF h(1)] by (cases h) auto
  with h show ?thesis by (simp add: is_tmp_def has_prefix_def)
qed

section \<open>A calculus of store operations\<close>

text \<open>
  \<open>ensures L Q s (r, s')\<close>: from a good store the operation leads to a good store, touches nothing but paths
  of the store and temporary files, leaves at each moment only good entries at the paths of the store,
  and returns a result in \<open>Q\<close>.
\<close>

definition allowed :: "lib \<Rightarrow> store_options \<Rightarrow> string \<Rightarrow> ent option set" where
  "allowed L opts q =
     (if is_tmp q then UNIV else if store_path opts q then {e. ent_ok L opts q e} else {})"

definition st_step :: "lib \<Rightarrow> 'z store_scheme \<Rightarrow> 'z store_scheme \<Rightarrow> bool" where
  "st_step L s s' \<longleftrightarrow>
     st_opts s' = st_opts s \<and> clock s' = clock s \<and> store.more s' = store.more s \<and>
     evolves (tmps \<union> {q. store_path (st_opts s) q}) (allowed L (st_opts s)) s s'"

definition keeps :: "lib \<Rightarrow> 'z store_scheme \<Rightarrow> 'z store_scheme \<Rightarrow> bool" where
  "keeps L s s' \<longleftrightarrow> (store_ok L s \<longrightarrow> store_ok L s' \<and> st_step L s s')"

definition ensures :: "lib \<Rightarrow> ('a \<Rightarrow> bool) \<Rightarrow> 'z store_scheme \<Rightarrow> 'a \<times> 'z store_scheme \<Rightarrow> bool" where
  "ensures L Q s f \<longleftrightarrow> (store_ok L s \<longrightarrow> Q (fst f) \<and> store_ok L (snd f) \<and> st_step L s (snd f))"

lemma st_step_refl [simp]: "st_step L s s"
  by (simp add: st_step_def evolves_refl)

lemma st_step_trans: "st_step L s1 s2 \<Longrightarrow> st_step L s2 s3 \<Longrightarrow> st_step L s1 s3"
  using evolves_step [of _ _ s1 s2 s3] by (auto simp: st_step_def)

lemma keeps_refl [simp]: "keeps L s s"
  by (simp add: keeps_def)

lemma keeps_trans: "keeps L s1 s2 \<Longrightarrow> keeps L s2 s3 \<Longrightarrow> keeps L s1 s3"
  using st_step_trans by (auto simp: keeps_def)

lemma ensures_keeps: "ensures L Q s f \<Longrightarrow> keeps L s (snd f)"
  by (auto simp: ensures_def keeps_def)

lemma ensures_return: "Q r \<Longrightarrow> keeps L s s' \<Longrightarrow> ensures L Q s (r, s')"
  by (simp add: ensures_def keeps_def)

lemma ensures_stop: "Q r \<Longrightarrow> ensures L Q s (r, s)"
  by (simp add: ensures_return)

lemma ensures_weaken: "ensures L Q s f \<Longrightarrow> (\<And>r. Q r \<Longrightarrow> R r) \<Longrightarrow> ensures L R s f"
  by (auto simp: ensures_def)

lemma ensures_bind:
  assumes "ensures L Q s f"
    and "\<And>r s'. Q r \<Longrightarrow> st_opts s' = st_opts s \<Longrightarrow> f = (r, s') \<Longrightarrow> ensures L R s' (g r s')"
  shows "ensures L R s (case f of (r, s') \<Rightarrow> g r s')"
proof -
  obtain r s' where f: "f = (r, s')" by fastforce
  have "Q r \<and> store_ok L s' \<and> st_step L s s'" if "store_ok L s" using assms(1) that f by (simp add: ensures_def)
  moreover from this have "st_opts s' = st_opts s" if "store_ok L s" using that by (simp add: st_step_def)
  ultimately show ?thesis
    using assms(2) [OF _ _ f] st_step_trans [of L s s'] unfolding f ensures_def by auto
qed

lemma ensures_assume: "(store_ok L s \<Longrightarrow> ensures L Q s f) \<Longrightarrow> ensures L Q s f"
  by (auto simp: ensures_def)

text \<open>Calls that touch neither the disk nor the store's memory.\<close>

lemma more_fields:
  "os.more s' = os.more s \<Longrightarrow> st_opts s' = st_opts s \<and> hotCache s' = hotCache s \<and>
   targetCache s' = targetCache s \<and> missCache s' = missCache s \<and> generations s' = generations s \<and>
   store.more s' = store.more s"
  by (cases s, cases s') (auto simp: store.defs)

lemma mem_ok_more: "os.more s' = os.more s \<Longrightarrow> mem_ok L s' = mem_ok L s"
  using more_fields [of s' s] by (simp add: mem_ok_def)

lemma keeps_same:
  assumes "same_disk s s' \<and> same_rest s s'"
  shows "keeps L s s'"
proof -
  have m: "os.more s' = os.more s" "clock s' = clock s" "snap s' = snap s"
    using assms by (auto simp: same_rest_def same_disk_def snap_def)
  with more_fields [OF m(1)] mem_ok_more [OF m(1)] assms show ?thesis
    by (auto simp: keeps_def store_ok_def disk_ok_def st_step_def intro: evolves_same)
qed

lemma ensures_reads: "(\<And>r s'. f = (r, s') \<Longrightarrow> same_disk s s' \<and> same_rest s s') \<Longrightarrow> ensures L (\<lambda>_. True) s f"
  using keeps_same [of s _ L] by (metis ensures_return surj_pair)

text \<open>Changes of the memory alone.\<close>

lemma keeps_memory:
  assumes "same_disk s s'" "clock s' = clock s" "st_opts s' = st_opts s" "store.more s' = store.more s"
    and "mem_ok L s \<Longrightarrow> mem_ok L s'"
  shows "keeps L s s'"
proof -
  have "snap s' = snap s" using assms(1) by (simp add: same_disk_def snap_def)
  with assms show ?thesis
    by (auto simp: keeps_def store_ok_def disk_ok_def st_step_def intro: evolves_same)
qed

lemma keeps_miss [simp]:
  "keeps L s (invalidateMissCache s)"
  "length m \<le> hasBinaryMissCap \<Longrightarrow> keeps L s (s\<lparr>missCache := m\<rparr>)"
  by (rule keeps_memory; simp add: invalidateMissCache_def same_disk_def mem_ok_def)+

lemma hot_get_ensures: "ensures L (\<lambda>r. \<forall>v. r = Some v \<longrightarrow> hot_rule L k v) s (hot_get k s)"
proof (rule ensures_assume)
  assume ok: "store_ok L s"
  obtain r c where g: "b_Get k (hotCache s) = (r, c)" by fastforce
  have "bytes_lru.holds (hot_rule L) (hotCache s)" using ok by (simp add: store_ok_def mem_ok_def)
  from bytes_lru.holds_get [OF this g] have
    c: "bytes_lru.holds (hot_rule L) c" "\<forall>v. r = Some v \<longrightarrow> hot_rule L k v" by auto
  have "keeps L s (s\<lparr>hotCache := c\<rparr>)"
    using c by (intro keeps_memory) (auto simp: same_disk_def mem_ok_def)
  with c g show "ensures L (\<lambda>r. \<forall>v. r = Some v \<longrightarrow> hot_rule L k v) s (hot_get k s)"
    by (simp add: hot_get_def ensures_return)
qed

lemma putHot_keeps: "hot_rule L k v \<Longrightarrow> keeps L s (putHot k v s)"
  unfolding putHot_def using bytes_lru.holds_insert [of "hot_rule L" "hotCache s" k v]
  by (intro keeps_memory) (auto simp: same_disk_def mem_ok_def)

lemma InvalidateHot_keeps: "keeps L s (InvalidateHot s)"
  unfolding InvalidateHot_def using bytes_lru.holds_clear [of "hot_rule L" "hotCache s" "hot_rule L"]
  by (intro keeps_memory) (auto simp: same_disk_def mem_ok_def)

lemma miss_check_ensures: "ensures L (\<lambda>_. True) s (miss_check h s)"
proof (rule ensures_assume)
  assume "store_ok L s"
  then have "length (del h (missCache s)) \<le> hasBinaryMissCap"
    unfolding del_def by (auto simp: store_ok_def mem_ok_def intro: le_trans [OF length_filter_le])
  then show "ensures L (\<lambda>_. True) s (miss_check h s)"
    by (auto simp: miss_check_def ensures_return split: option.split)
qed

lemma miss_record_keeps: "keeps L s (miss_record h s)"
proof -
  have "length (put h d m) \<le> Suc (length m)" for d and m :: "(string \<times> int) list" by (simp add: length_put)
  moreover have "miss_victim s < length (missCache s)" if "hasBinaryMissCap \<le> length (missCache s)"
  proof -
    have "0 < length (missCache s)" using that unfolding hasBinaryMissCap_def by linarith
    then show ?thesis by (auto simp: miss_victim_def split: list.split)
  qed
  ultimately have "length (missCache (miss_record h s)) \<le> hasBinaryMissCap"
    if "length (missCache s) \<le> hasBinaryMissCap"
    using that
    by (auto simp: miss_record_def Let_def length_put intro: le_trans [OF \<open>\<And>m d. length (put h d m) \<le> Suc (length m)\<close>])
  then have "mem_ok L s \<Longrightarrow> mem_ok L (miss_record h s)"
    by (auto simp: mem_ok_def miss_record_def Let_def)
  then show ?thesis by (intro keeps_memory) (auto simp: same_disk_def miss_record_def Let_def)
qed

section \<open>The disk\<close>

lemma store_okD:
  assumes "store_ok L s"
  shows "so_BinariesDir (st_opts s) \<noteq> ''''" "so_DeltasDir (st_opts s) \<noteq> ''''" "lib_ok L"
    "store_path (st_opts s) q \<Longrightarrow> ent_ok L (st_opts s) q (map_of (files s) q)"
  using assms by (auto simp: store_ok_def mem_ok_def disk_ok_def crash_ents_def snap_def)

lemma disk_ok_evolves:
  assumes "store_ok L s" "st_opts s' = st_opts s" "evolves P (allowed L (st_opts s)) s s'"
  shows "disk_ok L s'"
  unfolding disk_ok_def
proof (intro allI impI ballI)
  fix q e assume q: "store_path (st_opts s') q" "e \<in> crash_ents (snap s') q"
  have "\<not> is_tmp q" using store_path_not_tmp store_okD(1,2) [OF assms(1)] q(1) assms(2) by metis
  then have "e \<in> crash_ents (snap s) q \<or> ent_ok L (st_opts s) q e"
    using evolves_crash [OF assms(3), of q] q assms(2) by (auto simp: allowed_def)
  then show "ent_ok L (st_opts s') q e"
    using assms(1,2) q(1) by (auto simp: store_ok_def disk_ok_def)
qed

lemma keeps_disk:
  assumes "evolves (tmps \<union> {q. store_path (st_opts s) q}) (allowed L (st_opts s)) s s'" "same_rest s s'"
  shows "keeps L s s'"
proof -
  have m: "os.more s' = os.more s" "clock s' = clock s" using assms(2) by (auto simp: same_rest_def)
  note f = more_fields [OF m(1)]
  show ?thesis
    using disk_ok_evolves [OF _ _ assms(1)] f mem_ok_more [OF m(1)] m(2) assms(1)
    by (auto simp: keeps_def store_ok_def st_step_def)
qed

lemma fileExists_reads: "fileExists p s = (b, s') \<Longrightarrow> same_disk s s' \<and> same_rest s s'"
  using os_reads(1) [of p s] by (auto simp: fileExists_def split: prod.splits sum.splits)

lemma fileExists_ensures: "ensures L (\<lambda>_. True) s (fileExists p s)"
  by (rule ensures_reads) (rule fileExists_reads)

lemma WriteFile_ensures:
  assumes "store_path (st_opts s) p" "store_ok L s \<Longrightarrow> belongs L (st_opts s) p d"
  shows "ensures L (\<lambda>_. True) s (WriteFile p (Raw d) 420 s)"
proof (rule ensures_assume)
  assume ok: "store_ok L s"
  obtain r s' where w: "WriteFile p (Raw d) 420 s = (r, s')" by fastforce
  let ?e = "EFile (Raw d) 420 (clock s) True"
  have p: "\<not> is_tmp p" using store_path_not_tmp store_okD(1,2) [OF ok] assms(1) by blast
  have e: "evolves (insert p tmps) (only_at p {Some ?e}) s s'" "same_rest s s'"
    using WriteFile_atomic [OF w p] by (auto simp: atomic_write_def)
  have "evolves (tmps \<union> {q. store_path (st_opts s) q}) (allowed L (st_opts s)) s s'"
    by (rule evolves_mono [OF e(1)]) (use assms ok p in \<open>auto simp: only_at_def allowed_def split: if_splits\<close>)
  from keeps_disk [OF this e(2)] show "ensures L (\<lambda>_. True) s (WriteFile p (Raw d) 420 s)"
    by (simp add: w ensures_return)
qed

lemma ReadFile_ensures:
  assumes "store_path (st_opts s) p"
  shows "ensures L (\<lambda>r. \<forall>c. r = Inr c \<longrightarrow> belongs L (st_opts s) p (bytes_of c)) s (os_ReadFile p s)"
proof (rule ensures_assume)
  assume ok: "store_ok L s"
  obtain r s' where w: "os_ReadFile p s = (r, s')" by fastforce
  note e = store_okD(4) [OF ok assms]
  have "belongs L (st_opts s) p (bytes_of c)" if "r = Inr c" for c
  proof (cases "map_of (files s) p")
    case None
    with w that show ?thesis by (auto simp: os_ReadFile_def syscall_def split: option.splits)
  next
    case (Some x)
    with w that e show ?thesis by (cases x) (auto simp: os_ReadFile_def syscall_def split: option.splits)
  qed
  with os_reads(3) [OF w] show
    "ensures L (\<lambda>r. \<forall>c. r = Inr c \<longrightarrow> belongs L (st_opts s) p (bytes_of c)) s (os_ReadFile p s)"
    by (simp add: w ensures_return keeps_same)
qed

section \<open>Every operation keeps the promise\<close>

lemma path_cases:
  "IsValidHash h \<Longrightarrow> store_path o1 (binaryPath o1 h)"
  "IsValidHash h \<Longrightarrow> store_path o1 (FullPath o1 h)"
  "IsValidHash f \<Longrightarrow> IsValidHash t \<Longrightarrow> store_path o1 (st_DeltaPath o1 f t)"
  by (auto simp: store_path_def)

lemma belongs_cases:
  assumes "store_ok L s"
  shows "IsValidHash h \<Longrightarrow> belongs L (st_opts s) (binaryPath (st_opts s) h) c = (sha256HexBytes L c = h)"
    "IsValidHash h \<Longrightarrow> belongs L (st_opts s) (FullPath (st_opts s) h) c = full_for L h c"
    "IsValidHash f \<Longrightarrow> IsValidHash t \<Longrightarrow>
     belongs L (st_opts s) (st_DeltaPath (st_opts s) f t) c = delta_for L f t c"
proof -
  note inj = store_path_inj [OF store_okD(1,2) [OF assms]]
  show "belongs L (st_opts s) (binaryPath (st_opts s) h) c = (sha256HexBytes L c = h)" if "IsValidHash h"
    using inj(1,4,5) that unfolding belongs_def by blast
  show "belongs L (st_opts s) (FullPath (st_opts s) h) c = full_for L h c" if "IsValidHash h"
    using inj(2,4,6) that unfolding belongs_def by metis
  show "belongs L (st_opts s) (st_DeltaPath (st_opts s) f t) c = delta_for L f t c"
    if "IsValidHash f" "IsValidHash t"
    using inj(3,5,6) that unfolding belongs_def by metis
qed

lemma hot_rule_cases:
  "IsValidHash f \<Longrightarrow> IsValidHash t \<Longrightarrow> hot_rule L (hotKeyDelta @ f @ ''_'' @ t) v = delta_for L f t v"
  "IsValidHash h \<Longrightarrow> hot_rule L (hotKeyBinary @ h) v = full_for L h v"
  by (auto simp: hot_rule_def hotKeyDelta_def hotKeyBinary_def IsValidHash_length)

lemma sha256HexBytes_valid: "lib_ok L \<Longrightarrow> IsValidHash (sha256HexBytes L b)"
  by (simp add: sha256HexBytes_def lib_ok_def IsValidHash_hex_encode)

lemma Stat_ensures: "ensures L (\<lambda>_. True) s (os_Stat p s)"
  by (rule ensures_reads) (rule os_reads(1))

lemma HasBinary_ensures: "ensures L (\<lambda>_. True) s (HasBinary h s)"
  unfolding HasBinary_def
  by (intro ensures_bind [OF miss_check_ensures])
    (auto split: bool.split sum.split intro!: ensures_bind [OF Stat_ensures] ensures_return miss_record_keeps)

lemma BinarySize_ensures: "ensures L (\<lambda>_. True) s (BinarySize h s)"
  unfolding BinarySize_def
  by (intro ensures_bind [OF Stat_ensures]) (auto split: sum.split intro!: ensures_stop)

definition digest_of :: "lib \<Rightarrow> bytes \<Rightarrow> string \<Rightarrow> bool" where
  "digest_of L b h \<longleftrightarrow> sha256HexBytes L b = h"

lemma LoadBinary_ensures:
  assumes "IsValidHash h"
  shows "ensures L (\<lambda>r. \<forall>b. r = Inr b \<longrightarrow> digest_of L b h) s (LoadBinary h s)"
proof (rule ensures_assume)
  assume ok: "store_ok L s"
  show ?thesis
    unfolding LoadBinary_def
    by (intro ensures_bind [OF ReadFile_ensures [OF path_cases(1) [OF assms]]])
      (auto split: sum.split intro!: ensures_stop simp: belongs_cases(1) [OF ok assms] digest_of_def)
qed

lemma can_diff_loop_ensures: "ensures L (\<lambda>_. True) s (can_diff_loop bs s)"
proof (induction bs arbitrary: s)
  case (Cons b bs)
  obtain role hash where b: "b = (role, hash)" by fastforce
  show ?case
    unfolding b can_diff_loop.simps
    by (intro ensures_bind [OF BinarySize_ensures]) (auto split: sum.split intro!: ensures_stop Cons.IH)
qed (simp add: ensures_stop)

lemma CanDiff_ensures: "ensures L (\<lambda>_. True) s (CanDiff f t s)"
  unfolding CanDiff_def
  by (auto split: bool.split intro!: ensures_stop ensures_bind [OF fileExists_ensures] can_diff_loop_ensures
      simp del: can_diff_loop.simps)

lemma loadTarget_ensures:
  assumes "IsValidHash h"
  shows "ensures L (\<lambda>r. \<forall>b. r = Inr b \<longrightarrow> digest_of L b h) s (loadTarget h s)"
proof (rule ensures_assume)
  assume ok: "store_ok L s"
  obtain r c where g: "b_Get h (targetCache s) = (r, c)" by fastforce
  have "bytes_lru.holds (target_rule L) (targetCache s)" using ok by (simp add: store_ok_def mem_ok_def)
  from bytes_lru.holds_get [OF this g] have
    c: "bytes_lru.holds (target_rule L) c" "\<forall>v. r = Some v \<longrightarrow> target_rule L h v" by auto
  have k: "keeps L s (s\<lparr>targetCache := c\<rparr>)"
    using c by (intro keeps_memory) (auto simp: same_disk_def mem_ok_def)
  have put: "keeps L s' (s'\<lparr>targetCache := snd (b_Put h v (targetCache s'))\<rparr>)" if "target_rule L h v"
    for s' :: "'a store_scheme" and v
    using bytes_lru.holds_insert [of "target_rule L" "targetCache s'" h v] that
    by (intro keeps_memory) (auto simp: same_disk_def mem_ok_def)
  have miss: "ensures L (\<lambda>r. \<forall>b. r = Inr b \<longrightarrow> digest_of L b h) s'
     (case LoadBinary h s' of (Inl e, s) \<Rightarrow> (Inl e, s)
      | (Inr data, s) \<Rightarrow> (Inr data, s\<lparr>targetCache := snd (b_Put h data (targetCache s))\<rparr>))"
    for s' :: "'a store_scheme"
    by (intro ensures_bind [OF LoadBinary_ensures [OF assms]])
      (auto split: sum.split intro!: ensures_return put simp: target_rule_def digest_of_def)
  let ?f = "(r, s\<lparr>targetCache := c\<rparr>)"
  have "ensures L (\<lambda>r. \<forall>v. r = Some v \<longrightarrow> digest_of L v h) s ?f"
    using c k assms by (intro ensures_return) (auto simp: target_rule_def digest_of_def)
  then have "ensures L (\<lambda>r. \<forall>b. r = Inr b \<longrightarrow> digest_of L b h) s
    (case ?f of (r, s) \<Rightarrow> (case r of Some d \<Rightarrow> (Inr d, s) | None \<Rightarrow>
      (case LoadBinary h s of (Inl e, s) \<Rightarrow> (Inl e, s)
      | (Inr data, s) \<Rightarrow> (Inr data, s\<lparr>targetCache := snd (b_Put h data (targetCache s))\<rparr>))))"
    by (rule ensures_bind) (auto split: option.split intro!: ensures_stop miss)
  with g show ?thesis by (auto simp: loadTarget_def split: option.splits)
qed

lemma delta_forI: "digest_of L a f \<Longrightarrow> digest_of L b t \<Longrightarrow> delta_Generate L a b = Inr d \<Longrightarrow> delta_for L f t d"
  by (auto simp: delta_for_def digest_of_def)

lemma generateAndCacheDelta_ensures:
  assumes "IsValidHash f" "IsValidHash t"
  shows "ensures L (\<lambda>_. True) s (generateAndCacheDelta L f t s)"
proof -
  have save: "ensures L (\<lambda>_. True) s'
      (case WriteFile (st_DeltaPath o1 f t) (Raw patch) 420 s' of
         (Some e, s) \<Rightarrow> (Inl (m e), s)
       | (None, s) \<Rightarrow> (Inr out, putHot (hotKeyDelta @ f @ ''_'' @ t) patch s))"
    if "delta_for L f t patch" "st_opts s' = o1" for patch out m o1 and s' :: "'a store_scheme"
    using belongs_cases(3) [OF _ assms] that(1) unfolding that(2) [symmetric]
    by (intro ensures_bind [OF WriteFile_ensures [OF path_cases(3) [OF assms]]])
      (auto split: option.split intro!: ensures_return putHot_keeps simp: hot_rule_cases(1) [OF assms, simplified])
  show ?thesis
    unfolding generateAndCacheDelta_def Let_def
    by (intro ensures_bind [OF fileExists_ensures])
      (auto split: bool.split sum.split intro!: ensures_stop ensures_bind [OF fileExists_ensures]
        ensures_bind [OF LoadBinary_ensures [OF assms(1)]] ensures_bind [OF loadTarget_ensures [OF assms(2)]]
        save delta_forI)
qed

lemma EnsureDelta_ensures:
  assumes "IsValidHash f" "IsValidHash t"
  shows "ensures L (\<lambda>_. True) s (EnsureDelta L c f t s)"
  unfolding EnsureDelta_def Let_def
  by (intro ensures_bind [OF fileExists_ensures])
    (auto split: bool.split option.split intro!: ensures_stop ensures_bind [OF CanDiff_ensures]
      generateAndCacheDelta_ensures assms)

lemma can_start_ensures: "ensures L (\<lambda>_. True) s (can_start f t s)"
  unfolding can_start_def
  by (intro ensures_bind [OF fileExists_ensures])
    (auto split: bool.split intro!: ensures_stop ensures_bind [OF HasBinary_ensures] HasBinary_ensures)

lemma StartDeltaGeneration_ensures:
  assumes "IsValidHash f" "IsValidHash t"
  shows "ensures L (\<lambda>_. True) s (StartDeltaGeneration f t s)"
proof -
  have k: "keeps L s' (s'\<lparr>generations := generations s' @ [(f, t)]\<rparr>)" for s' :: "'a store_scheme"
    using assms by (intro keeps_memory) (auto simp: same_disk_def mem_ok_def)
  show ?thesis
    unfolding StartDeltaGeneration_def
    by (intro ensures_bind [OF can_start_ensures])
      (auto split: bool.split intro!: ensures_stop ensures_bind [OF CanDiff_ensures] ensures_return k)
qed

lemma run_generation_keeps: "keeps L s (run_generation L i s)"
proof -
  have "store_ok L s \<Longrightarrow> keeps L s (run_generation L i s)"
  proof (cases "i < length (generations s)")
    case True
    assume ok: "store_ok L s"
    obtain f t where g: "generations s ! i = (f, t)" by fastforce
    let ?s = "s\<lparr>generations := take i (generations s) @ drop (Suc i) (generations s)\<rparr>"
    have "(f, t) \<in> set (generations s)" using True g by (metis nth_mem)
    then have v: "IsValidHash f" "IsValidHash t" using ok by (auto simp: store_ok_def mem_ok_def)
    have "keeps L s ?s"
      by (intro keeps_memory) (auto simp: same_disk_def mem_ok_def dest: in_set_takeD in_set_dropD)
    with ensures_keeps [OF generateAndCacheDelta_ensures [OF v]] True g show ?thesis
      by (auto simp: run_generation_def intro: keeps_trans)
  qed (simp add: run_generation_def)
  then show ?thesis by (auto simp: keeps_def)
qed

lemma run_generations_keeps: "keeps L s (run_generations L n s)"
  by (induction n arbitrary: s) (auto intro: keeps_trans [OF run_generation_keeps])

lemma Close_ensures: "ensures L (\<lambda>_. True) s (Close L d s)"
  by (simp add: Close_def Let_def ensures_return run_generations_keeps)

lemma read_cached_ensures:
  assumes p: "store_path (st_opts s) p" and k: "\<And>v. store_ok L s \<Longrightarrow> belongs L (st_opts s) p v \<Longrightarrow> hot_rule L key v"
  shows "ensures L (\<lambda>r. \<forall>v. r = Inr v \<longrightarrow> hot_rule L key v) s (read_cached key p s)"
proof (rule ensures_assume)
  assume "store_ok L s"
  note k = k [OF this]
  have r: "ensures L (\<lambda>r. \<forall>c. r = Inr c \<longrightarrow> belongs L (st_opts s) p (bytes_of c)) s' (os_ReadFile p s')"
    if "st_opts s' = st_opts s" for s' :: "'a store_scheme"
    using ReadFile_ensures [of s' p] p that by simp
  show ?thesis
    unfolding read_cached_def
    by (intro ensures_bind [OF hot_get_ensures])
      (auto split: option.split sum.split intro!: ensures_stop ensures_bind [OF r] ensures_return putHot_keeps simp: k)
qed

lemma getCached_ensures:
  assumes p: "store_path (st_opts s) p" and k: "\<And>v. store_ok L s \<Longrightarrow> belongs L (st_opts s) p v \<Longrightarrow> hot_rule L key v"
    and miss: "\<And>f s'. onMiss = Some f \<Longrightarrow> keeps L s' (f s')"
  shows "ensures L (\<lambda>r. \<forall>v. r = Inr (Some v) \<longrightarrow> hot_rule L key v) s (getCached key p onMiss s)"
proof (rule ensures_assume)
  assume "store_ok L s"
  note k = k [OF this]
  have r: "ensures L (\<lambda>r. \<forall>v. r = Inr v \<longrightarrow> hot_rule L key v) s' (read_cached key p s')"
    if "st_opts s' = st_opts s" for s' :: "'a store_scheme"
    using read_cached_ensures [of s' p L key] p k that by simp
  show ?thesis
    unfolding getCached_def
    by (intro ensures_bind [OF hot_get_ensures])
      (auto split: option.split bool.split sum.split intro!: ensures_stop ensures_bind [OF fileExists_ensures]
        ensures_bind [OF r] ensures_return miss)
qed

lemma GetDeltaBytes_ensures:
  assumes "IsValidHash f" "IsValidHash t"
  shows "ensures L (\<lambda>r. \<forall>v. r = Inr (Some v) \<longrightarrow> delta_for L f t v) s (GetDeltaBytes f t s)"
  unfolding GetDeltaBytes_def hot_rule_cases(1) [OF assms, symmetric]
  using belongs_cases(3) [OF _ assms] ensures_keeps [OF StartDeltaGeneration_ensures [OF assms]]
  by (intro getCached_ensures path_cases assms) (auto simp: hot_rule_cases(1) [OF assms, simplified])

lemma compress_binary_ensures:
  assumes "IsValidHash h"
  shows "ensures L (\<lambda>r. \<forall>v. r = Inr v \<longrightarrow> full_for L h v) s (compress_binary L c h s)"
proof -
  have save: "ensures L (\<lambda>r. \<forall>v. r = Inr v \<longrightarrow> full_for L h v) s'
      (case WriteFile (FullPath o1 h) (Raw z) 420 s' of
         (Some e, s) \<Rightarrow> (Inl (m e), s)
       | (None, s) \<Rightarrow> (Inr z, putHot (hotKeyBinary @ h) z s))"
    if "full_for L h z" "st_opts s' = o1" for z m o1 and s' :: "'a store_scheme"
    using belongs_cases(2) [OF _ assms] that(1) unfolding that(2) [symmetric]
    by (intro ensures_bind [OF WriteFile_ensures [OF path_cases(2) [OF assms]]])
      (auto split: option.split intro!: ensures_return putHot_keeps simp: hot_rule_cases(2) [OF assms])
  have full: "digest_of L b h \<Longrightarrow> CompressBytes L b = Inr z \<Longrightarrow> full_for L h z" for b z
    by (auto simp: full_for_def digest_of_def)
  show ?thesis
    unfolding compress_binary_def
    by (auto split: option.split sum.split intro!: ensures_stop ensures_bind [OF hot_get_ensures]
        ensures_bind [OF LoadBinary_ensures [OF assms]] save simp: hot_rule_cases(2) [OF assms])
      (rule full)
qed

lemma get_uncached_ensures:
  assumes "IsValidHash h"
  shows "ensures L (\<lambda>r. \<forall>v. r = Inr (Some v) \<longrightarrow> full_for L h v) s (get_uncached L c h s)"
  unfolding get_uncached_def
  by (intro ensures_bind [OF HasBinary_ensures])
    (auto split: bool.split sum.split intro!: ensures_stop ensures_bind [OF compress_binary_ensures [OF assms]])

lemma GetBinaryBytes_ensures:
  assumes "IsValidHash h"
  shows "ensures L (\<lambda>r. \<forall>v. r = Inr (Some v) \<longrightarrow> full_for L h v) s (GetBinaryBytes L c h s)"
proof (rule ensures_assume)
  assume ok: "store_ok L s"
  have g: "ensures L (\<lambda>r. \<forall>v. r = Inr (Some v) \<longrightarrow> full_for L h v) s'
      (getCached (hotKeyBinary @ h) (FullPath (st_opts s) h) None s')"
    if "st_opts s' = st_opts s" for s' :: "'a store_scheme"
    unfolding hot_rule_cases(2) [OF assms, symmetric] that [symmetric]
    using belongs_cases(2) [OF _ assms]
    by (intro getCached_ensures path_cases assms) (auto simp: hot_rule_cases(2) [OF assms])
  show ?thesis
    unfolding GetBinaryBytes_def Let_def
    by (intro ensures_bind [OF hot_get_ensures])
      (auto split: option.split bool.split sum.split
        intro!: ensures_stop ensures_bind [OF fileExists_ensures] ensures_bind [OF g]
          get_uncached_ensures assms simp: hot_rule_cases(2) [OF assms])
qed

lemma RegisterBinary_ensures:
  "ensures L (\<lambda>r. \<forall>h. r = Inr h \<longrightarrow> h = sha256HexBytes L data) s (RegisterBinary L data s)"
proof (rule ensures_assume)
  assume ok: "store_ok L s"
  note v = sha256HexBytes_valid [OF store_okD(3) [OF ok], of data]
  have w: "ensures L (\<lambda>_. True) s' (WriteFile (binaryPath (st_opts s) (sha256HexBytes L data)) (Raw data) 420 s')"
    if "st_opts s' = st_opts s" for s' :: "'a store_scheme"
    using belongs_cases(1) [OF _ v] that [symmetric] by (auto intro!: WriteFile_ensures path_cases v)
  show ?thesis
    unfolding RegisterBinary_def Let_def
    by (intro ensures_bind [OF Stat_ensures])
      (auto split: sum.split option.split intro!: ensures_return ensures_bind [OF w])
qed

lemma RegisterBinaryFile_ensures:
  "ensures L (\<lambda>r. \<forall>h n. r = Inr (h, n) \<longrightarrow> IsValidHash h \<and> 0 \<le> n) s (RegisterBinaryFile L p s)"
proof (rule ensures_assume)
  assume ok: "store_ok L s"
  note v = sha256HexBytes_valid [OF store_okD(3) [OF ok]]
  have r: "ensures L (\<lambda>_. True) s (os_ReadFile p s)" by (rule ensures_reads) (rule os_reads(3))
  show ?thesis
    unfolding RegisterBinaryFile_def Let_def
    by (intro ensures_bind [OF r])
      (auto split: sum.split intro!: ensures_stop ensures_bind [OF RegisterBinary_ensures] simp: v)
qed

section \<open>Runs of the store\<close>

text \<open>
  The steps of a process around the store: its operations on digests that passed validation, the
  goroutines it dispatched, a deletion by the sweeper, the passing of time. Every value of the state,
  the schedule of faults included, is arbitrary.
\<close>

inductive store_step :: "lib \<Rightarrow> 'z store_scheme \<Rightarrow> 'z store_scheme \<Rightarrow> bool" for L where
  register: "store_step L s (snd (RegisterBinary L data s))"
| register_file: "store_step L s (snd (RegisterBinaryFile L p s))"
| has: "store_step L s (snd (HasBinary h s))"
| can_diff: "store_step L s (snd (CanDiff f t s))"
| ensure: "IsValidHash f \<Longrightarrow> IsValidHash t \<Longrightarrow> store_step L s (snd (EnsureDelta L c f t s))"
| get_delta: "IsValidHash f \<Longrightarrow> IsValidHash t \<Longrightarrow> store_step L s (snd (GetDeltaBytes f t s))"
| get_binary: "IsValidHash h \<Longrightarrow> store_step L s (snd (GetBinaryBytes L c h s))"
| generation: "store_step L s (run_generation L i s)"
| remove: "store_path (st_opts s) p \<Longrightarrow> store_step L s (snd (os_Remove p s))"
| invalidate: "store_step L s (InvalidateHot s)"
| time: "store_step L s (s\<lparr>clock := clock s + d\<rparr>)"

inductive_cases store_stepE: "store_step L s s'"

abbreviation store_run :: "lib \<Rightarrow> 'z store_scheme \<Rightarrow> 'z store_scheme \<Rightarrow> bool" where
  "store_run L \<equiv> (store_step L)\<^sup>*\<^sup>*"

lemma Remove_keeps: "store_path (st_opts s) p \<Longrightarrow> keeps L s (snd (os_Remove p s))"
proof -
  assume p: "store_path (st_opts s) p"
  have "store_ok L s \<Longrightarrow> keeps L s (snd (os_Remove p s))"
  proof -
    assume ok: "store_ok L s"
    have "\<not> is_tmp p" using store_path_not_tmp store_okD(1,2) [OF ok] p by blast
    then have "None \<in> allowed L (st_opts s) p" using p by (simp add: allowed_def)
    obtain r s' where r: "os_Remove p s = (r, s')" by fastforce
    have "p \<in> tmps \<union> {q. store_path (st_opts s) q}" using p by simp
    from os_Remove_evolves [where W = "allowed L (st_opts s)", OF r this \<open>None \<in> allowed L (st_opts s) p\<close>] r
    show ?thesis by (simp add: keeps_disk)
  qed
  then show ?thesis by (auto simp: keeps_def)
qed

lemma time_store_ok: "store_ok L (s\<lparr>clock := t\<rparr>) = store_ok L s"
  by (simp add: store_ok_def disk_ok_def mem_ok_def snap_def)

lemma steps_keep:
  "keeps L s (snd (RegisterBinary L data s))" "keeps L s (snd (RegisterBinaryFile L p s))"
  "keeps L s (snd (HasBinary h s))" "keeps L s (snd (CanDiff f t s))"
  "IsValidHash f \<Longrightarrow> IsValidHash t \<Longrightarrow> keeps L s (snd (EnsureDelta L c f t s))"
  "IsValidHash f \<Longrightarrow> IsValidHash t \<Longrightarrow> keeps L s (snd (GetDeltaBytes f t s))"
  "IsValidHash h \<Longrightarrow> keeps L s (snd (GetBinaryBytes L c h s))"
  by (blast intro: ensures_keeps RegisterBinary_ensures RegisterBinaryFile_ensures HasBinary_ensures
      CanDiff_ensures EnsureDelta_ensures GetDeltaBytes_ensures GetBinaryBytes_ensures)+

text \<open>The promise, now and at every moment of the past.\<close>

definition store_good :: "lib \<Rightarrow> 'z store_scheme \<Rightarrow> bool" where
  "store_good L s \<longleftrightarrow>
     store_ok L s \<and>
     (\<forall>t \<in> set (hist s). \<forall>q. store_path (st_opts s) q \<longrightarrow> (\<forall>e \<in> crash_ents t q. ent_ok L (st_opts s) q e))"

lemma keeps_good:
  assumes "keeps L s s'" "store_good L s"
  shows "store_good L s'"
proof -
  have ok: "store_ok L s" "store_ok L s'" and st: "st_step L s s'"
    using assms by (auto simp: keeps_def store_good_def)
  have opts: "st_opts s' = st_opts s" using st by (simp add: st_step_def)
  obtain h where h: "hist s' = hist s @ h"
    "\<forall>t \<in> set h. \<forall>q. crash_ents t q \<subseteq> crash_ents (snap s) q \<union> allowed L (st_opts s) q"
    using st by (auto simp: st_step_def evolves_def)
  have "ent_ok L (st_opts s) q e" if "t \<in> set h" "store_path (st_opts s) q" "e \<in> crash_ents t q" for t q e
  proof -
    have "\<not> is_tmp q" using store_path_not_tmp store_okD(1,2) [OF ok(1)] that(2) by blast
    then have "allowed L (st_opts s) q = {e. ent_ok L (st_opts s) q e}" using that(2) by (simp add: allowed_def)
    then have "e \<in> crash_ents (snap s) q \<or> ent_ok L (st_opts s) q e"
      using h(2) that by blast
    then show ?thesis using ok(1) that(2) by (auto simp: store_ok_def disk_ok_def)
  qed
  with assms(2) ok(2) h(1) opts show ?thesis by (auto simp: store_good_def)
qed

lemma time_good: "store_good L (s\<lparr>clock := t\<rparr>) = store_good L s"
  by (simp add: store_good_def time_store_ok)

lemma store_step_good: "store_step L s s' \<Longrightarrow> store_good L s \<Longrightarrow> store_good L s'"
  by (induction rule: store_step.induct)
    (auto simp: time_good intro: keeps_good steps_keep run_generation_keeps Remove_keeps InvalidateHot_keeps)

lemma keeps_opts: "keeps L s s' \<Longrightarrow> store_good L s \<Longrightarrow> st_opts s' = st_opts s"
  by (simp add: keeps_def st_step_def store_good_def)

lemma store_step_opts: "store_step L s s' \<Longrightarrow> store_good L s \<Longrightarrow> st_opts s' = st_opts s"
  by (induction rule: store_step.induct)
    (auto intro: keeps_opts steps_keep run_generation_keeps Remove_keeps InvalidateHot_keeps)

lemma store_run_good: "store_run L s s' \<Longrightarrow> store_good L s \<Longrightarrow> store_good L s'"
  by (induction rule: rtranclp_induct) (auto intro: store_step_good)

section \<open>Open\<close>

text \<open>What \<open>Open\<close> does to the disk: directories appear, temporary files go.\<close>

lemma os_Mkdir_evolves:
  "os_Mkdir p w = (r, w') \<Longrightarrow> evolves UNIV (\<lambda>q. {Some EDir}) w w' \<and> same_rest w w'"
  by (auto simp: os_Mkdir_def syscall_def same_rest_def evolves_tick [symmetric, of _ _ w]
      intro: evolves_refl evolves_link_at split: option.splits if_splits)

lemma mkdir_all_evolves:
  "mkdir_all n p w = (r, w') \<Longrightarrow> evolves UNIV (\<lambda>q. {Some EDir}) w w' \<and> same_rest w w'"
proof (induction n arbitrary: p w r w')
  case (Suc n)
  let ?R = "\<lambda>w w'. evolves UNIV (\<lambda>q. {Some EDir}) w w' \<and> same_rest w w'"
  have trans: "?R w1 w2 \<Longrightarrow> ?R w2 w3 \<Longrightarrow> ?R w1 w3" for w1 w2 w3 :: "'a os_scheme"
    using evolves_step same_rest_trans by blast
  have reads: "same_disk w1 w2 \<and> same_rest w1 w2 \<Longrightarrow> ?R w1 w2" for w1 w2 :: "'a os_scheme"
    by (simp add: evolves_same)
  obtain r1 w1 where 1: "os_Stat p w = (r1, w1)" by fastforce
  obtain r2 w2 where 2: "(if path_dir p = p then (None, w1) else mkdir_all n (path_dir p) w1) = (r2, w2)" by fastforce
  obtain r3 w3 where 3: "os_Mkdir p w2 = (r3, w3)" by fastforce
  obtain r4 w4 where 4: "os_Lstat p w3 = (r4, w4)" by fastforce
  have R1: "?R w w1" by (rule reads [OF os_reads(1) [OF 1]])
  have "?R w1 w2" using 2 Suc.IH [of "path_dir p" w1 r2 w2] by (auto simp: evolves_refl split: if_splits)
  note R2 = trans [OF R1 this]
  note R3 = trans [OF R2 os_Mkdir_evolves [OF 3]]
  note R4 = trans [OF R3 reads [OF os_reads(2) [OF 4]]]
  have "w' \<in> {w1, w2, w3, w4}"
    using Suc.prems 1 2 3 4 by (auto split: sum.splits ent.splits option.splits if_splits)
  with R1 R2 R3 R4 show ?case by blast
qed (simp add: evolves_refl)

lemma path_base_no_slash: "has_prefix (path_base p) ''.tmp-'' \<Longrightarrow> path_seg (path_base p)"
proof -
  assume t: "has_prefix (path_base p) ''.tmp-''"
  define q where "q = rev (dropWhile (\<lambda>c. c = CHR ''/'') (rev p))"
  have "path_base p = last (split_on CHR ''/'' q)"
    using t by (auto simp: path_base_def q_def has_prefix_def Let_def split: if_splits)
  then have "CHR ''/'' \<notin> set (path_base p)"
    using split_on_elem [of "path_base p" "CHR ''/''" q] split_on_not_Nil [of "CHR ''/''" q] by (metis last_in_set)
  then show ?thesis using t by (auto simp: path_seg_def has_prefix_def)
qed

lemma sweep_entries_temp_only:
  "sweep_entries dir [''.tmp-''] c names a b w = (r, w') \<Longrightarrow> dir \<noteq> '''' \<Longrightarrow>
   \<forall>n \<in> set names. has_prefix n ''.tmp-'' \<longrightarrow> path_seg n \<Longrightarrow> temp_only w w'"
proof (induction names arbitrary: a b w)
  case (Cons n names)
  show ?case
  proof (cases "has_prefix n ''.tmp-''")
    case False
    then have "\<not> hasAnyPrefix n [''.tmp-'']" by (simp add: hasAnyPrefix_iff)
    with Cons show ?thesis by simp
  next
    case True
    then have h: "hasAnyPrefix n [''.tmp-'']" by (simp add: hasAnyPrefix_iff)
    let ?p = "path_join dir n"
    have tmp: "is_tmp ?p" using True Cons.prems(2,3) path_base_join [of dir n] by (simp add: is_tmp_def)
    obtain r1 w1 where 1: "os_Lstat ?p w = (r1, w1)" by fastforce
    obtain r2 w2 where 2: "os_Remove ?p w1 = (r2, w2)" by fastforce
    have t1: "temp_only w w1" by (rule reads_temp_only) (rule os_reads(2) [OF 1])
    have t2: "temp_only w w2" using temp_only_trans [OF t1 temp_calls(4) [OF tmp 2]] .
    obtain a' b' w3 where "sweep_entries dir [''.tmp-''] c names a' b' w3 = (r, w')" "w3 = w1 \<or> w3 = w2"
      using Cons.prems(1) h 1 2 by (auto simp: Let_def split: sum.splits option.splits if_splits)
    then have "temp_only w3 w'" "temp_only w w3" using Cons.IH [of a' b' w3] Cons.prems(2,3) t1 t2 by auto
    then show ?thesis using temp_only_trans by blast
  qed
qed simp

lemma SweepStaleTemp_temp_only:
  assumes "dir \<noteq> ''''"
  shows "temp_only w (snd (SweepStaleTemp dir [''.tmp-''] age w))"
proof -
  obtain r1 w1 where 1: "os_ReadDir dir w = (r1, w1)" by fastforce
  have t1: "temp_only w w1" by (rule reads_temp_only) (rule os_reads(5) [OF 1])
  show ?thesis
  proof (cases r1)
    case (Inr names)
    then have "\<forall>n \<in> set names. \<exists>p. n = path_base p"
      using 1 by (auto simp: os_ReadDir_def syscall_def children_def split: option.splits if_splits)
    then have seg: "\<forall>n \<in> set names. has_prefix n ''.tmp-'' \<longrightarrow> path_seg n" using path_base_no_slash by metis
    obtain r w' where "sweep_entries dir [''.tmp-''] (clock w1 - age) names 0 0 w1 = (r, w')" by fastforce
    with temp_only_trans [OF t1 sweep_entries_temp_only [OF this assms seg]] 1 Inr show ?thesis
      by (simp add: SweepStaleTemp_def)
  qed (use 1 t1 in \<open>simp add: SweepStaleTemp_def\<close>)
qed

text \<open>A disk that keeps the promise, whatever process runs on it.\<close>

definition disk_good :: "lib \<Rightarrow> store_options \<Rightarrow> 'z os_scheme \<Rightarrow> bool" where
  "disk_good L opts w \<longleftrightarrow>
     (\<forall>t \<in> set (snap w # hist w). \<forall>q. store_path opts q \<longrightarrow> (\<forall>e \<in> crash_ents t q. ent_ok L opts q e))"

lemma store_good_iff:
  "store_good L s \<longleftrightarrow> lib_ok L \<and> mem_ok L s \<and> disk_good L (st_opts s) s"
  by (auto simp: store_good_def store_ok_def disk_ok_def disk_good_def)

lemma disk_good_evolves:
  assumes "disk_good L opts w" "evolves P W w w'"
    and "\<And>q e. store_path opts q \<Longrightarrow> e \<in> W q \<Longrightarrow> ent_ok L opts q e"
  shows "disk_good L opts w'"
proof -
  obtain h where h: "hist w' = hist w @ h"
    "\<forall>t \<in> set (snap w' # h). \<forall>q. crash_ents t q \<subseteq> crash_ents (snap w) q \<union> W q"
    using assms(2) by (auto simp: evolves_def)
  have "ent_ok L opts q e" if "t \<in> set (snap w' # h)" "store_path opts q" "e \<in> crash_ents t q" for t q e
  proof -
    have "e \<in> crash_ents (snap w) q \<or> e \<in> W q" using h(2) that by blast
    then show ?thesis using assms(1,3) that(2) by (auto simp: disk_good_def)
  qed
  moreover have "ent_ok L opts q e" if "t \<in> set (hist w)" "store_path opts q" "e \<in> crash_ents t q" for t q e
    using assms(1) that by (auto simp: disk_good_def)
  moreover have "t \<in> set (snap w' # h) \<or> t \<in> set (hist w)" if "t \<in> set (snap w' # hist w @ h)" for t
    using that by auto
  ultimately show ?thesis unfolding disk_good_def h(1) by blast
qed

lemma os_MkdirAll_good:
  "os_MkdirAll p w = (r, w') \<Longrightarrow> disk_good L opts w \<Longrightarrow> disk_good L opts w'"
  using mkdir_all_evolves [of "Suc (length p)" "path_clean p" w r w'] disk_good_evolves
  by (fastforce simp: os_MkdirAll_def)

lemma temp_only_good:
  assumes "temp_only w w'" "disk_good L opts w" "so_BinariesDir opts \<noteq> ''''" "so_DeltasDir opts \<noteq> ''''"
  shows "disk_good L opts w'"
proof (rule disk_good_evolves [OF assms(2) conjunct1 [OF assms(1)]])
  fix q e assume q: "store_path opts q" "e \<in> only_at [] {} q"
  have "\<not> is_tmp q" using store_path_not_tmp assms(3,4) q(1) by blast
  with q show "ent_ok L opts q e" by (simp add: only_at_def split: if_splits)
qed

lemma store_defaults_dirs [simp]:
  "so_BinariesDir (store_defaults o1) = so_BinariesDir o1" "so_DeltasDir (store_defaults o1) = so_DeltasDir o1"
  by (simp_all add: store_defaults_def Let_def)

lemma store_path_defaults [simp]: "store_path (store_defaults o1) = store_path o1"
  by (simp add: store_path_def binaryPath_def FullPath_def st_DeltaPath_def fun_eq_iff)

lemma ent_ok_defaults [simp]: "ent_ok L (store_defaults o1) q e = ent_ok L o1 q e"
  by (cases "(L, o1, q, e)" rule: ent_ok.cases)
    (auto simp: belongs_def binaryPath_def FullPath_def st_DeltaPath_def)

lemma disk_good_defaults [simp]: "disk_good L (store_defaults o1) w = disk_good L o1 w"
  by (simp add: disk_good_def)

lemma Open_good:
  assumes "lib_ok L" "disk_good L opts s" "Open statfs opts s = (Inr ws, s')"
  shows "store_good L s' \<and> st_opts s' = store_defaults opts"
proof -
  have ne: "so_BinariesDir opts \<noteq> ''''" "so_DeltasDir opts \<noteq> ''''"
    using assms(3) by (auto simp: Open_def split: if_splits)
  obtain s1 s2 where 1: "os_MkdirAll (so_BinariesDir opts) s = (None, s1)"
    and 2: "os_MkdirAll (so_DeltasDir opts) s1 = (None, s2)"
    using assms(3) ne by (auto simp: Open_def Let_def split: prod.splits option.splits)
  let ?o = "store_defaults opts"
  define s3 where "s3 = s2\<lparr>st_opts := ?o, hotCache := newByteBudgetLRU (so_HotDeltaCacheBytes ?o),
                     targetCache := newByteBudgetLRU (so_TargetCacheBytes ?o), missCache := [], generations := []\<rparr>"
  define s4 where "s4 = snd (SweepStaleTemp (so_BinariesDir opts) [''.tmp-''] (24 * 3600 * 1000000000) s3)"
  have s': "s' = snd (SweepStaleTemp (so_DeltasDir opts) [''.tmp-''] (24 * 3600 * 1000000000) s4)"
    using assms(3) ne 1 2 by (simp add: Open_def Let_def s3_def s4_def)
  have t: "temp_only s3 s'"
    unfolding s' s4_def using SweepStaleTemp_temp_only ne temp_only_trans by blast
  have "disk_good L opts s2" using os_MkdirAll_good 1 2 assms(2) by blast
  then have "disk_good L opts s3" by (simp add: disk_good_def s3_def snap_def)
  then have good: "disk_good L opts s'" using temp_only_good [OF t _ ne] by blast
  have more: "os.more s' = os.more s3" using t by (simp add: same_rest_def)
  have o: "st_opts s' = ?o" using more_fields [OF more] by (simp add: s3_def)
  have "bytes_lru.holds P (newByteBudgetLRU n)" for P n
    using newByteBudgetLRU_inv by (simp add: bytes_lru.holds_def) (simp add: newByteBudgetLRU_def)
  then have "mem_ok L s3" using ne by (simp add: mem_ok_def s3_def hasBinaryMissCap_def)
  then have "mem_ok L s'" using mem_ok_more [OF more] by simp
  with good o assms(1) show ?thesis by (simp add: store_good_iff)
qed

section \<open>Properties\<close>

text \<open>A server that starts on two empty directories.\<close>

definition sample_store_options :: store_options where
  "sample_store_options =
     \<lparr>so_BinariesDir = ''/b'', so_DeltasDir = ''/d'', so_TargetCacheBytes = 100, so_HotDeltaCacheBytes = 100,
      so_DeltaConcurrency = 1, so_DeltaMaxSourceBytes = 0, so_DiskSpaceMinFreePct = 0, so_DiskSpaceMinFreeMB = 0\<rparr>"

definition sample_process :: store where
  "sample_process =
     \<lparr>files = [(''/'', EDir), (''/b'', EDir), (''/d'', EDir)], undo = [], faults = [], clock = 100,
      rand = [7, 8, 9, 10], hist = [], st_opts = sample_store_options, hotCache = newByteBudgetLRU 1,
      targetCache = newByteBudgetLRU 1, missCache = [], generations = []\<rparr>"

definition no_statfs :: "string \<Rightarrow> err + statfs" where
  "no_statfs p = Inl EINVAL"

definition sample_server :: store where
  "sample_server = snd (Open no_statfs sample_store_options sample_process)"

lemma store_path_long:
  "so_BinariesDir o1 \<noteq> '''' \<Longrightarrow> so_DeltasDir o1 \<noteq> '''' \<Longrightarrow> store_path o1 q \<Longrightarrow> 64 < length (path_base q)"
  using store_path_base [of o1] by (auto simp: store_path_def IsValidHash_length)

lemma sample_process_good: "disk_good L sample_store_options sample_process"
proof -
  have "map_of (files sample_process) q = None" if "store_path sample_store_options q" for q
  proof -
    have "64 < length (path_base q)"
      by (rule store_path_long [OF _ _ that]) (simp_all add: sample_store_options_def)
    moreover have "length (path_base ''/'') \<le> 64" "length (path_base ''/b'') \<le> 64" "length (path_base ''/d'') \<le> 64"
      by code_simp+
    ultimately have "q \<noteq> ''/''" "q \<noteq> ''/b''" "q \<noteq> ''/d''" by auto
    then show ?thesis by (simp add: sample_process_def)
  qed
  then show ?thesis by (simp add: disk_good_def crash_ents_def snap_def) (simp add: sample_process_def)
qed

lemma sample_server_open: "Open no_statfs sample_store_options sample_process = (Inr [None, None], sample_server)"
proof -
  have "fst (Open no_statfs sample_store_options sample_process) = Inr [None, None]" by code_simp
  then show ?thesis by (simp add: sample_server_def prod_eq_iff)
qed

text \<open>C15. The store is content-addressed at every moment: from \<open>Open\<close> on a good disk, through any
  sequence of operations, goroutines, deletions and failing system calls, each entry that a loss of power
  at any moment can leave at \<open><hash>.bin\<close>, \<open><hash>.full.zst\<close> or \<open><from>_<to>.delta.zst\<close> is a complete file
  with that digest, made from binaries with those digests; and the caches respect their bounds.\<close>

theorem store_content_addressed:
  assumes "lib_ok L" "disk_good L opts w" "Open statfs opts w = (Inr ws, s)" "store_run L s s'"
  shows "(\<forall>t \<in> set (snap s' # hist s'). \<forall>q. store_path opts q \<longrightarrow> (\<forall>e \<in> crash_ents t q. ent_ok L opts q e)) \<and>
    length (missCache s') \<le> hasBinaryMissCap \<and> b_Bytes (hotCache s') \<le> b_MaxValueBytes (hotCache s') \<and>
    b_Bytes (targetCache s') \<le> b_MaxValueBytes (targetCache s')"
proof -
  have s: "store_good L s" "st_opts s = store_defaults opts" using Open_good [OF assms(1-3)] by auto
  have "st_opts s' = st_opts s"
    using assms(4) s(1) by (induction rule: rtranclp_induct) (auto dest: store_step_opts store_run_good)
  moreover have "store_good L s'" by (rule store_run_good [OF assms(4) s(1)])
  ultimately show ?thesis
    using s(2) bytes_lru.bounded by (auto simp: store_good_iff mem_ok_def bytes_lru.holds_def disk_good_def)
qed

theorem store_content_addressed_witness:
  "let s = snd (RegisterBinary sample_lib ''new'' sample_server); p = binaryPath sample_store_options (sha256HexBytes sample_lib ''new'')
   in store_run sample_lib sample_server s \<and> map_of (files s) p = Some (EFile (Raw ''new'') 420 100 True) \<and>
     (\<forall>e \<in> crash_ents (snap s) p. ent_ok sample_lib sample_store_options p e)"
proof -
  let ?s = "snd (RegisterBinary sample_lib ''new'' sample_server)"
  let ?h = "sha256HexBytes sample_lib ''new''"
  have run: "store_run sample_lib sample_server ?s" by (blast intro: store_step.register)
  have stored: "map_of (files ?s) (binaryPath sample_store_options ?h) = Some (EFile (Raw ''new'') 420 100 True)"
    by code_simp
  have "store_path sample_store_options (binaryPath sample_store_options ?h)"
    by (rule path_cases) (rule sha256HexBytes_valid [OF sample_lib_ok])
  with store_content_addressed [OF sample_lib_ok sample_process_good sample_server_open run] run stored
  show ?thesis by (simp add: Let_def)
qed

lemma delta_for_applies:
  "lib_ok L \<Longrightarrow> delta_for L f t d \<Longrightarrow> \<exists>a b. sha256HexBytes L a = f \<and> sha256HexBytes L b = t \<and> delta_Apply L a d = Inr b"
  using generate_apply unfolding delta_for_def by blast

lemma full_for_decompresses:
  "lib_ok L \<Longrightarrow> full_for L h z \<Longrightarrow> \<exists>b. sha256HexBytes L b = h \<and> DecompressBytes L z = Inr b"
  using compress_decompress unfolding full_for_def by blast

text \<open>C8. What the store serves is what the device needs: in any store that was reached from a good disk, a
  delta served for two digests, applied to a binary with the first, gives a binary with the second, and
  the bytes served for a whole binary decompress to a binary with its digest.\<close>

theorem served_transfers_correct:
  assumes "lib_ok L" "disk_good L opts w" "Open statfs opts w = (Inr ws, s)" "store_run L s s1"
    and "IsValidHash f" "IsValidHash t"
    and "GetDeltaBytes f t s1 = (r, s2)" "GetBinaryBytes L c t s2 = (r', s3)"
  shows "(\<forall>d. r = Inr (Some d) \<longrightarrow>
      (\<exists>a b. sha256HexBytes L a = f \<and> sha256HexBytes L b = t \<and> delta_Apply L a d = Inr b)) \<and>
    (\<forall>z. r' = Inr (Some z) \<longrightarrow> (\<exists>b. sha256HexBytes L b = t \<and> DecompressBytes L z = Inr b))"
proof -
  have "store_good L s1" using store_run_good [OF assms(4)] Open_good [OF assms(1-3)] by blast
  then have ok: "store_ok L s1" by (simp add: store_good_def)
  then have d: "\<forall>d. r = Inr (Some d) \<longrightarrow> delta_for L f t d" and ok2: "store_ok L s2"
    using GetDeltaBytes_ensures [OF assms(5,6), of L s1] unfolding ensures_def assms(7) fst_conv snd_conv by blast+
  have "\<forall>z. r' = Inr (Some z) \<longrightarrow> full_for L t z"
    using GetBinaryBytes_ensures [OF assms(6), of L s2 c] ok2 unfolding ensures_def assms(8) fst_conv by blast
  with d show ?thesis using delta_for_applies [OF assms(1)] full_for_decompresses [OF assms(1)] by simp
qed

text \<open>Two binaries are uploaded, the delta is asked for, its generation runs, and it is asked for again.\<close>

definition sample_uploaded :: store where
  "sample_uploaded = snd (RegisterBinary sample_lib ''new'' (snd (RegisterBinary sample_lib ''old'' sample_server)))"

definition sample_asked :: store where
  "sample_asked = snd (GetDeltaBytes (sha256HexBytes sample_lib ''old'') (sha256HexBytes sample_lib ''new'') sample_uploaded)"

definition sample_generated :: store where
  "sample_generated = run_generation sample_lib 0 sample_asked"

lemma sample_hash: "IsValidHash (sha256HexBytes sample_lib b)"
  by (rule sha256HexBytes_valid [OF sample_lib_ok])

lemma sample_store_run: "store_run sample_lib sample_server sample_generated"
proof -
  have "store_step sample_lib sample_server (snd (RegisterBinary sample_lib ''old'' sample_server))"
    by (rule store_step.register)
  moreover have "store_step sample_lib (snd (RegisterBinary sample_lib ''old'' sample_server)) sample_uploaded"
    unfolding sample_uploaded_def by (rule store_step.register)
  moreover have "store_step sample_lib sample_uploaded sample_asked"
    unfolding sample_asked_def by (rule store_step.get_delta [OF sample_hash sample_hash])
  moreover have "store_step sample_lib sample_asked sample_generated"
    unfolding sample_generated_def by (rule store_step.generation)
  ultimately show ?thesis by (meson rtranclp.rtrancl_refl rtranclp.rtrancl_into_rtrancl)
qed

theorem served_transfers_correct_witness:
  "let f = sha256HexBytes sample_lib ''old''; t = sha256HexBytes sample_lib ''new''
   in fst (GetDeltaBytes f t sample_uploaded) = Inr None \<and> generations sample_asked = [(f, t)] \<and>
      fst (GetDeltaBytes f t sample_generated) = Inr (Some ''znew'') \<and>
      (\<exists>a b. sha256HexBytes sample_lib a = f \<and> sha256HexBytes sample_lib b = t \<and>
             delta_Apply sample_lib a ''znew'' = Inr b)"
proof -
  let ?f = "sha256HexBytes sample_lib ''old''"
  let ?t = "sha256HexBytes sample_lib ''new''"
  obtain s2 where 1: "GetDeltaBytes ?f ?t sample_generated = (Inr (Some ''znew''), s2)"
  proof -
    have "fst (GetDeltaBytes ?f ?t sample_generated) = Inr (Some ''znew'')" by code_simp
    then show ?thesis using that by (metis prod.collapse)
  qed
  obtain r' s3 where 2: "GetBinaryBytes sample_lib None ?t s2 = (r', s3)" by fastforce
  have "fst (GetDeltaBytes ?f ?t sample_uploaded) = Inr None" "generations sample_asked = [(?f, ?t)]"
    by code_simp+
  with served_transfers_correct [OF sample_lib_ok sample_process_good sample_server_open sample_store_run
      sample_hash sample_hash 1 2] 1
  show ?thesis by (simp add: Let_def)
qed


lemma RegisterBinary_visible:
  assumes "lib_ok L" "so_BinariesDir (st_opts s) \<noteq> ''''" "so_DeltasDir (st_opts s) \<noteq> ''''"
    and "RegisterBinary L data s = (Inr h, s')" "faults s' = []"
  shows "h = sha256HexBytes L data" "missCache s' = []" "st_opts s' = st_opts s" "rand s' = rand s'"
    "\<exists>x. follow 40 (files s') (binaryPath (st_opts s') h) = Inr x"
proof -
  let ?p = "binaryPath (st_opts s) (sha256HexBytes L data)"
  have p: "\<not> is_tmp ?p"
    using store_path_not_tmp [OF assms(2,3) path_cases(1)] sha256HexBytes_valid [OF assms(1)] by blast
  obtain r1 s1 where 1: "os_Stat ?p s = (r1, s1)" by fastforce
  have s1: "st_opts s1 = st_opts s" "files s1 = files s"
    using os_reads(1) [OF 1] more_fields [of s1 s] by (auto simp: same_rest_def same_disk_def)
  have "h = sha256HexBytes L data \<and> missCache s' = [] \<and> st_opts s' = st_opts s \<and>
    (\<exists>x. follow 40 (files s') (binaryPath (st_opts s') h) = Inr x)"
  proof (cases r1)
    case (Inr x)
    then have "\<exists>y. follow 40 (files s) ?p = Inr y"
      using 1 by (cases "follow 40 (files s) ?p") (auto simp: os_Stat_def syscall_def split: option.splits)
    with assms(4) 1 Inr s1 show ?thesis by (auto simp: RegisterBinary_def Let_def invalidateMissCache_def)
  next
    case (Inl e)
    obtain r2 s2 where 2: "WriteFile ?p (Raw data) 420 s1 = (r2, s2)" by fastforce
    note a = WriteFile_atomic [OF 2 p]
    have "st_opts s2 = st_opts s1" using a more_fields [of s2 s1] by (auto simp: atomic_write_def same_rest_def)
    moreover have r2: "r2 = None" using assms(4) 1 Inl 2 by (auto simp: RegisterBinary_def Let_def split: option.splits)
    ultimately show ?thesis using assms(4) 1 Inl 2 s1 a
      by (auto simp: RegisterBinary_def Let_def invalidateMissCache_def atomic_write_def)
  qed
  then show "h = sha256HexBytes L data" "missCache s' = []" "st_opts s' = st_opts s" "rand s' = rand s'"
    "\<exists>x. follow 40 (files s') (binaryPath (st_opts s') h) = Inr x" by auto
qed

lemma HasBinary_stat:
  assumes "faults s = []" "follow 40 (files s) (binaryPath (st_opts s) h) = Inr x"
    and "\<forall>d. map_of (missCache s) h = Some d \<longrightarrow> d \<le> clock s"
  shows "fst (HasBinary h s)"
  using assms
  by (auto simp: HasBinary_def miss_check_def os_Stat_def not_less tick_def fault_def syscall_def split: option.splits)

text \<open>C36. A registered binary is visible at once, whatever the negative cache held; unless a lookup had let
  go of the lock with a miss before and records it after: then the binary stays hidden for the thirty
  seconds of the negative cache, and is visible again when they are over.\<close>

theorem registered_binary_visible:
  assumes "lib_ok L" "so_BinariesDir (st_opts s) \<noteq> ''''" "so_DeltasDir (st_opts s) \<noteq> ''''"
    and "miss_check (sha256HexBytes L data) s = (False, s1)"
    and "os_Stat (binaryPath (st_opts s1) (sha256HexBytes L data)) s1 = (Inl e, s2)"
    and "RegisterBinary L data s2 = (Inr h, s3)" "faults s3 = []"
  shows "fst (HasBinary h s3) \<and>
    (0 \<le> d \<longrightarrow> fst (HasBinary h ((miss_record h s3)\<lparr>clock := clock s3 + d\<rparr>)) = (hasBinaryMissTTL \<le> d))"
proof -
  have m: "st_opts s1 = st_opts s"
    using assms(4) by (auto simp: miss_check_def split: option.splits if_splits)
  have "st_opts s2 = st_opts s"
    using os_reads(1) [OF assms(5)] more_fields [of s2 s1] m by (auto simp: same_rest_def)
  with assms(2,3) have d: "so_BinariesDir (st_opts s2) \<noteq> ''''" "so_DeltasDir (st_opts s2) \<noteq> ''''" by auto
  note v = RegisterBinary_visible [OF assms(1) d assms(6,7)]
  then obtain x where x: "follow 40 (files s3) (binaryPath (st_opts s3) h) = Inr x" by blast
  let ?r = "(miss_record h s3)\<lparr>clock := clock s3 + d\<rparr>"
  have r: "faults ?r = []" "files ?r = files s3" "st_opts ?r = st_opts s3"
    "map_of (missCache ?r) h = Some (clock s3 + hasBinaryMissTTL)" "clock ?r = clock s3 + d"
    using assms(7) by (simp_all add: miss_record_def Let_def)
  have "fst (HasBinary h ?r)" if "hasBinaryMissTTL \<le> d"
    using HasBinary_stat [OF r(1), of h x] r x that by simp
  moreover have "\<not> fst (HasBinary h ?r)" if "\<not> hasBinaryMissTTL \<le> d"
    using r that by (simp add: HasBinary_def miss_check_def)
  moreover have "fst (HasBinary h s3)" by (rule HasBinary_stat [OF assms(7) x]) (simp add: v(2))
  ultimately show ?thesis by blast
qed

theorem registered_binary_visible_witness:
  "let h = sha256HexBytes sample_lib ''new''; s1 = snd (miss_check h sample_server);
       s2 = snd (os_Stat (binaryPath (st_opts s1) h) s1);
       s3 = snd (RegisterBinary sample_lib ''new'' s2)
   in fst (HasBinary h s3) \<and> \<not> fst (HasBinary h ((miss_record h s3)\<lparr>clock := clock s3 + 29\<rparr>))"
proof -
  let ?h = "sha256HexBytes sample_lib ''new''"
  let ?s1 = "snd (miss_check ?h sample_server)"
  let ?s2 = "snd (os_Stat (binaryPath (st_opts ?s1) ?h) ?s1)"
  let ?s3 = "snd (RegisterBinary sample_lib ''new'' ?s2)"
  have a: "miss_check ?h sample_server = (False, ?s1)"
    "os_Stat (binaryPath (st_opts ?s1) ?h) ?s1 = (Inl ENOENT, ?s2)"
    "RegisterBinary sample_lib ''new'' ?s2 = (Inr ?h, ?s3)"
  proof -
    have "fst (miss_check ?h sample_server) = False" "fst (os_Stat (binaryPath (st_opts ?s1) ?h) ?s1) = Inl ENOENT"
      "fst (RegisterBinary sample_lib ''new'' ?s2) = Inr ?h" by code_simp+
    then show "miss_check ?h sample_server = (False, ?s1)"
      "os_Stat (binaryPath (st_opts ?s1) ?h) ?s1 = (Inl ENOENT, ?s2)"
      "RegisterBinary sample_lib ''new'' ?s2 = (Inr ?h, ?s3)" by (simp_all add: prod_eq_iff)
  qed
  have "so_BinariesDir (st_opts sample_server) \<noteq> ''''" "so_DeltasDir (st_opts sample_server) \<noteq> ''''"
    "faults ?s3 = []" by code_simp+
  from registered_binary_visible [OF sample_lib_ok this(1,2) a this(3), of 29]
  show ?thesis by (simp add: Let_def hasBinaryMissTTL_def)
qed

end
