(* ===== verification/GoTime.thy ===== *)
theory GoTime
  imports GoJson
begin

text \<open>
  \<open>time.Time\<close> in UTC as \<open>encoding/json\<close> writes and reads it: the layout of RFC 3339 with the fraction of
  the second cut of its trailing zeros. A time is a number of nanoseconds since the Unix epoch; the
  zero \<open>Time\<close> is the first instant of the year 1.
\<close>

section \<open>Calendar\<close>

definition leap :: "nat \<Rightarrow> bool" where
  "leap y \<longleftrightarrow> y mod 4 = 0 \<and> (y mod 100 \<noteq> 0 \<or> y mod 400 = 0)"

definition year_len :: "nat \<Rightarrow> nat" where
  "year_len y = (if leap y then 366 else 365)"

definition month_lens :: "nat \<Rightarrow> nat list" where
  "month_lens y = [31, if leap y then 29 else 28, 31, 30, 31, 30, 31, 31, 30, 31, 30, 31]"

text \<open>The year a day falls in, counting from a first year on, and the day in it.\<close>

function year_of :: "nat \<Rightarrow> nat \<Rightarrow> nat \<times> nat" where
  "year_of y d = (if d < year_len y then (y, d) else year_of (Suc y) (d - year_len y))"
  by auto
termination
  by (relation "measure snd") (auto simp: year_len_def split: if_splits)

declare year_of.simps [simp del]

fun days_from :: "nat \<Rightarrow> nat \<Rightarrow> nat" where
  "days_from y 0 = 0"
| "days_from y (Suc n) = year_len y + days_from (Suc y) n"

fun month_of :: "nat list \<Rightarrow> nat \<Rightarrow> nat \<times> nat" where
  "month_of [] d = (0, d)"
| "month_of (l # ls) d = (if d < l then (0, d) else (case month_of ls (d - l) of (m, e) \<Rightarrow> (Suc m, e)))"

text \<open>The calendar repeats every 400 years; the count starts at the last year 400 n + 1.\<close>

definition civil :: "nat \<Rightarrow> nat \<times> nat \<times> nat" where
  "civil d =
     (let (y, r) = year_of (400 * (d div 146097) + 1) (d mod 146097); (m, e) = month_of (month_lens y) r
      in (y, m + 1, e + 1))"

definition days_of :: "nat \<Rightarrow> nat \<Rightarrow> nat \<Rightarrow> nat" where
  "days_of y m d =
     146097 * ((y - 1) div 400) + days_from (400 * ((y - 1) div 400) + 1) ((y - 1) mod 400) +
     sum_list (take (m - 1) (month_lens y)) + (d - 1)"

lemma year_of_spec:
  "year_of y d = (y', r) \<Longrightarrow> y \<le> y' \<and> r < year_len y' \<and> d = days_from y (y' - y) + r"
proof (induction y d rule: year_of.induct)
  case (1 y d)
  show ?case
  proof (cases "d < year_len y")
    case True
    with 1(2) show ?thesis by (simp add: year_of.simps [of y])
  next
    case False
    with 1(2) have "year_of (Suc y) (d - year_len y) = (y', r)" by (simp add: year_of.simps [of y])
    with 1(1) [OF False] have "Suc y \<le> y'" "r < year_len y'" "d - year_len y = days_from (Suc y) (y' - Suc y) + r"
      by auto
    moreover from this have "y' - y = Suc (y' - Suc y)" by simp
    ultimately show ?thesis using False by simp
  qed
qed

lemma days_from_mono: "n \<le> k \<Longrightarrow> days_from y n \<le> days_from y k"
proof (induction n arbitrary: y k)
  case (Suc n)
  then show ?case by (cases k) auto
qed simp

lemma days_from_add: "days_from y (n + k) = days_from y n + days_from (y + n) k"
  by (induction n arbitrary: y) auto

lemma leap_shift: "leap (400 * e + y) = leap y"
proof -
  have "(y + 400 * e) mod 400 = y mod 400" "(y + 4 * (100 * e)) mod 4 = y mod 4"
    "(y + 100 * (4 * e)) mod 100 = y mod 100"
    by (simp_all only: mod_mult_self2)
  moreover have "400 * e + y = y + 400 * e" "y + 4 * (100 * e) = y + 400 * e" "y + 100 * (4 * e) = y + 400 * e"
    by simp_all
  ultimately show ?thesis unfolding leap_def by (simp only:)
qed

lemma days_from_shift: "days_from (400 * e + y) n = days_from y n"
proof (induction n arbitrary: y)
  case (Suc n)
  have "days_from (Suc (400 * e + y)) n = days_from (Suc y) n" using Suc [of "Suc y"] by simp
  then show ?case by (simp add: year_len_def leap_shift)
qed simp

lemma days_era: "days_from 1 400 = 146097"
  by code_simp

lemma month_of_spec:
  "month_of ls d = (m, e) \<Longrightarrow> d < sum_list ls \<Longrightarrow> m < length ls \<and> e < ls ! m \<and> d = sum_list (take m ls) + e"
proof (induction ls arbitrary: d m)
  case (Cons l ls)
  show ?case
  proof (cases "d < l")
    case True
    with Cons show ?thesis by auto
  next
    case False
    obtain m' where m: "month_of ls (d - l) = (m', e)" "m = Suc m'" using Cons.prems(1) False by (auto split: prod.splits)
    moreover have "d - l < sum_list ls" using Cons.prems(2) False by auto
    ultimately show ?thesis using Cons.IH [OF m(1)] False by auto
  qed
qed simp

lemma month_lens_sum: "sum_list (month_lens y) = year_len y"
  by (simp add: month_lens_def year_len_def)

lemma civil_spec:
  assumes "civil d = (y, m, e)"
  shows "days_of y m e = d" "1 \<le> y" "m \<in> {1..12}" "e \<in> {1..31}" "e \<le> month_lens y ! (m - 1)"
proof -
  let ?c = "d div 146097"
  obtain r where y: "year_of (400 * ?c + 1) (d mod 146097) = (y, r)"
    using assms by (auto simp: civil_def split: prod.splits)
  obtain m' e' where me: "month_of (month_lens y) r = (m', e')" by fastforce
  with assms y have m: "m = m' + 1" "e = e' + 1" by (auto simp: civil_def)
  from year_of_spec [OF y] have s: "400 * ?c + 1 \<le> y" "r < year_len y"
    "d mod 146097 = days_from (400 * ?c + 1) (y - (400 * ?c + 1)) + r" by auto
  define k where "k = y - (400 * ?c + 1)"
  have k: "y = 400 * ?c + 1 + k" using s(1) by (simp add: k_def)
  have "k < 400"
  proof (rule ccontr)
    assume "\<not> k < 400"
    then have "days_from (400 * ?c + 1) 400 \<le> days_from (400 * ?c + 1) k" by (intro days_from_mono) simp
    then have "146097 \<le> d mod 146097" using s(3) days_era days_from_shift [of ?c 1 400] by (simp add: k_def)
    moreover have "d mod 146097 < 146097" by simp
    ultimately show False by linarith
  qed
  then have q: "(y - 1) div 400 = ?c" "(y - 1) mod 400 = k" using k by simp_all
  from month_of_spec [OF me] s(2) have mo: "m' < 12" "e' < month_lens y ! m'" "r = sum_list (take m' (month_lens y)) + e'"
    by (simp_all add: month_lens_sum) (simp_all add: month_lens_def)
  have "\<forall>l \<in> set (month_lens y). l \<le> 31" by (simp add: month_lens_def)
  moreover have "month_lens y ! m' \<in> set (month_lens y)"
    using mo(1) by (intro nth_mem) (simp add: month_lens_def)
  ultimately have e: "e' < 31" using mo(2) by (meson less_le_trans)
  have "days_of y m e = 146097 * ?c + (days_from (400 * ?c + 1) k + (sum_list (take m' (month_lens y)) + e'))"
    unfolding days_of_def q m by simp
  also have "\<dots> = 146097 * ?c + d mod 146097" using s(3) mo(3) by (simp add: k_def)
  finally show "days_of y m e = d" by simp
  show "1 \<le> y" using k by linarith
  show "e \<le> month_lens y ! (m - 1)" using m mo(2) by simp
  show "m \<in> {1..12}" "e \<in> {1..31}" using m mo(1) e by auto
qed

section \<open>RFC 3339\<close>

fun pad :: "nat \<Rightarrow> nat \<Rightarrow> string" where
  "pad 0 n = []"
| "pad (Suc k) n = pad k (n div 10) @ [char_of (48 + n mod 10)]"

fun parse_digits :: "nat \<Rightarrow> string \<Rightarrow> nat option" where
  "parse_digits acc [] = Some acc"
| "parse_digits acc (c # s) = (if is_digit c then parse_digits (10 * acc + (byte_val c - 48)) s else None)"

definition trim_zeros :: "string \<Rightarrow> string" where
  "trim_zeros s = rev (dropWhile (\<lambda>c. c = CHR ''0'') (rev s))"

definition Second_ns :: int where "Second_ns = 1000000000"

text \<open>Seconds from the first instant of the year 1 to the epoch.\<close>

definition unix_base :: int where "unix_base = 62135596800"

definition time_text :: "int \<Rightarrow> string" where
  "time_text t =
     (let secs = nat (t div Second_ns + unix_base); ns = nat (t mod Second_ns);
          (y, m, d) = civil (secs div 86400); r = secs mod 86400; f = trim_zeros (pad 9 ns)
      in pad 4 y @ ''-'' @ pad 2 m @ ''-'' @ pad 2 d @ ''T'' @
         pad 2 (r div 3600) @ '':'' @ pad 2 (r div 60 mod 60) @ '':'' @ pad 2 (r mod 60) @
         (if f = '''' then '''' else CHR ''.'' # f) @ ''Z'')"

text \<open>\<open>Time.MarshalJSON\<close> refuses a year outside 0 to 9999.\<close>

definition time_in_range :: "int \<Rightarrow> bool" where
  "time_in_range t \<longleftrightarrow> 0 \<le> t div Second_ns + unix_base \<and> fst (civil (nat (t div Second_ns + unix_base) div 86400)) \<le> 9999"

text \<open>Reading a field of \<open>k\<close> digits, and the fraction: at most nine digits count.\<close>

definition field :: "nat \<Rightarrow> nat \<Rightarrow> string \<Rightarrow> nat option" where
  "field i k s = (if i + k \<le> length s then parse_digits 0 (take k (drop i s)) else None)"

definition parse_frac :: "string \<Rightarrow> nat option" where
  "parse_frac s =
     (if s = ''Z'' then Some 0
      else if has_prefix s ''.'' \<and> cut_suffix s ''Z'' \<noteq> None \<and> 2 < length s then
        parse_digits 0 (take 9 (butlast (tl s) @ replicate 9 (CHR ''0'')))
      else None)"

definition parse_time :: "string \<Rightarrow> int option" where
  "parse_time s =
     (if 20 \<le> length s \<and> s ! 4 = CHR ''-'' \<and> s ! 7 = CHR ''-'' \<and> s ! 10 = CHR ''T'' \<and>
         s ! 13 = CHR '':'' \<and> s ! 16 = CHR '':'' then
        (case (field 0 4 s, field 5 2 s, field 8 2 s, field 11 2 s, field 14 2 s, field 17 2 s, parse_frac (drop 19 s)) of
           (Some y, Some m, Some d, Some h, Some mi, Some sec, Some ns) \<Rightarrow>
             if 1 \<le> y \<and> m \<in> {1..12} \<and> 1 \<le> d \<and> d \<le> month_lens y ! (m - 1) \<and> h < 24 \<and> mi < 60 \<and> sec < 60
             then Some ((int (86400 * days_of y m d + 3600 * h + 60 * mi + sec) - unix_base) * Second_ns + int ns)
             else None
         | _ \<Rightarrow> None)
      else None)"

text \<open>A number that fits in its digits is read back.\<close>

lemma length_pad [simp]: "length (pad k n) = k"
  by (induction k n rule: pad.induct) auto

lemma digit_char: "n < 10 \<Longrightarrow> is_digit (char_of (48 + n)) \<and> byte_val (char_of (48 + n) :: char) - 48 = n"
  by (simp add: is_digit_def less_eq_char_def of_char_of)

lemma parse_digits_append:
  "parse_digits a (s @ t) = (case parse_digits a s of None \<Rightarrow> None | Some b \<Rightarrow> parse_digits b t)"
  by (induction a s rule: parse_digits.induct) auto

lemma parse_pad: "n < 10 ^ k \<Longrightarrow> parse_digits a (pad k n) = Some (a * 10 ^ k + n)"
proof (induction k arbitrary: a n)
  case (Suc k)
  then have "n div 10 < 10 ^ k" by (simp add: div_less_iff_less_mult mult.commute)
  with Suc.IH [of "n div 10" a] digit_char [of "n mod 10"] show ?case
    by (simp add: parse_digits_append algebra_simps)
qed simp

lemma take_fill: "length u \<le> n \<Longrightarrow> take n (u @ replicate n z) = u @ replicate (n - length u) z"
  by simp

lemma trim_zeros_fill: "length s \<le> 9 \<Longrightarrow> take 9 (trim_zeros s @ replicate 9 (CHR ''0'')) = s @ replicate (9 - length s) (CHR ''0'')"
proof (induction s rule: rev_induct)
  case (snoc c s)
  show ?case
  proof (cases "c = CHR ''0''")
    case True
    have "trim_zeros (s @ [c]) = trim_zeros s" using True by (simp add: trim_zeros_def)
    moreover have "s @ replicate (9 - length s) (CHR ''0'') = (s @ [c]) @ replicate (9 - length (s @ [c])) (CHR ''0'')"
    proof -
      have "9 - length s = Suc (9 - length (s @ [c]))" using snoc.prems by simp
      then show ?thesis using True by simp
    qed
    ultimately show ?thesis using snoc by simp
  next
    case False
    then have "trim_zeros (s @ [c]) = s @ [c]" by (simp add: trim_zeros_def)
    then show ?thesis using take_fill [OF snoc.prems] by simp
  qed
qed (simp add: trim_zeros_def)

lemma parse_frac_trim: "length f = 9 \<Longrightarrow> (\<forall>c \<in> set f. is_digit c) \<Longrightarrow>
  parse_frac ((if trim_zeros f = '''' then '''' else CHR ''.'' # trim_zeros f) @ ''Z'') = parse_digits 0 f"
proof -
  assume f: "length f = 9" "\<forall>c \<in> set f. is_digit c"
  have fill: "take 9 (trim_zeros f @ replicate 9 (CHR ''0'')) = f" using trim_zeros_fill [of f] f(1) by simp
  show ?thesis
  proof (cases "trim_zeros f = ''''")
    case True
    have "replicate 9 (CHR ''0'') = f" using fill True by simp
    moreover have "parse_digits 0 (replicate 9 (CHR ''0'')) = Some 0" by code_simp
    ultimately show ?thesis using True by (simp add: parse_frac_def)
  next
    case False
    let ?s = "(CHR ''.'' # trim_zeros f) @ ''Z''"
    have "cut_suffix ?s ''Z'' = Some (CHR ''.'' # trim_zeros f)" by (rule cut_suffix_append)
    moreover have "butlast (tl ?s) = trim_zeros f" by simp
    moreover have "has_prefix ?s ''.''" by (simp add: has_prefix_def)
    moreover have "2 < length ?s" using False by (cases "trim_zeros f") auto
    moreover have "?s \<noteq> ''Z''" by simp
    ultimately have "parse_frac ?s = parse_digits 0 f" unfolding parse_frac_def by (simp only: fill option.simps simp_thms if_True if_False)
    with False show ?thesis by simp
  qed
qed

lemma pad_digits: "c \<in> set (pad k n) \<Longrightarrow> is_digit c"
  using digit_char by (induction k n rule: pad.induct) auto

lemma field_pad:
  "n < 10 ^ k \<Longrightarrow> s = pre @ pad k n @ post \<Longrightarrow> length pre = i \<Longrightarrow> field i k s = Some n"
  using parse_pad [of n k 0] by (auto simp: field_def)

text \<open>A time in range survives the writing and the reading.\<close>

lemma parse_time_text:
  assumes "time_in_range t"
  shows "parse_time (time_text t) = Some t"
proof -
  define secs where "secs = nat (t div Second_ns + unix_base)"
  define ns where "ns = nat (t mod Second_ns)"
  define r where "r = secs mod 86400"
  define f where "f = (if trim_zeros (pad 9 ns) = '''' then '''' else CHR ''.'' # trim_zeros (pad 9 ns)) @ ''Z''"
  obtain y m d where ymd: "civil (secs div 86400) = (y, m, d)" by (metis prod.collapse)
  note c = civil_spec [OF ymd]
  have y: "y \<le> 9999" "0 \<le> t div Second_ns + unix_base" using assms ymd by (auto simp: time_in_range_def secs_def)
  have ns: "ns < 10 ^ 9" "int ns = t mod Second_ns" by (simp_all add: ns_def Second_ns_def)
  have r: "r < 86400" by (simp add: r_def)
  define s where "s = time_text t"
  have s: "s = pad 4 y @ ''-'' @ pad 2 m @ ''-'' @ pad 2 d @ ''T'' @
         pad 2 (r div 3600) @ '':'' @ pad 2 (r div 60 mod 60) @ '':'' @ pad 2 (r mod 60) @ f"
    unfolding s_def time_text_def Let_def secs_def [symmetric] ns_def [symmetric] ymd r_def [symmetric] f_def by simp
  have m: "m < 10 ^ 2" "d < 10 ^ 2" "y < 10 ^ 4" using c(3,4) y(1) by auto
  have hms: "r div 3600 < 24" "r div 60 mod 60 < 60" "r mod 60 < 60" using r by auto
  then have hms': "r div 3600 < 10 ^ 2" "r div 60 mod 60 < 10 ^ 2" "r mod 60 < 10 ^ 2" by simp_all
  have fields: "field 0 4 s = Some y" "field 5 2 s = Some m" "field 8 2 s = Some d"
    "field 11 2 s = Some (r div 3600)" "field 14 2 s = Some (r div 60 mod 60)" "field 17 2 s = Some (r mod 60)"
  proof -
    show "field 0 4 s = Some y" by (rule field_pad [OF m(3), where pre = "''''"]) (simp_all add: s)
    show "field 5 2 s = Some m" by (rule field_pad [OF m(1), where pre = "pad 4 y @ ''-''"]) (simp_all add: s)
    show "field 8 2 s = Some d"
      by (rule field_pad [OF m(2), where pre = "pad 4 y @ ''-'' @ pad 2 m @ ''-''"]) (simp_all add: s)
    show "field 11 2 s = Some (r div 3600)"
      by (rule field_pad [OF hms'(1), where pre = "pad 4 y @ ''-'' @ pad 2 m @ ''-'' @ pad 2 d @ ''T''"]) (simp_all add: s)
    show "field 14 2 s = Some (r div 60 mod 60)"
      by (rule field_pad [OF hms'(2), where pre = "pad 4 y @ ''-'' @ pad 2 m @ ''-'' @ pad 2 d @ ''T'' @ pad 2 (r div 3600) @ '':''"])
        (simp_all add: s)
    show "field 17 2 s = Some (r mod 60)"
      by (rule field_pad [OF hms'(3), where pre = "pad 4 y @ ''-'' @ pad 2 m @ ''-'' @ pad 2 d @ ''T'' @
            pad 2 (r div 3600) @ '':'' @ pad 2 (r div 60 mod 60) @ '':''"]) (simp_all add: s)
  qed
  have marks: "s ! 4 = CHR ''-''" "s ! 7 = CHR ''-''" "s ! 10 = CHR ''T''" "s ! 13 = CHR '':''" "s ! 16 = CHR '':''"
    unfolding s by (simp_all add: nth_append)
  have fr: "parse_frac f = Some ns"
    using parse_frac_trim [of "pad 9 ns"] pad_digits [of _ 9 ns] parse_pad [OF ns(1), of 0] by (simp add: f_def)
  have rest: "drop 19 s = f" "20 \<le> length s"
    unfolding s by (simp_all add: f_def)
  have "int (86400 * days_of y m d + 3600 * (r div 3600) + 60 * (r div 60 mod 60) + r mod 60) = int secs"
  proof -
    have "3600 * (r div 3600) + 60 * (r div 60 mod 60) + r mod 60 = r"
    proof -
      have "r div 3600 = r div 60 div 60" by (simp add: div_mult2_eq [symmetric])
      then show ?thesis using div_mult_mod_eq [of "r div 60" 60] div_mult_mod_eq [of r 60] by linarith
    qed
    moreover have "86400 * (secs div 86400) + r = secs" by (simp add: r_def)
    ultimately show ?thesis using c(1) by (metis add.assoc)
  qed
  moreover have "int secs = t div Second_ns + unix_base" using y(2) by (simp add: secs_def)
  ultimately have "(int (86400 * days_of y m d + 3600 * (r div 3600) + 60 * (r div 60 mod 60) + r mod 60) - unix_base) * Second_ns + int ns = t"
    using ns(2) by simp
  then show ?thesis
    using rest marks fields fr hms c unfolding s_def [symmetric] parse_time_def by simp
qed

end
