(* ===== verification/Registry.thy ===== *)
theory Registry
  imports Store GoTime Codec "HOL-Library.Multiset"
begin

text \<open>
  The registry of \<open>pkg/server/registry.go\<close>: which bytes are current for each artifact, what they are
  called, which bytes they superseded, and which artifact answers a heartbeat that names none. Its state
  extends that of the store. The callback \<open>OnChange\<close> is an argument of the operations that fire it. The
  map of artifacts is kept by the string form of the key.
\<close>

section \<open>State\<close>

definition ErrArtifactNotFound :: err where
  "ErrArtifactNotFound = Sentinel ''artifact not found''"

definition DefaultHistoryDepth :: int where "DefaultHistoryDepth = 10"

record artifact =
  a_Key :: artifact_key
  a_Version :: string
  a_TargetHash :: string
  a_TargetSize :: int
  a_UpdatedAt :: int
  a_Source :: string
  a_History :: "string list"

record registry_options =
  ro_StatePath :: string
  ro_HistoryDepth :: int
  ro_DefaultArtifact :: string

record registry = store +
  rg_opts :: registry_options
  rg_artifacts :: "(string \<times> artifact) list"
  rg_default :: string

definition zero_time :: int where
  "zero_time = - (unix_base * Second_ns)"

section \<open>The state file\<close>

definition key_to_json :: "artifact_key \<Rightarrow> json" where
  "key_to_json k = JObj [(''Name'', JStr (kName k)), (''OS'', JStr (kOS k)), (''Arch'', JStr (kArch k))]"

definition key_of_fields :: "(string \<times> json) list \<Rightarrow> artifact_key option" where
  "key_of_fields fs =
     (case (get_str fs ''name'', get_str fs ''os'', get_str fs ''arch'') of
        (Some n, Some s, Some a) \<Rightarrow> Some \<lparr>kName = n, kOS = s, kArch = a\<rparr>
      | _ \<Rightarrow> None)"

definition artifact_to_json :: "artifact \<Rightarrow> json" where
  "artifact_to_json a =
     JObj ([(''key'', key_to_json (a_Key a)), (''version'', JStr (a_Version a)),
            (''target_hash'', JStr (a_TargetHash a)), (''target_size'', JInt (a_TargetSize a)),
            (''updated_at'', JStr (time_text (a_UpdatedAt a)))] @
           omit_str ''source'' (a_Source a) @
           (if a_History a = [] then [] else [(''history'', JArr (map JStr (a_History a)))]))"

definition get_time :: "(string \<times> json) list \<Rightarrow> string \<Rightarrow> int option" where
  "get_time fs name =
     (case jfield fs name of
        None \<Rightarrow> Some zero_time | Some JNull \<Rightarrow> Some zero_time | Some (JStr s) \<Rightarrow> parse_time s | _ \<Rightarrow> None)"

fun str_elem :: "json \<Rightarrow> string option" where
  "str_elem (JStr s) = Some s"
| "str_elem JNull = Some ''''"
| "str_elem _ = None"

definition get_strs :: "(string \<times> json) list \<Rightarrow> string \<Rightarrow> string list option" where
  "get_strs fs name =
     (case jfield fs name of
        None \<Rightarrow> Some [] | Some JNull \<Rightarrow> Some []
      | Some (JArr js) \<Rightarrow> if None \<in> set (map str_elem js) then None else Some (map (the \<circ> str_elem) js)
      | _ \<Rightarrow> None)"

text \<open>An element of the list of artifacts is a pointer: \<open>null\<close> is the nil pointer.\<close>

definition artifact_of_json :: "json \<Rightarrow> artifact option option" where
  "artifact_of_json j =
     (if j = JNull then Some None
      else
        (case struct_fields j of
           None \<Rightarrow> None
         | Some fs \<Rightarrow>
             (case (Option.bind (get_struct fs ''key'') key_of_fields, get_str fs ''version'', get_str fs ''target_hash'',
                    get_int fs ''target_size'', get_time fs ''updated_at'', get_str fs ''source'', get_strs fs ''history'') of
                (Some k, Some v, Some h, Some n, Some t, Some s, Some hs) \<Rightarrow>
                  Some (Some \<lparr>a_Key = k, a_Version = v, a_TargetHash = h, a_TargetSize = n, a_UpdatedAt = t,
                              a_Source = s, a_History = hs\<rparr>)
              | _ \<Rightarrow> None)))"

record registryState =
  rs_Version :: int
  rs_Default :: string
  rs_Artifacts :: "artifact option list"

definition registryStateVersion :: int where "registryStateVersion = 1"

definition state_to_json :: "string \<Rightarrow> artifact list \<Rightarrow> json" where
  "state_to_json def arts =
     JObj ([(''version'', JInt registryStateVersion)] @ omit_str ''default'' def @
           [(''artifacts'', JArr (map artifact_to_json arts))])"

definition get_artifacts :: "(string \<times> json) list \<Rightarrow> artifact option list option" where
  "get_artifacts fs =
     (case jfield fs ''artifacts'' of
        None \<Rightarrow> Some [] | Some JNull \<Rightarrow> Some []
      | Some (JArr js) \<Rightarrow>
          if None \<in> set (map artifact_of_json js) then None else Some (map (the \<circ> artifact_of_json) js)
      | _ \<Rightarrow> None)"

definition state_of_json :: "json \<Rightarrow> registryState option" where
  "state_of_json j =
     (case struct_fields j of
        None \<Rightarrow> None
      | Some fs \<Rightarrow>
          (case (get_int fs ''version'', get_str fs ''default'', get_artifacts fs) of
             (Some v, Some d, Some as) \<Rightarrow> Some \<lparr>rs_Version = v, rs_Default = d, rs_Artifacts = as\<rparr>
           | _ \<Rightarrow> None))"

text \<open>The artifacts sorted by key, as \<open>List\<close> and \<open>persist\<close> give them.\<close>

definition by_key :: "(string \<times> artifact) list \<Rightarrow> artifact list" where
  "by_key arts = sort_key (\<lambda>a. key_string (a_Key a)) (map snd arts)"

definition persist :: "'z registry_scheme \<Rightarrow> err option \<times> 'z registry_scheme" where
  "persist s =
     (if ro_StatePath (rg_opts s) = '''' then (None, s)
      else
        (let arts = by_key (rg_artifacts s)
         in if list_ex (\<lambda>a. \<not> time_in_range (a_UpdatedAt a)) arts then
              (Some (Wrap ''marshal registry state'' (Msg ''Time.MarshalJSON: year outside of range [0,9999]'')), s)
            else
              (case WriteFile (ro_StatePath (rg_opts s)) (Json (state_to_json (rg_default s) arts)) 420 s of
                 (Some e, s) \<Rightarrow> (Some (Wrap ''write registry state'' e), s)
               | (None, s) \<Rightarrow> (None, s))))"

text \<open>The loop of \<open>load\<close>. A nil artifact is a panic, which ends the process; it is an error here.\<close>

fun load_artifacts :: "artifact option list \<Rightarrow> 'z registry_scheme \<Rightarrow> err option \<times> 'z registry_scheme" where
  "load_artifacts [] s = (None, s)"
| "load_artifacts (None # as) s = (Some (Msg ''panic: nil pointer dereference''), s)"
| "load_artifacts (Some a # as) s =
     (case key_Validate (a_Key a) of
        Some e \<Rightarrow> load_artifacts as s
      | None \<Rightarrow>
          (let s = snd (HasBinary (a_TargetHash a) s)
           in load_artifacts as (s\<lparr>rg_artifacts := put (key_string (a_Key a)) a (rg_artifacts s)\<rparr>)))"

definition load :: "'z registry_scheme \<Rightarrow> err option \<times> 'z registry_scheme" where
  "load s =
     (if ro_StatePath (rg_opts s) = '''' then (None, s)
      else
        (case os_ReadFile (ro_StatePath (rg_opts s)) s of
           (Inl e, s) \<Rightarrow>
             (if errors_Is e ENOENT then (None, s) else (Some (Wrap ''read registry state'' e), s))
         | (Inr data, s) \<Rightarrow>
             (case Option.bind (parse_json data) state_of_json of
                None \<Rightarrow> (Some (Msg ''parse registry state''), s)
              | Some st \<Rightarrow>
                  if rs_Version st \<noteq> registryStateVersion then (Some (Msg ''registry state: unsupported version''), s)
                  else
                    (case load_artifacts (rs_Artifacts st) s of
                       (Some e, s) \<Rightarrow> (Some e, s)
                     | (None, s) \<Rightarrow>
                         (None, if rg_default s = '''' then s\<lparr>rg_default := rs_Default st\<rparr> else s)))))"

definition NewRegistry :: "registry_options \<Rightarrow> 'z registry_scheme \<Rightarrow> err option \<times> 'z registry_scheme" where
  "NewRegistry opts s =
     (let opts = (if ro_HistoryDepth opts \<le> 0 then opts\<lparr>ro_HistoryDepth := DefaultHistoryDepth\<rparr> else opts)
      in load (s\<lparr>rg_opts := opts, rg_artifacts := [], rg_default := ro_DefaultArtifact opts\<rparr>))"

section \<open>Publication\<close>

type_synonym 'z on_change = "artifact_key \<Rightarrow> 'z registry_scheme \<Rightarrow> 'z registry_scheme"

text \<open>Newest first, without repetition, cut to the depth.\<close>

definition push_history :: "int \<Rightarrow> string \<Rightarrow> string list \<Rightarrow> string list" where
  "push_history depth previous past =
     (let h = previous # filter (\<lambda>h. h \<noteq> previous) past
      in if depth < int (length h) then take (nat depth) h else h)"

definition new_artifact :: "artifact_key \<Rightarrow> artifact" where
  "new_artifact key =
     \<lparr>a_Key = key, a_Version = '''', a_TargetHash = '''', a_TargetSize = 0, a_UpdatedAt = zero_time,
      a_Source = '''', a_History = []\<rparr>"

text \<open>The part of \<open>setTarget\<close> under the lock: the new state of the artifact and of the default.\<close>

definition retarget :: "int \<Rightarrow> int \<Rightarrow> string \<Rightarrow> string \<Rightarrow> int \<Rightarrow> string \<Rightarrow> artifact \<Rightarrow> artifact" where
  "retarget depth now version hash sz source art =
     (let previous = a_TargetHash art;
          art = (if previous \<noteq> hash \<and> previous \<noteq> ''''
                 then art\<lparr>a_History := push_history depth previous (a_History art)\<rparr> else art);
          art = art\<lparr>a_Version := version, a_TargetHash := hash, a_TargetSize := sz, a_UpdatedAt := now\<rparr>
      in if source \<noteq> '''' then art\<lparr>a_Source := source\<rparr> else art)"

definition setTarget ::
  "'z on_change \<Rightarrow> artifact_key \<Rightarrow> string \<Rightarrow> string \<Rightarrow> int \<Rightarrow> string \<Rightarrow> 'z registry_scheme \<Rightarrow>
   artifact \<times> 'z registry_scheme" where
  "setTarget oc key version hash sz source s =
     (let ks = key_string key;
          art = (case map_of (rg_artifacts s) ks of Some a \<Rightarrow> a | None \<Rightarrow> new_artifact key);
          changed = (a_TargetHash art \<noteq> hash \<or> a_Version art \<noteq> version);
          art = retarget (ro_HistoryDepth (rg_opts s)) (os_Now s) version hash sz source art;
          arts = put ks art (rg_artifacts s);
          def = (if rg_default s = '''' \<and> length arts = 1 then ks else rg_default s);
          s = s\<lparr>rg_artifacts := arts, rg_default := def\<rparr>;
          s = snd (persist s)
      in (art, if changed then oc key s else s))"

definition PublishBytes ::
  "lib \<Rightarrow> 'z on_change \<Rightarrow> artifact_key \<Rightarrow> string \<Rightarrow> bytes \<Rightarrow> 'z registry_scheme \<Rightarrow> (err + artifact) \<times> 'z registry_scheme" where
  "PublishBytes L oc key version data s =
     (case key_Validate key of
        Some e \<Rightarrow> (Inl (Wrap ''publish'' e), s)
      | None \<Rightarrow>
          (case RegisterBinary L data s of
             (Inl e, s) \<Rightarrow> (Inl (Wrap ''publish'' e), s)
           | (Inr hash, s) \<Rightarrow>
               (case setTarget oc key version hash (int (length data)) '''' s of (a, s) \<Rightarrow> (Inr a, s))))"

definition PublishFile ::
  "lib \<Rightarrow> 'z on_change \<Rightarrow> artifact_key \<Rightarrow> string \<Rightarrow> string \<Rightarrow> 'z registry_scheme \<Rightarrow> (err + artifact) \<times> 'z registry_scheme" where
  "PublishFile L oc key version path s =
     (case key_Validate key of
        Some e \<Rightarrow> (Inl (Wrap ''publish'' e), s)
      | None \<Rightarrow>
          (case RegisterBinaryFile L path s of
             (Inl e, s) \<Rightarrow> (Inl (Wrap ''publish'' e), s)
           | (Inr (hash, sz), s) \<Rightarrow>
               (case setTarget oc key version hash sz path s of (a, s) \<Rightarrow> (Inr a, s))))"

definition Republish ::
  "lib \<Rightarrow> 'z on_change \<Rightarrow> artifact_key \<Rightarrow> 'z registry_scheme \<Rightarrow> (err + artifact) \<times> 'z registry_scheme" where
  "Republish L oc key s =
     (case map_of (rg_artifacts s) (key_string key) of
        None \<Rightarrow> (Inl (Wrap ''republish'' ErrArtifactNotFound), s)
      | Some art \<Rightarrow>
          if a_Source art = '''' then (Inl (Msg ''republish: artifact has no source file (published via API)''), s)
          else PublishFile L oc key (a_Version art) (a_Source art) s)"

section \<open>Lookup\<close>

definition reg_Get :: "artifact_key \<Rightarrow> 'z registry_scheme \<Rightarrow> err + artifact" where
  "reg_Get key s =
     (case map_of (rg_artifacts s) (key_string key) of
        None \<Rightarrow> Inl (Wrap ''artifact'' ErrArtifactNotFound)
      | Some a \<Rightarrow> Inr a)"

definition Resolve :: "string \<Rightarrow> 'z registry_scheme \<Rightarrow> err + artifact" where
  "Resolve name s =
     (if name = '''' then
        (if rg_default s = '''' then Inl (Wrap ''no artifact named and no default configured'' ErrArtifactNotFound)
         else
           (case map_of (rg_artifacts s) (rg_default s) of
              None \<Rightarrow> Inl (Wrap ''default artifact'' ErrArtifactNotFound)
            | Some a \<Rightarrow> Inr a))
      else
        (case ParseArtifactKey name of
           Inl e \<Rightarrow> Inl e
         | Inr key \<Rightarrow> reg_Get key s))"

definition reg_List :: "'z registry_scheme \<Rightarrow> artifact list" where
  "reg_List s = by_key (rg_artifacts s)"

definition reg_Default :: "'z registry_scheme \<Rightarrow> string" where
  "reg_Default s = rg_default s"

definition SetDefault :: "artifact_key \<Rightarrow> 'z registry_scheme \<Rightarrow> err option \<times> 'z registry_scheme" where
  "SetDefault key s =
     (let ks = key_string key
      in if map_of (rg_artifacts s) ks = None then (Some (Wrap ''set default'' ErrArtifactNotFound), s)
         else (None, snd (persist (s\<lparr>rg_default := ks\<rparr>))))"

definition reg_Remove :: "'z on_change \<Rightarrow> artifact_key \<Rightarrow> 'z registry_scheme \<Rightarrow> err option \<times> 'z registry_scheme" where
  "reg_Remove oc key s =
     (let ks = key_string key
      in if map_of (rg_artifacts s) ks = None then (Some (Wrap ''remove'' ErrArtifactNotFound), s)
         else
           (let arts = del ks (rg_artifacts s);
                def = (if rg_default s = ks then
                         (case arts of [(k, a)] \<Rightarrow> k | _ \<Rightarrow> '''')
                       else rg_default s);
                s = snd (persist (s\<lparr>rg_artifacts := arts, rg_default := def\<rparr>))
            in (None, oc key s)))"

definition LiveHashes :: "'z registry_scheme \<Rightarrow> string set" where
  "LiveHashes s =
     \<Union> ((\<lambda>a. (if a_TargetHash a \<noteq> '''' then {a_TargetHash a} else {}) \<union> set (a_History a)) ` set (map snd (rg_artifacts s)))"

definition CurrentTargets :: "'z registry_scheme \<Rightarrow> string set" where
  "CurrentTargets s = set (filter (\<lambda>h. h \<noteq> '''') (map (a_TargetHash \<circ> snd) (rg_artifacts s)))"

definition IsCurrentTarget :: "string \<Rightarrow> 'z registry_scheme \<Rightarrow> bool" where
  "IsCurrentTarget hash s \<longleftrightarrow> list_ex (\<lambda>(k, a). a_TargetHash a = hash) (rg_artifacts s)"

definition IsLive :: "string \<Rightarrow> 'z registry_scheme \<Rightarrow> bool" where
  "IsLive hash s \<longleftrightarrow>
     list_ex (\<lambda>(k, a). a_TargetHash a = hash \<or> list_ex (\<lambda>h. h = hash) (a_History a)) (rg_artifacts s)"

definition WatchedSources :: "'z registry_scheme \<Rightarrow> (artifact_key \<times> string) list" where
  "WatchedSources s =
     map (\<lambda>a. (a_Key a, a_Source a)) (filter (\<lambda>a. a_Source a \<noteq> '''') (map snd (rg_artifacts s)))"

section \<open>Artifacts declared in the configuration\<close>

record artifact_yaml =
  y_Name :: string
  y_OS :: string
  y_Arch :: string
  y_Version :: string
  y_Binary :: string

fun ReconcileConfig ::
  "lib \<Rightarrow> 'z on_change \<Rightarrow> artifact_yaml list \<Rightarrow> 'z registry_scheme \<Rightarrow> err option \<times> 'z registry_scheme" where
  "ReconcileConfig L oc [] s = (None, s)"
| "ReconcileConfig L oc (d # ds) s =
     (let key = \<lparr>kName = y_Name d, kOS = y_OS d, kArch = y_Arch d\<rparr>
      in case key_Validate key of
           Some e \<Rightarrow> (Some (Wrap ''config artifact'' e), s)
         | None \<Rightarrow>
             (case PublishFile L oc key (y_Version d) (y_Binary d) s of
                (Inl e, s) \<Rightarrow> (Some (Wrap ''config artifact'' e), s)
              | (Inr a, s) \<Rightarrow> ReconcileConfig L oc ds s))"

section \<open>History\<close>

text \<open>The reference: the distinct elements of a list, each at its first place.\<close>

fun recent :: "string list \<Rightarrow> string list" where
  "recent [] = []"
| "recent (h # hs) = h # filter (\<lambda>x. x \<noteq> h) (recent hs)"

lemma distinct_recent [simp]: "distinct (recent hs)"
  by (induction hs) auto

lemma length_filter_neq: "distinct xs \<Longrightarrow> length xs \<le> Suc (length (filter (\<lambda>x. x \<noteq> p) xs))"
proof (induction xs)
  case (Cons x xs)
  have "filter (\<lambda>x. x \<noteq> p) xs = xs" if "p \<notin> set xs" using that by (induction xs) auto
  with Cons show ?case by auto
qed simp

lemma push_history_take: "push_history d p hs = take (nat d) (p # filter (\<lambda>h. h \<noteq> p) hs)"
  by (auto simp: push_history_def Let_def nat_le_iff)

text \<open>Cutting before the push makes no difference.\<close>

lemma push_history_cut:
  assumes "distinct R"
  shows "push_history d p (take (nat d) R) = take (nat d) (p # filter (\<lambda>h. h \<noteq> p) R)"
proof (cases "nat d")
  case (Suc n)
  let ?f = "filter (\<lambda>h. h \<noteq> p)"
  have "take n (?f (take (Suc n) R)) = take n (?f R)"
  proof (cases "length R \<le> Suc n")
    case False
    have "?f R = ?f (take (Suc n) R) @ ?f (drop (Suc n) R)" by (metis append_take_drop_id filter_append)
    moreover have "Suc n \<le> Suc (length (?f (take (Suc n) R)))"
      using length_filter_neq [of "take (Suc n) R" p] assms False by simp
    ultimately show ?thesis by simp
  qed simp
  then show ?thesis by (simp add: push_history_take Suc)
qed (simp add: push_history_take)

lemma push_history_distinct: "distinct hs \<Longrightarrow> distinct (push_history d p hs)"
  unfolding push_history_take by (auto intro: distinct_take)

section \<open>What the registry keeps\<close>

text \<open>A registry whose entries are filed under their keys.\<close>

definition registry_ok :: "'z registry_scheme \<Rightarrow> bool" where
  "registry_ok s \<longleftrightarrow>
     wf_map (rg_artifacts s) \<and>
     (\<forall>k a. map_of (rg_artifacts s) k = Some a \<longrightarrow> k = key_string (a_Key a) \<and> valid_key (a_Key a))"

text \<open>A callback that leaves the registry alone, as the one that is wired to the manifest cache.\<close>

definition keeps_registry :: "'z on_change \<Rightarrow> bool" where
  "keeps_registry oc \<longleftrightarrow>
     (\<forall>k s. rg_artifacts (oc k s) = rg_artifacts s \<and> rg_opts (oc k s) = rg_opts s \<and> rg_default (oc k s) = rg_default s)"

lemma registry_more:
  "os.more s' = os.more s \<Longrightarrow> rg_artifacts s' = rg_artifacts s \<and> rg_opts s' = rg_opts s \<and> rg_default s' = rg_default s"
  by (cases s, cases s') (auto simp: registry.defs store.defs)

lemma persist_same_rest:
  assumes "\<not> is_tmp (ro_StatePath (rg_opts s))"
  shows "same_rest s (snd (persist s))"
proof -
  obtain r s' where w: "WriteFile (ro_StatePath (rg_opts s)) (Json (state_to_json (rg_default s) (by_key (rg_artifacts s)))) 420 s = (r, s')"
    by fastforce
  have "same_rest s s'" using WriteFile_atomic [OF w assms] by (simp add: atomic_write_def)
  then show ?thesis using w by (auto simp: persist_def Let_def split: option.split)
qed

lemma persist_registry:
  assumes "\<not> is_tmp (ro_StatePath (rg_opts s))"
  shows "rg_artifacts (snd (persist s)) = rg_artifacts s" "rg_opts (snd (persist s)) = rg_opts s"
    "rg_default (snd (persist s)) = rg_default s"
  using registry_more [of "snd (persist s)" s] persist_same_rest [OF assms] by (auto simp: same_rest_def)

lemma setTarget_artifacts:
  assumes "\<not> is_tmp (ro_StatePath (rg_opts s))" "keeps_registry oc"
  shows "rg_artifacts (snd (setTarget oc key version hash sz source s)) =
      put (key_string key) (fst (setTarget oc key version hash sz source s)) (rg_artifacts s)"
    "rg_opts (snd (setTarget oc key version hash sz source s)) = rg_opts s"
proof -
  have oc: "rg_artifacts (oc k w) = rg_artifacts w" "rg_opts (oc k w) = rg_opts w" for k w
    using assms(2) by (auto simp: keeps_registry_def)
  show "rg_artifacts (snd (setTarget oc key version hash sz source s)) =
      put (key_string key) (fst (setTarget oc key version hash sz source s)) (rg_artifacts s)"
    "rg_opts (snd (setTarget oc key version hash sz source s)) = rg_opts s"
    by (simp_all add: setTarget_def Let_def oc persist_registry assms(1))
qed

lemma setTarget_artifact:
  "fst (setTarget oc key version hash sz source s) =
     retarget (ro_HistoryDepth (rg_opts s)) (clock s) version hash sz source
       (case map_of (rg_artifacts s) (key_string key) of Some a \<Rightarrow> a | None \<Rightarrow> new_artifact key)"
  by (simp add: setTarget_def Let_def)

lemma retarget_fields [simp]:
  "a_Key (retarget d n v h z src a) = a_Key a" "a_TargetHash (retarget d n v h z src a) = h"
  "a_Version (retarget d n v h z src a) = v" "a_TargetSize (retarget d n v h z src a) = z"
  "a_UpdatedAt (retarget d n v h z src a) = n"
  "a_History (retarget d n v h z src a) =
     (if a_TargetHash a \<noteq> h \<and> a_TargetHash a \<noteq> '''' then push_history d (a_TargetHash a) (a_History a) else a_History a)"
  by (simp_all add: retarget_def Let_def)

lemma setTarget_ok:
  assumes "\<not> is_tmp (ro_StatePath (rg_opts s))" "keeps_registry oc" "registry_ok s" "valid_key key"
  shows "registry_ok (snd (setTarget oc key version hash sz source s))"
proof -
  have "a_Key (fst (setTarget oc key version hash sz source s)) = key"
  proof (cases "map_of (rg_artifacts s) (key_string key)")
    case None
    then show ?thesis by (simp add: setTarget_artifact new_artifact_def)
  next
    case (Some a)
    then have "key_string (a_Key a) = key_string key" "valid_key (a_Key a)"
      using assms(3) by (auto simp: registry_ok_def)
    then have "a_Key a = key" using key_string_inj assms(4) by blast
    with Some show ?thesis by (simp add: setTarget_artifact)
  qed
  with assms show ?thesis
    by (simp add: registry_ok_def setTarget_artifacts [OF assms(1,2)] del: fst_conv snd_conv)
qed

text \<open>A sequence of publications, and the hashes published under one key, the newest first.\<close>

type_synonym publication = "artifact_key \<times> string \<times> string \<times> int \<times> string"

fun publish_all :: "'z on_change \<Rightarrow> publication list \<Rightarrow> 'z registry_scheme \<Rightarrow> 'z registry_scheme" where
  "publish_all oc [] s = s"
| "publish_all oc ((key, version, hash, sz, source) # ps) s =
     publish_all oc ps (snd (setTarget oc key version hash sz source s))"

definition hashes_of :: "string \<Rightarrow> publication list \<Rightarrow> string list" where
  "hashes_of ks ps = rev (map (\<lambda>(key, version, hash, sz, source). hash) (filter (\<lambda>p. key_string (fst p) = ks) ps))"

definition expected :: "int \<Rightarrow> string list \<Rightarrow> (string \<times> string list) option" where
  "expected depth hs =
     (case hs of [] \<Rightarrow> None | h # _ \<Rightarrow> Some (h, take (nat depth) (recent (tl (remdups_adj hs)))))"

lemma publish_all_append: "publish_all oc (ps @ qs) s = publish_all oc qs (publish_all oc ps s)"
  by (induction oc ps s rule: publish_all.induct) auto

lemma expected_retarget:
  assumes "a_TargetHash a = g" "a_History a = take (nat d) (recent (tl (remdups_adj (g # hs))))" "g \<noteq> ''''"
  shows "Some (h, a_History (retarget d n v h z src a)) = expected d (h # g # hs)"
proof (cases "h = g")
  case False
  have "remdups_adj (g # hs) = g # tl (remdups_adj (g # hs))" by (cases hs) auto
  then have "recent (tl (remdups_adj (h # g # hs))) = g # filter (\<lambda>x. x \<noteq> g) (recent (tl (remdups_adj (g # hs))))"
    using False by (metis list.sel(3) recent.simps(2) remdups_adj.simps(3))
  then show ?thesis
    using False assms push_history_cut [of "recent (tl (remdups_adj (g # hs)))" d g] by (simp add: expected_def)
qed (use assms in \<open>simp add: expected_def\<close>)

lemma publish_all_expected:
  assumes "keeps_registry oc" "\<not> is_tmp (ro_StatePath (rg_opts s))" "rg_artifacts s = []"
    and "\<forall>p \<in> set ps. fst (snd (snd p)) \<noteq> ''''"
  shows "map_option (\<lambda>a. (a_TargetHash a, a_History a)) (map_of (rg_artifacts (publish_all oc ps s)) ks) =
      expected (ro_HistoryDepth (rg_opts s)) (hashes_of ks ps) \<and>
    rg_opts (publish_all oc ps s) = rg_opts s"
  using assms(4)
proof (induction ps arbitrary: ks rule: rev_induct)
  case Nil
  show ?case by (simp add: assms(3) hashes_of_def expected_def)
next
  case (snoc p ps)
  obtain key v h z src where p: "p = (key, v, h, z, src)" by (metis prod.collapse)
  let ?s = "publish_all oc ps s"
  let ?d = "ro_HistoryDepth (rg_opts s)"
  have IH: "map_option (\<lambda>a. (a_TargetHash a, a_History a)) (map_of (rg_artifacts ?s) k) = expected ?d (hashes_of k ps)"
    "rg_opts ?s = rg_opts s" for k
    using snoc by auto
  have "\<not> is_tmp (ro_StatePath (rg_opts ?s))" using assms(2) IH(2) by simp
  note set = setTarget_artifacts [OF this assms(1)]
  have other: "hashes_of ks (ps @ [p]) = (if key_string key = ks then h # hashes_of ks ps else hashes_of ks ps)"
    by (simp add: hashes_of_def p)
  show ?case
  proof (cases "key_string key = ks")
    case False
    with IH(1) [of ks] IH(2) set other show ?thesis by (simp add: publish_all_append p)
  next
    case True
    let ?a = "case map_of (rg_artifacts ?s) ks of Some a \<Rightarrow> a | None \<Rightarrow> new_artifact key"
    have new: "map_of (rg_artifacts (publish_all oc (ps @ [p]) s)) ks = Some (retarget ?d (clock ?s) v h z src ?a)"
      using set True IH(2) by (simp add: publish_all_append p setTarget_artifact)
    have "Some (h, a_History (retarget ?d (clock ?s) v h z src ?a)) = expected ?d (h # hashes_of ks ps)"
    proof (cases "hashes_of ks ps")
      case Nil
      then have "map_of (rg_artifacts ?s) ks = None" using IH(1) [of ks] by (simp add: expected_def)
      with Nil show ?thesis by (simp add: new_artifact_def expected_def)
    next
      case (Cons g hs)
      then obtain a where a: "map_of (rg_artifacts ?s) ks = Some a" "a_TargetHash a = g"
        "a_History a = take (nat ?d) (recent (tl (remdups_adj (g # hs))))"
        using IH(1) [of ks] by (auto simp: expected_def)
      have "g \<in> set (hashes_of ks ps)" using Cons by simp
      then have "g \<noteq> ''''" using snoc.prems by (auto simp: hashes_of_def)
      with expected_retarget [OF a(2,3)] a(1) Cons show ?thesis by simp
    qed
    with new other True set IH(2) show ?thesis by (simp add: publish_all_append p)
  qed
qed

section \<open>Restart\<close>

text \<open>What is written can be read back.\<close>

definition artifact_fits :: "artifact \<Rightarrow> bool" where
  "artifact_fits a \<longleftrightarrow> int64 (a_TargetSize a) \<and> time_in_range (a_UpdatedAt a)"

lemma lower_tags_registry:
  "to_lower ''key'' = ''key''" "to_lower ''Name'' = ''name''" "to_lower ''OS'' = ''os''" "to_lower ''Arch'' = ''arch''"
  "to_lower ''updated_at'' = ''updated_at''" "to_lower ''source'' = ''source''" "to_lower ''history'' = ''history''"
  "to_lower ''default'' = ''default''" "to_lower ''artifacts'' = ''artifacts''"
  by code_simp+

lemma get_strs_back: "get_strs (fs @ (if hs = [] then [] else [(''history'', JArr (map JStr hs))])) ''history'' =
   (if hs = [] then get_strs fs ''history'' else Some hs)"
proof -
  have e: "map (the \<circ> str_elem) (map JStr hs) = hs" "None \<notin> set (map str_elem (map JStr hs))"
    by (simp_all add: comp_def image_iff)
  show ?thesis using e by (simp add: get_strs_def jfield_append jfield_Cons lower_tags_registry)
qed

lemma get_append_history:
  "k \<noteq> ''history'' \<Longrightarrow> jfield (fs @ (if hs = [] then [] else [(''history'', JArr (map JStr hs))])) k = jfield fs k"
  by (auto simp: jfield_append jfield_Cons lower_tags_registry)

lemma artifact_json_back:
  assumes "artifact_fits a"
  shows "artifact_of_json (artifact_to_json a) = Some (Some a)"
proof -
  define fs where "fs = [(''key'', key_to_json (a_Key a)), (''version'', JStr (a_Version a)),
            (''target_hash'', JStr (a_TargetHash a)), (''target_size'', JInt (a_TargetSize a)),
            (''updated_at'', JStr (time_text (a_UpdatedAt a)))] @ omit_str ''source'' (a_Source a)"
  define h where "h = (if a_History a = [] then [] else [(''history'', JArr (map JStr (a_History a)))])"
  have j: "artifact_to_json a = JObj (fs @ h)" by (simp add: artifact_to_json_def fs_def h_def)
  have f: "jfield (fs @ h) k = jfield fs k" if "k \<noteq> ''history''" for k
    unfolding h_def by (rule get_append_history [OF that])
  have src: "jfield fs ''source'' = (if a_Source a = '''' then None else Some (JStr (a_Source a)))"
    by (simp add: fs_def jfields lower_tags lower_tags_registry)
  have fields: "jfield fs ''key'' = Some (key_to_json (a_Key a))" "jfield fs ''version'' = Some (JStr (a_Version a))"
    "jfield fs ''target_hash'' = Some (JStr (a_TargetHash a))" "jfield fs ''target_size'' = Some (JInt (a_TargetSize a))"
    "jfield fs ''updated_at'' = Some (JStr (time_text (a_UpdatedAt a)))" "jfield fs ''history'' = None"
    by (simp_all add: fs_def jfields lower_tags lower_tags_registry)
  have hist: "get_strs (fs @ h) ''history'' = Some (a_History a)"
    using get_strs_back [of fs "a_History a"] fields(6) by (simp add: h_def get_strs_def)
  have key: "Option.bind (get_struct (fs @ h) ''key'') key_of_fields = Some (a_Key a)"
  proof -
    have "get_struct (fs @ h) ''key'' = struct_fields (key_to_json (a_Key a))" by (simp add: get_struct_def f fields)
    then show ?thesis by (simp add: key_to_json_def key_of_fields_def get_str_def jfields lower_tags_registry)
  qed
  show ?thesis
    unfolding artifact_of_json_def j
    using key hist assms
    by (simp add: get_str_def get_int_def get_time_def f fields src artifact_fits_def parse_time_text)
qed

lemma state_json_back:
  assumes "\<forall>a \<in> set arts. artifact_fits a"
  shows "state_of_json (state_to_json def arts) = Some \<lparr>rs_Version = 1, rs_Default = def, rs_Artifacts = map Some arts\<rparr>"
proof -
  let ?js = "map artifact_to_json arts"
  have "map artifact_of_json ?js = map (\<lambda>a. Some (Some a)) arts" using assms by (simp add: artifact_json_back)
  moreover from this have "map (the \<circ> artifact_of_json) ?js = map Some arts" by (simp add: map_eq_conv)
  moreover have "None \<notin> set (map (\<lambda>a. Some (Some a)) arts)" by auto
  ultimately have "get_artifacts ([(''version'', JInt registryStateVersion)] @ omit_str ''default'' def @ [(''artifacts'', JArr ?js)]) =
      Some (map Some arts)"
    unfolding get_artifacts_def by (simp only: jfields lower_tags lower_tags_registry) (simp add: registryStateVersion_def)
  then show ?thesis
    by (simp add: state_of_json_def state_to_json_def get_int_def get_str_def jfields lower_tags lower_tags_registry
        registryStateVersion_def int64_def)
qed

lemma by_key_map:
  assumes "wf_map m" "\<forall>k a. map_of m k = Some a \<longrightarrow> k = key_string (a_Key a)"
  shows "set (by_key m) = set (map snd m)" "distinct (map (\<lambda>a. key_string (a_Key a)) (by_key m))"
proof -
  have k: "\<forall>e \<in> set m. fst e = key_string (a_Key (snd e))"
    using assms by (metis map_of_in_wf prod.collapse)
  show "set (by_key m) = set (map snd m)" by (simp add: by_key_def)
  have "map (\<lambda>a. key_string (a_Key a)) (map snd m) = map fst m" using k by simp
  then have "distinct (map (\<lambda>a. key_string (a_Key a)) (map snd m))"
    using assms(1) unfolding wf_map_def by (simp only:)
  moreover have "mset (map (\<lambda>a. key_string (a_Key a)) (by_key m)) = mset (map (\<lambda>a. key_string (a_Key a)) (map snd m))"
    by (simp only: mset_map by_key_def mset_sort)
  ultimately show "distinct (map (\<lambda>a. key_string (a_Key a)) (by_key m))" by (metis mset_eq_imp_distinct_iff)
qed

text \<open>The loop of \<open>load\<close> files every valid artifact under its key; the store it asks in between keeps the
  registry as it is.\<close>

lemma HasBinary_registry:
  "rg_artifacts (snd (HasBinary h s)) = rg_artifacts s" "rg_opts (snd (HasBinary h s)) = rg_opts s"
  "rg_default (snd (HasBinary h s)) = rg_default s" "faults s = [] \<Longrightarrow> faults (snd (HasBinary h s)) = []"
proof -
  obtain b s1 where 1: "miss_check h s = (b, s1)" by fastforce
  obtain r s2 where 2: "os_Stat (binaryPath (st_opts s1) h) s1 = (r, s2)" by fastforce
  have m1: "store.more s1 = store.more s" "faults s1 = faults s"
    using 1 by (auto simp: miss_check_def split: option.splits if_splits)
  have m2: "store.more s2 = store.more s1" using os_reads(1) [OF 2] more_fields [of s2 s1] by (simp add: same_rest_def)
  have f2: "faults s1 = [] \<Longrightarrow> faults s2 = []" using 2 by (auto simp: os_Stat_def)
  have "store.more (snd (HasBinary h s)) = store.more s \<and> (faults s = [] \<longrightarrow> faults (snd (HasBinary h s)) = [])"
    using 1 2 m1 m2 f2 by (auto simp: HasBinary_def miss_record_def Let_def split: bool.split sum.split)
  then show "rg_artifacts (snd (HasBinary h s)) = rg_artifacts s" "rg_opts (snd (HasBinary h s)) = rg_opts s"
    "rg_default (snd (HasBinary h s)) = rg_default s" "faults s = [] \<Longrightarrow> faults (snd (HasBinary h s)) = []"
    by (cases "snd (HasBinary h s)", cases s; auto simp: registry.defs)+
qed

lemma load_artifacts_map:
  assumes "\<forall>a \<in> set as. valid_key (a_Key a)"
  shows "fst (load_artifacts (map Some as) s) = None \<and>
    map_of (rg_artifacts (snd (load_artifacts (map Some as) s))) =
      map_of (rg_artifacts s) ++ map_of (rev (map (\<lambda>a. (key_string (a_Key a), a)) as)) \<and>
    rg_opts (snd (load_artifacts (map Some as) s)) = rg_opts s \<and>
    rg_default (snd (load_artifacts (map Some as) s)) = rg_default s"
  using assms
proof (induction as arbitrary: s)
  case (Cons a as)
  have "key_Validate (a_Key a) = None" using Cons.prems by (simp add: key_Validate_iff)
  with Cons show ?case by (auto simp: Let_def HasBinary_registry map_add_def fun_eq_iff split: option.splits)
qed simp

lemma map_of_by_key:
  assumes "wf_map m" "\<forall>k a. map_of m k = Some a \<longrightarrow> k = key_string (a_Key a)"
  shows "map_of (rev (map (\<lambda>a. (key_string (a_Key a), a)) (by_key m))) = map_of m"
proof
  fix k
  let ?l = "rev (map (\<lambda>a. (key_string (a_Key a), a)) (by_key m))"
  have wf: "wf_map ?l" using by_key_map(2) [OF assms] by (simp add: wf_map_def comp_def rev_map [symmetric])
  have e: "\<forall>(q, a) \<in> set m. q = key_string (a_Key a)" using assms by (auto simp: map_of_in_wf [OF assms(1)])
  have "map_of ?l k = Some a \<longleftrightarrow> map_of m k = Some a" for a
  proof -
    have "(k, a) \<in> set ?l \<longleftrightarrow> k = key_string (a_Key a) \<and> a \<in> set (map snd m)"
      unfolding by_key_map(1) [OF assms, symmetric] by auto
    also have "\<dots> \<longleftrightarrow> (k, a) \<in> set m" using e by force
    finally show ?thesis unfolding map_of_in_wf [OF wf] map_of_in_wf [OF assms(1)] .
  qed
  then show "map_of ?l k = map_of m k" by (metis option.exhaust)
qed

lemma persist_file:
  assumes "persist s = (None, s1)" "ro_StatePath (rg_opts s) \<noteq> ''''" "\<not> is_tmp (ro_StatePath (rg_opts s))"
  shows "map_of (files s1) (ro_StatePath (rg_opts s)) =
    Some (EFile (Json (state_to_json (rg_default s) (by_key (rg_artifacts s)))) 420 (clock s) True)"
proof -
  let ?p = "ro_StatePath (rg_opts s)"
  obtain r s' where w: "WriteFile ?p (Json (state_to_json (rg_default s) (by_key (rg_artifacts s)))) 420 s = (r, s')"
    by fastforce
  with assms(1,2) have "r = None" "s' = s1" by (auto simp: persist_def Let_def split: if_splits option.splits)
  with WriteFile_atomic [OF w assms(3)] show ?thesis by (simp add: atomic_write_def)
qed

section \<open>Properties\<close>

text \<open>C10. The history of an artifact is what it should be after any sequence of publications, of this
  and of other artifacts: the current target is the last hash published, and the history lists the
  distinct hashes it superseded, the most recent first, as many as the depth allows.\<close>

theorem history_is_recent:
  assumes "keeps_registry oc" "\<not> is_tmp (ro_StatePath (rg_opts s))" "rg_artifacts s = []"
    and "\<forall>p \<in> set ps. fst (snd (snd p)) \<noteq> ''''"
  shows "map_option (\<lambda>a. (a_TargetHash a, a_History a)) (map_of (rg_artifacts (publish_all oc ps s)) ks) =
    (case hashes_of ks ps of
       [] \<Rightarrow> None
     | h # hs \<Rightarrow> Some (h, take (nat (ro_HistoryDepth (rg_opts s))) (recent (tl (remdups_adj (h # hs))))))"
  using publish_all_expected [OF assms] unfolding expected_def by (auto split: list.split)

text \<open>The clock stands at the first of January 2001.\<close>

definition sample_registry :: registry where
  "sample_registry = store.extend (sample_server\<lparr>clock := 978307200000000000\<rparr>)
     (registry.fields \<lparr>ro_StatePath = ''/d/registry.json'', ro_HistoryDepth = 2, ro_DefaultArtifact = ''''\<rparr> [] '''')"

definition sample_key :: artifact_key where
  "sample_key = \<lparr>kName = ''app'', kOS = '''', kArch = ''''\<rparr>"

definition no_change :: "artifact_key \<Rightarrow> 'a \<Rightarrow> 'a" where
  "no_change k s = s"

lemma keeps_registry_no_change: "keeps_registry no_change"
  by (simp add: keeps_registry_def no_change_def)

definition sample_publications :: "publication list" where
  "sample_publications =
     map (\<lambda>h. (sample_key, ''v'', h, 1, '''')) [''a'', ''b'', ''a'', ''c'', ''c'', ''d'', ''a'']"

theorem history_is_recent_witness:
  "map_option (\<lambda>a. (a_TargetHash a, a_History a))
     (map_of (rg_artifacts (publish_all no_change sample_publications sample_registry)) ''app'') =
   Some (''a'', [''d'', ''c''])"
proof -
  have h: "hashes_of ''app'' sample_publications = [''a'', ''d'', ''c'', ''c'', ''a'', ''b'', ''a'']" by code_simp
  have p: "\<not> is_tmp (ro_StatePath (rg_opts sample_registry))" by code_simp
  have a: "rg_artifacts sample_registry = []" by (simp add: sample_registry_def registry.defs store.defs)
  have d: "ro_HistoryDepth (rg_opts sample_registry) = 2" by (simp add: sample_registry_def registry.defs store.defs)
  have "\<forall>p \<in> set sample_publications. fst (snd (snd p)) \<noteq> ''''" by (simp add: sample_publications_def)
  from history_is_recent [OF keeps_registry_no_change p a this, of "''app''"] show ?thesis
    unfolding h d by simp
qed

text \<open>C20. The registry survives a restart: what was persisted without an error is what a new registry on
  the same file starts with, the same artifact under every key and the same default, unless the
  configuration names one.\<close>

theorem registry_survives_restart:
  assumes "registry_ok s" "\<forall>k a. map_of (rg_artifacts s) k = Some a \<longrightarrow> artifact_fits a"
    and "persist s = (None, s1)" "ro_StatePath (rg_opts s) = p" "p \<noteq> ''''" "\<not> is_tmp p"
    and "map_of (files s2) p = map_of (files s1) p" "faults s2 = []" "ro_StatePath opts = p"
  shows "case NewRegistry opts s2 of (r, s3) \<Rightarrow>
    r = None \<and> map_of (rg_artifacts s3) = map_of (rg_artifacts s) \<and>
    rg_default s3 = (if ro_DefaultArtifact opts = '''' then rg_default s else ro_DefaultArtifact opts)"
proof -
  let ?arts = "by_key (rg_artifacts s)"
  let ?j = "state_to_json (rg_default s) ?arts"
  have wf: "wf_map (rg_artifacts s)" "\<forall>k a. map_of (rg_artifacts s) k = Some a \<longrightarrow> k = key_string (a_Key a)"
    using assms(1) by (auto simp: registry_ok_def)
  have el: "\<exists>k. map_of (rg_artifacts s) k = Some a" if "a \<in> set ?arts" for a
    using that by_key_map(1) [OF wf] by (force simp: map_of_in_wf [OF wf(1)])
  then have valid: "\<forall>a \<in> set ?arts. valid_key (a_Key a)" and fits: "\<forall>a \<in> set ?arts. artifact_fits a"
    using assms(1,2) by (meson registry_ok_def)+
  have stored: "map_of (files s2) p = Some (EFile (Json ?j) 420 (clock s) True)"
    using persist_file [OF assms(3)] assms(4-7) by simp
  define o2 where "o2 = (if ro_HistoryDepth opts \<le> 0 then opts\<lparr>ro_HistoryDepth := DefaultHistoryDepth\<rparr> else opts)"
  have o2: "ro_StatePath o2 = p" "ro_DefaultArtifact o2 = ro_DefaultArtifact opts" using assms(9) by (simp_all add: o2_def)
  define w where "w = tick (s2\<lparr>rg_opts := o2, rg_artifacts := [], rg_default := ro_DefaultArtifact opts\<rparr>)"
  have w: "rg_artifacts w = []" "rg_default w = ro_DefaultArtifact opts" "files w = files s2"
    by (simp_all add: w_def tick_def)
  note la = load_artifacts_map [OF valid, of w]
  have st: "state_of_json ?j = Some \<lparr>rs_Version = 1, rs_Default = rg_default s, rs_Artifacts = map Some ?arts\<rparr>"
    by (rule state_json_back [OF fits])
  obtain r s3 where l: "load_artifacts (map Some ?arts) w = (r, s3)" by fastforce
  have "NewRegistry opts s2 =
      (r, if rg_default s3 = '''' then s3\<lparr>rg_default := rg_default s\<rparr> else s3)"
    using la l st stored assms(5,8) o2 w(3)
    by (simp add: NewRegistry_def Let_def o2_def [symmetric] load_def os_ReadFile_def w_def [symmetric]
        registryStateVersion_def)
  with la l w show ?thesis by (simp add: map_of_by_key [OF wf])
qed

theorem registry_survives_restart_witness:
  "let s = snd (setTarget no_change sample_key ''1.0'' ''aa'' 3 '''' sample_registry)
   in map_of (rg_artifacts s) ''app'' \<noteq> None \<and>
      (case NewRegistry (rg_opts s) s of (r, s3) \<Rightarrow> r = None \<and> map_of (rg_artifacts s3) = map_of (rg_artifacts s))"
proof -
  let ?s = "snd (setTarget no_change sample_key ''1.0'' ''aa'' 3 '''' sample_registry)"
  let ?s1 = "snd (persist ?s)"
  have p: "\<not> is_tmp (ro_StatePath (rg_opts sample_registry))" by code_simp
  have a: "rg_artifacts sample_registry = []" by (simp add: sample_registry_def registry.defs store.defs)
  have ok: "registry_ok ?s"
    by (rule setTarget_ok [OF p keeps_registry_no_change]) (simp_all add: registry_ok_def a, code_simp)
  have "rg_artifacts ?s = [(''app'', \<lparr>a_Key = sample_key, a_Version = ''1.0'', a_TargetHash = ''aa'',
      a_TargetSize = 3, a_UpdatedAt = 978307200000000000, a_Source = '''', a_History = []\<rparr>)]" by code_simp
  moreover have "time_in_range 978307200000000000" by code_simp
  ultimately have fits: "\<forall>k b. map_of (rg_artifacts ?s) k = Some b \<longrightarrow> artifact_fits b" "map_of (rg_artifacts ?s) ''app'' \<noteq> None"
    by (auto simp: artifact_fits_def int64_def)
  have "fst (persist ?s) = None" "ro_StatePath (rg_opts ?s) = ''/d/registry.json''" "faults ?s = []"
    "\<not> is_tmp ''/d/registry.json''" "ro_DefaultArtifact (rg_opts ?s) = ''''"
    "map_of (files ?s) ''/d/registry.json'' = map_of (files ?s1) ''/d/registry.json''" by code_simp+
  note e = this
  have "persist ?s = (None, ?s1)" using e(1) by (simp add: prod_eq_iff)
  from registry_survives_restart [OF ok fits(1) this e(2) _ e(4) e(6) e(3) e(2)] fits(2) show ?thesis
    by (auto simp: Let_def split: prod.splits)
qed

end
