(* ===== verification/Retention.thy ===== *)
theory Retention
  imports Registry
begin

text \<open>
  The sweeper of \<open>pkg/server/retention.go\<close>: it deletes transfers that can never be asked for again, the
  oldest transfers over a byte cap, and, when enabled, binaries that no artifact refers to. A sweep is one
  step over the state of the registry and the store; the sets of hashes it spares are read at its start, as
  in the code, and are arguments of the two passes. The counters of the metrics and the log are left out.
  Files with one modification time are ordered by name, which \<open>sort.Slice\<close> leaves open.
\<close>

section \<open>Options and results\<close>

record retention_options =
  rt_Interval :: int
  rt_DeltaMaxAge :: int
  rt_DeltasMaxTotalBytes :: int
  rt_CollectOrphanBinaries :: bool
  rt_OrphanBinaryMinAge :: int

record retention_stats =
  DeltasDeleted :: int
  FullsDeleted :: int
  BinariesDeleted :: int
  BytesReclaimed :: int
  Scanned :: int
  Duration :: int

definition zero_stats :: retention_stats where
  "zero_stats = \<lparr>DeltasDeleted = 0, FullsDeleted = 0, BinariesDeleted = 0, BytesReclaimed = 0, Scanned = 0, Duration = 0\<rparr>"

record candidate =
  cd_path :: string
  cd_size :: int
  cd_mtime :: int
  cd_kind :: string

definition NewRetention :: "retention_options \<Rightarrow> retention_options" where
  "NewRetention o1 =
     (let o2 = (if rt_Interval o1 \<le> 0 then o1\<lparr>rt_Interval := 6 * 3600 * 1000000000\<rparr> else o1)
      in if rt_OrphanBinaryMinAge o2 \<le> 0 then o2\<lparr>rt_OrphanBinaryMinAge := 24 * 3600 * 1000000000\<rparr> else o2)"

text \<open>\<open>Time.Sub\<close>: a difference of times, saturated to 64 bits.\<close>

definition time_Sub :: "int \<Rightarrow> int \<Rightarrow> int" where
  "time_Sub a b = max (- (2 ^ 63)) (min (2 ^ 63 - 1) (a - b))"

text \<open>The entries of a directory, with what the listing says of their type.\<close>

definition os_entries :: "string \<Rightarrow> 'z os_scheme \<Rightarrow> (err + (string \<times> bool) list) \<times> 'z os_scheme" where
  "os_entries dir w =
     (case os_ReadDir dir w of
        (Inl e, w) \<Rightarrow> (Inl e, w)
      | (Inr names, w) \<Rightarrow> (Inr (map (\<lambda>n. (n, map_of (files w) (path_join dir n) = Some EDir)) names), w))"

section \<open>Deletion\<close>

definition parseTransferName :: "string \<Rightarrow> (string \<times> string \<times> string) option" where
  "parseTransferName name =
     (case cut_suffix name ''.delta.zst'' of
        Some base \<Rightarrow>
          (case cut_at CHR ''_'' base of
             None \<Rightarrow> None
           | Some (f, t) \<Rightarrow> if \<not> IsValidHash f \<or> \<not> IsValidHash t then None else Some (''delta'', f, t))
      | None \<Rightarrow>
          (case cut_suffix name ''.full.zst'' of
             Some base \<Rightarrow> if \<not> IsValidHash base then None else Some (''full'', base, '''')
           | None \<Rightarrow> None))"

definition count_deleted :: "string \<Rightarrow> int \<Rightarrow> retention_stats \<Rightarrow> retention_stats" where
  "count_deleted kind sz st =
     (let st = st\<lparr>BytesReclaimed := wrap64 (BytesReclaimed st + sz)\<rparr>
      in if kind = ''delta'' then st\<lparr>DeltasDeleted := DeltasDeleted st + 1\<rparr>
         else if kind = ''full'' then st\<lparr>FullsDeleted := FullsDeleted st + 1\<rparr>
         else if kind = ''binary'' then st\<lparr>BinariesDeleted := BinariesDeleted st + 1\<rparr>
         else st)"

definition deleteFile ::
  "string \<Rightarrow> int \<Rightarrow> string \<Rightarrow> retention_stats \<Rightarrow> 'z os_scheme \<Rightarrow> (bool \<times> retention_stats) \<times> 'z os_scheme" where
  "deleteFile path sz kind st w =
     (case os_Remove path w of
        (Some e, w) \<Rightarrow> ((False, st), w)
      | (None, w) \<Rightarrow> ((True, count_deleted kind sz st), w))"

section \<open>Transfers\<close>

text \<open>The reason to delete a transfer at once.\<close>

definition delta_reason :: "retention_options \<Rightarrow> string set \<Rightarrow> string set \<Rightarrow> int \<Rightarrow> string \<times> string \<times> string \<Rightarrow> ent \<Rightarrow> string" where
  "delta_reason o1 live current now k info =
     (case k of (kind, f, t) \<Rightarrow>
       (let reason =
              (if kind = ''delta'' then
                 (if t \<notin> current then ''destination is no longer a current target''
                  else if f \<notin> live then ''source no longer in artifact history'' else '''')
               else if kind = ''full'' then
                 (if f \<notin> live then ''binary no longer referenced by any artifact'' else '''')
               else '''')
        in if reason = '''' \<and> 0 < rt_DeltaMaxAge o1 \<and> rt_DeltaMaxAge o1 < time_Sub now (ent_mtime info)
           then ''older than delta_max_age'' else reason))"

fun sweep_deltas_loop ::
  "retention_options \<Rightarrow> ctx \<Rightarrow> string set \<Rightarrow> string set \<Rightarrow> string \<Rightarrow> int \<Rightarrow> (string \<times> bool) list \<Rightarrow>
   retention_stats \<Rightarrow> candidate list \<Rightarrow> 'z os_scheme \<Rightarrow> (err option \<times> retention_stats \<times> candidate list) \<times> 'z os_scheme" where
  "sweep_deltas_loop o1 c live current dir now [] st keep w = ((None, st, keep), w)"
| "sweep_deltas_loop o1 c live current dir now ((name, isdir) # es) st keep w =
     (case ctx_Err c w of
        Some e \<Rightarrow> ((Some e, st, keep), w)
      | None \<Rightarrow>
          if isdir then sweep_deltas_loop o1 c live current dir now es st keep w
          else
            (case os_Lstat (path_join dir name) w of
               (Inl e, w) \<Rightarrow> sweep_deltas_loop o1 c live current dir now es st keep w
             | (Inr info, w) \<Rightarrow>
                 (let st = st\<lparr>Scanned := Scanned st + 1\<rparr>
                  in case parseTransferName name of
                       None \<Rightarrow> sweep_deltas_loop o1 c live current dir now es st keep w
                     | Some k \<Rightarrow>
                         if delta_reason o1 live current now k info \<noteq> '''' then
                           (case deleteFile (path_join dir name) (ent_size info) (fst k) st w of
                              ((b, st), w) \<Rightarrow> sweep_deltas_loop o1 c live current dir now es st keep w)
                         else
                           sweep_deltas_loop o1 c live current dir now es st
                             (keep @ [\<lparr>cd_path = path_join dir name, cd_size = ent_size info,
                                       cd_mtime = ent_mtime info, cd_kind = fst k\<rparr>]) w)))"

fun byte_cap_loop ::
  "retention_options \<Rightarrow> ctx \<Rightarrow> int \<Rightarrow> candidate list \<Rightarrow> retention_stats \<Rightarrow> 'z os_scheme \<Rightarrow>
   (err option \<times> retention_stats) \<times> 'z os_scheme" where
  "byte_cap_loop o1 c tot [] st w = ((None, st), w)"
| "byte_cap_loop o1 c tot (k # ks) st w =
     (if tot \<le> rt_DeltasMaxTotalBytes o1 then ((None, st), w)
      else
        (case ctx_Err c w of
           Some e \<Rightarrow> ((Some e, st), w)
         | None \<Rightarrow>
             (case deleteFile (cd_path k) (cd_size k) (cd_kind k) st w of
                ((b, st), w) \<Rightarrow>
                  byte_cap_loop o1 c (if b then wrap64 (tot - cd_size k) else tot) ks st w)))"

definition sizes_total :: "candidate list \<Rightarrow> int" where
  "sizes_total keep = fold (\<lambda>k n. wrap64 (n + cd_size k)) keep 0"

definition enforceByteCap ::
  "retention_options \<Rightarrow> ctx \<Rightarrow> candidate list \<Rightarrow> retention_stats \<Rightarrow> 'z os_scheme \<Rightarrow>
   (err option \<times> retention_stats) \<times> 'z os_scheme" where
  "enforceByteCap o1 c keep st w =
     (if rt_DeltasMaxTotalBytes o1 \<le> 0 then ((None, st), w)
      else
        (let tot = sizes_total keep
         in if tot \<le> rt_DeltasMaxTotalBytes o1 then ((None, st), w)
            else byte_cap_loop o1 c tot (sort_key cd_mtime keep) st w))"

definition sweepDeltas ::
  "retention_options \<Rightarrow> ctx \<Rightarrow> string set \<Rightarrow> string set \<Rightarrow> retention_stats \<Rightarrow> 'z store_scheme \<Rightarrow>
   (err option \<times> retention_stats) \<times> 'z store_scheme" where
  "sweepDeltas o1 c live current st s =
     (case os_entries (so_DeltasDir (st_opts s)) s of
        (Inl e, s) \<Rightarrow> ((Some (Wrap ''read deltas dir'' e), st), s)
      | (Inr es, s) \<Rightarrow>
          (case sweep_deltas_loop o1 c live current (so_DeltasDir (st_opts s)) (os_Now s) es st [] s of
             ((Some e, st, keep), s) \<Rightarrow> ((Some e, st), s)
           | ((None, st, keep), s) \<Rightarrow> enforceByteCap o1 c keep st s))"

section \<open>Binaries\<close>

fun sweep_binaries_loop ::
  "retention_options \<Rightarrow> ctx \<Rightarrow> string set \<Rightarrow> string \<Rightarrow> int \<Rightarrow> (string \<times> bool) list \<Rightarrow>
   retention_stats \<Rightarrow> 'z os_scheme \<Rightarrow> (err option \<times> retention_stats) \<times> 'z os_scheme" where
  "sweep_binaries_loop o1 c live dir now [] st w = ((None, st), w)"
| "sweep_binaries_loop o1 c live dir now ((name, isdir) # es) st w =
     (case ctx_Err c w of
        Some e \<Rightarrow> ((Some e, st), w)
      | None \<Rightarrow>
          if isdir then sweep_binaries_loop o1 c live dir now es st w
          else
            (case cut_suffix name ''.bin'' of
               None \<Rightarrow> sweep_binaries_loop o1 c live dir now es st w
             | Some hash \<Rightarrow>
                 if \<not> IsValidHash hash then sweep_binaries_loop o1 c live dir now es st w
                 else
                   (let st = st\<lparr>Scanned := Scanned st + 1\<rparr>
                    in if hash \<in> live then sweep_binaries_loop o1 c live dir now es st w
                       else
                         (case os_Lstat (path_join dir name) w of
                            (Inl e, w) \<Rightarrow> sweep_binaries_loop o1 c live dir now es st w
                          | (Inr info, w) \<Rightarrow>
                              if time_Sub now (ent_mtime info) < rt_OrphanBinaryMinAge o1
                              then sweep_binaries_loop o1 c live dir now es st w
                              else
                                (case deleteFile (path_join dir name) (ent_size info) ''binary'' st w of
                                   ((b, st), w) \<Rightarrow> sweep_binaries_loop o1 c live dir now es st w)))))"

definition sweepBinaries ::
  "retention_options \<Rightarrow> ctx \<Rightarrow> string set \<Rightarrow> retention_stats \<Rightarrow> 'z store_scheme \<Rightarrow>
   (err option \<times> retention_stats) \<times> 'z store_scheme" where
  "sweepBinaries o1 c live st s =
     (case os_entries (so_BinariesDir (st_opts s)) s of
        (Inl e, s) \<Rightarrow> ((Some (Wrap ''read binaries dir'' e), st), s)
      | (Inr es, s) \<Rightarrow> sweep_binaries_loop o1 c live (so_BinariesDir (st_opts s)) (os_Now s) es st s)"

section \<open>A sweep\<close>

definition sweep_passes ::
  "retention_options \<Rightarrow> ctx \<Rightarrow> string set \<Rightarrow> string set \<Rightarrow> 'z store_scheme \<Rightarrow>
   (err option \<times> retention_stats) \<times> 'z store_scheme" where
  "sweep_passes o1 c live current s =
     (case sweepDeltas o1 c live current zero_stats s of
        ((Some e, st), s) \<Rightarrow> ((Some e, st), s)
      | ((None, st), s) \<Rightarrow>
          if rt_CollectOrphanBinaries o1 then sweepBinaries o1 c live st s else ((None, st), s))"

definition Sweep ::
  "retention_options \<Rightarrow> ctx \<Rightarrow> 'z registry_scheme \<Rightarrow> (retention_stats \<times> err option) \<times> 'z registry_scheme" where
  "Sweep o1 c s =
     (let start = os_Now s; live = LiveHashes s; current = CurrentTargets s
      in case sweep_passes o1 c live current s of
           ((Some e, st), s) \<Rightarrow> ((st, Some e), s)
         | ((None, st), s) \<Rightarrow>
             (let s = (if DeltasDeleted st + FullsDeleted st + BinariesDeleted st > 0 then InvalidateHot s else s)
              in ((st\<lparr>Duration := time_Sub (os_Now s) start\<rparr>, None), s)))"

text \<open>The loop of \<open>Run\<close>, for at most \<open>n\<close> ticks; \<open>None\<close> says that it was still going after them. A sweep
  takes no time, so the ticks are one interval apart.\<close>

fun rt_Run :: "nat \<Rightarrow> retention_options \<Rightarrow> ctx \<Rightarrow> 'z registry_scheme \<Rightarrow> err option \<times> 'z registry_scheme" where
  "rt_Run 0 o1 c s = (None, s)"
| "rt_Run (Suc n) o1 c s =
     (case select_after c (rt_Interval o1) s of
        (Some e, s) \<Rightarrow> (Some e, s)
      | (None, s) \<Rightarrow> (case Sweep o1 c s of (r, s) \<Rightarrow> rt_Run n o1 c s))"

section \<open>What a sweep removes\<close>

text \<open>Nothing changes but paths of \<open>D\<close>, and those only vanish, on disk as well.\<close>

definition removes :: "string set \<Rightarrow> 'z os_scheme \<Rightarrow> 'z os_scheme \<Rightarrow> bool" where
  "removes D w w' \<longleftrightarrow>
     evolves D (\<lambda>q. if q \<in> D then {None} else {}) w w' \<and> same_rest w w' \<and>
     (\<forall>q. map_of (files w') q \<in> {map_of (files w) q, None})"

lemma removes_refl [simp]: "removes D w w"
  by (simp add: removes_def evolves_refl)

lemma removes_trans:
  assumes "removes D w1 w2" "removes D w2 w3"
  shows "removes D w1 w3"
proof -
  have "evolves D (\<lambda>q. if q \<in> D then {None} else {}) w1 w3" "same_rest w1 w3"
    using assms evolves_step [of D _ w1 w2 w3] same_rest_trans unfolding removes_def by blast+
  moreover have "map_of (files w3) q \<in> {map_of (files w1) q, None}" for q
    using assms unfolding removes_def by (metis insertE insertI1 insertI2 singletonD)
  ultimately show ?thesis by (simp only: removes_def simp_thms)
qed

lemma removes_same: "same_disk w w' \<and> same_rest w w' \<Longrightarrow> removes D w w'"
  by (auto simp: removes_def same_disk_def intro: evolves_same)

lemma removes_clock: "removes D w w' \<Longrightarrow> clock w' = clock w"
  by (simp add: removes_def same_rest_def)

lemma removes_some: "removes D w w' \<Longrightarrow> map_of (files w') q = Some e \<Longrightarrow> map_of (files w) q = Some e"
  unfolding removes_def by (metis insertE option.distinct(1) singletonD)

lemma os_Remove_removes:
  assumes "p \<in> D"
  shows "removes D w (snd (os_Remove p w))"
proof -
  obtain r w' where r: "os_Remove p w = (r, w')" by fastforce
  have "evolves D (\<lambda>q. if q \<in> D then {None} else {}) w w' \<and> same_rest w w'"
    by (rule os_Remove_evolves [OF r assms]) (simp add: assms)
  moreover have "map_of (files w') q \<in> {map_of (files w) q, None}" for q
    using r by (auto simp: os_Remove_def syscall_def unlink_at_def split: option.splits ent.splits if_splits)
  ultimately show ?thesis using r by (simp add: removes_def)
qed

lemma deleteFile_removes: "p \<in> D \<Longrightarrow> deleteFile p n k st w = (r, w') \<Longrightarrow> removes D w w'"
  using os_Remove_removes [of p D w] by (auto simp: deleteFile_def split: prod.splits option.splits)

lemma Lstat_info: "os_Lstat p w = (Inr info, w') \<Longrightarrow> map_of (files w) p = Some info"
  by (auto simp: os_Lstat_def syscall_def split: option.splits)

text \<open>The transfers and the binaries that a sweep may delete.\<close>

definition aged :: "int \<Rightarrow> int \<Rightarrow> tree \<Rightarrow> string \<Rightarrow> bool" where
  "aged age now fs q \<longleftrightarrow> (\<exists>e. map_of fs q = Some e \<and> age < time_Sub now (ent_mtime e))"

definition doomed_transfers ::
  "retention_options \<Rightarrow> string set \<Rightarrow> string set \<Rightarrow> int \<Rightarrow> store_options \<Rightarrow> tree \<Rightarrow> string set" where
  "doomed_transfers o1 live current now opts fs =
     {q. \<exists>f t. IsValidHash f \<and> IsValidHash t \<and> q = st_DeltaPath opts f t \<and>
           (t \<notin> current \<or> f \<notin> live \<or> 0 < rt_DeltaMaxAge o1 \<and> aged (rt_DeltaMaxAge o1) now fs q \<or> 0 < rt_DeltasMaxTotalBytes o1)} \<union>
     {q. \<exists>h. IsValidHash h \<and> q = FullPath opts h \<and>
           (h \<notin> live \<or> 0 < rt_DeltaMaxAge o1 \<and> aged (rt_DeltaMaxAge o1) now fs q \<or> 0 < rt_DeltasMaxTotalBytes o1)}"

definition doomed_binaries ::
  "retention_options \<Rightarrow> string set \<Rightarrow> int \<Rightarrow> store_options \<Rightarrow> tree \<Rightarrow> string set" where
  "doomed_binaries o1 live now opts fs =
     {q. \<exists>h. rt_CollectOrphanBinaries o1 \<and> IsValidHash h \<and> q = binaryPath opts h \<and> h \<notin> live \<and>
           aged (rt_OrphanBinaryMinAge o1 - 1) now fs q}"

lemma parseTransferName_Some:
  assumes "parseTransferName name = Some (k, f, t)"
  shows "IsValidHash f" "(k = ''delta'' \<and> IsValidHash t \<and> path_join (so_DeltasDir opts) name = st_DeltaPath opts f t) \<or>
    (k = ''full'' \<and> path_join (so_DeltasDir opts) name = FullPath opts f)"
  using assms
  by (auto simp: parseTransferName_def cut_suffix_Some_iff cut_at_Some st_DeltaPath_def FullPath_def
      split: option.splits if_splits)

lemma delta_reason_doomed:
  assumes "parseTransferName name = Some k" "map_of fs (path_join (so_DeltasDir opts) name) = Some info"
    and "delta_reason o1 live current now k info \<noteq> '''' \<or> 0 < rt_DeltasMaxTotalBytes o1"
  shows "path_join (so_DeltasDir opts) name \<in> doomed_transfers o1 live current now opts fs"
proof -
  obtain kind f t where k: "k = (kind, f, t)" by (metis prod_cases3)
  note n = parseTransferName_Some(1) [OF assms(1) [unfolded k]] parseTransferName_Some(2) [OF assms(1) [unfolded k], of opts]
  from assms(3) have "kind = ''delta'' \<and> (t \<notin> current \<or> f \<notin> live) \<or> kind = ''full'' \<and> f \<notin> live \<or>
    0 < rt_DeltaMaxAge o1 \<and> aged (rt_DeltaMaxAge o1) now fs (path_join (so_DeltasDir opts) name) \<or> 0 < rt_DeltasMaxTotalBytes o1"
    using assms(2) unfolding k delta_reason_def aged_def by (auto split: if_splits)
  with n show ?thesis unfolding doomed_transfers_def by auto
qed

lemma sweep_deltas_loop_removes:
  assumes "sweep_deltas_loop o1 c live current (so_DeltasDir opts) now es st keep w = ((r, st', keep'), w')"
    and "removes D s w" "D = doomed_transfers o1 live current now opts (files s)"
    and "0 < rt_DeltasMaxTotalBytes o1 \<longrightarrow> (\<forall>k \<in> set keep. cd_path k \<in> D)"
  shows "removes D s w' \<and> (0 < rt_DeltasMaxTotalBytes o1 \<longrightarrow> (\<forall>k \<in> set keep'. cd_path k \<in> D))"
  using assms(1,2,4)
proof (induction es arbitrary: st keep w)
  case (Cons e es)
  obtain name isdir where e: "e = (name, isdir)" by fastforce
  let ?p = "path_join (so_DeltasDir opts) name"
  let ?go = "sweep_deltas_loop o1 c live current (so_DeltasDir opts) now es"
  obtain r1 w1 where l: "os_Lstat ?p w = (r1, w1)" by fastforce
  have w1: "removes D s w1" using removes_trans [OF Cons.prems(2) removes_same] os_reads(2) [OF l] by blast
  show ?case
  proof (cases "ctx_Err c w = None \<and> \<not> isdir \<and> (\<exists>info k. r1 = Inr info \<and> parseTransferName name = Some k)")
    case False
    then consider "ctx_Err c w \<noteq> None" | "ctx_Err c w = None" "isdir" | x where "ctx_Err c w = None" "\<not> isdir" "r1 = Inl x"
      | info where "ctx_Err c w = None" "\<not> isdir" "r1 = Inr info" "parseTransferName name = None"
      by (cases r1; cases "parseTransferName name") auto
    then show ?thesis
    proof cases
      case 1
      then have "w' = w" "keep' = keep" using Cons.prems(1) unfolding e by auto
      with Cons.prems(2,3) show ?thesis by simp
    next
      case 2
      then have "?go st keep w = ((r, st', keep'), w')" using Cons.prems(1) unfolding e by simp
      from Cons.IH [OF this Cons.prems(2,3)] show ?thesis .
    next
      case 3
      then have "?go st keep w1 = ((r, st', keep'), w')" using Cons.prems(1) l unfolding e by simp
      from Cons.IH [OF this w1 Cons.prems(3)] show ?thesis .
    next
      case 4
      then have "?go (st\<lparr>Scanned := Scanned st + 1\<rparr>) keep w1 = ((r, st', keep'), w')"
        using Cons.prems(1) l unfolding e by (simp add: Let_def)
      from Cons.IH [OF this w1 Cons.prems(3)] show ?thesis .
    qed
  next
    case True
    then obtain info k where k: "r1 = Inr info" "parseTransferName name = Some k" and c: "ctx_Err c w = None" "\<not> isdir" by blast
    have info: "map_of (files s) ?p = Some info"
      using removes_some [OF Cons.prems(2) Lstat_info] l k(1) by blast
    note doom = delta_reason_doomed [OF k(2) info, of o1 live current now, folded assms(3)]
    show ?thesis
    proof (cases "delta_reason o1 live current now k info = ''''")
      case True
      let ?k = "\<lparr>cd_path = ?p, cd_size = ent_size info, cd_mtime = ent_mtime info, cd_kind = fst k\<rparr>"
      have "?go (st\<lparr>Scanned := Scanned st + 1\<rparr>) (keep @ [?k]) w1 = ((r, st', keep'), w')"
        using Cons.prems(1) c l k True unfolding e by (simp add: Let_def)
      from Cons.IH [OF this w1] Cons.prems(3) doom show ?thesis by simp
    next
      case False
      obtain b st2 w2 where d: "deleteFile ?p (ent_size info) (fst k) (st\<lparr>Scanned := Scanned st + 1\<rparr>) w1 = ((b, st2), w2)"
        by (metis surj_pair)
      have w2: "removes D s w2" using removes_trans [OF w1 deleteFile_removes [OF _ d]] doom False by blast
      have "?go st2 keep w2 = ((r, st', keep'), w')"
        using Cons.prems(1) c l k False d unfolding e by (simp add: Let_def)
      from Cons.IH [OF this w2 Cons.prems(3)] show ?thesis .
    qed
  qed
qed simp

lemma nested_pair: "\<exists>a b c d. x = ((a, b, c), d)"
  by (cases x) auto

lemma nested_pairE: "(\<And>a b c. x = ((a, b), c) \<Longrightarrow> P) \<Longrightarrow> P"
  by (cases x) auto

lemma byte_cap_loop_removes:
  "byte_cap_loop o1 c n ks st w = ((r, st'), w') \<Longrightarrow> \<forall>k \<in> set ks. cd_path k \<in> D \<Longrightarrow> removes D w w'"
proof (induction ks arbitrary: n st w)
  case (Cons k ks)
  obtain b st2 w2 where d: "deleteFile (cd_path k) (cd_size k) (cd_kind k) st w = ((b, st2), w2)" by (metis prod.collapse)
  have w2: "removes D w w2" using deleteFile_removes [OF _ d] Cons.prems(2) by simp
  show ?case
  proof (cases "n \<le> rt_DeltasMaxTotalBytes o1 \<or> ctx_Err c w \<noteq> None")
    case False
    then have "byte_cap_loop o1 c (if b then wrap64 (n - cd_size k) else n) ks st2 w2 = ((r, st'), w')"
      using Cons.prems(1) d by simp
    from Cons.IH [OF this] Cons.prems(2) removes_trans [OF w2] show ?thesis by simp
  qed (use Cons.prems(1) in \<open>auto split: if_splits\<close>)
qed simp

lemma sweepDeltas_removes:
  assumes "sweepDeltas o1 c live current st s = ((r, st'), s')"
  shows "removes (doomed_transfers o1 live current (clock s) (st_opts s) (files s)) s s'"
proof -
  let ?D = "doomed_transfers o1 live current (clock s) (st_opts s) (files s)"
  obtain r1 s1 where 1: "os_ReadDir (so_DeltasDir (st_opts s)) s = (r1, s1)" by fastforce
  note same = os_reads(5) [OF 1]
  then have s1: "removes ?D s s1" "clock s1 = clock s" "st_opts s1 = st_opts s"
    using removes_same [OF same] more_fields [of s1 s] by (auto simp: same_rest_def)
  show ?thesis
  proof (cases r1)
    case (Inr names)
    let ?es = "map (\<lambda>n. (n, map_of (files s1) (path_join (so_DeltasDir (st_opts s)) n) = Some EDir)) names"
    obtain r2 st2 keep s2 where 2: "sweep_deltas_loop o1 c live current (so_DeltasDir (st_opts s)) (clock s) ?es st [] s1 = ((r2, st2, keep), s2)"
      using nested_pair [of "sweep_deltas_loop o1 c live current (so_DeltasDir (st_opts s)) (clock s) ?es st [] s1"] by blast
    note d = sweep_deltas_loop_removes [OF 2 s1(1) refl]
    have eq: "((r, st'), s') = (case r2 of Some e \<Rightarrow> ((Some e, st2), s2) | None \<Rightarrow> enforceByteCap o1 c keep st2 s2)"
      using assms [symmetric] by (cases r2) (simp_all add: sweepDeltas_def os_entries_def 1 Inr 2 s1)
    show ?thesis
    proof (cases "r2 = None \<and> \<not> rt_DeltasMaxTotalBytes o1 \<le> 0 \<and> \<not> sizes_total keep \<le> rt_DeltasMaxTotalBytes o1")
      case True
      then have "byte_cap_loop o1 c (sizes_total keep) (sort_key cd_mtime keep) st2 s2 = ((r, st'), s')"
        using eq by (simp add: enforceByteCap_def)
      from byte_cap_loop_removes [OF this, of ?D] d True removes_trans show ?thesis by fastforce
    next
      case False
      then have "s' = s2" using eq by (cases r2) (simp_all add: enforceByteCap_def split: if_splits)
      with d show ?thesis by simp
    qed
  qed (use assms 1 s1 in \<open>auto simp: sweepDeltas_def os_entries_def\<close>)
qed

lemma sweep_binaries_loop_removes:
  assumes "sweep_binaries_loop o1 c live (so_BinariesDir opts) now es st w = ((r, st'), w')"
    and "removes D s w" "D = doomed_binaries o1 live now opts (files s)" "rt_CollectOrphanBinaries o1"
  shows "removes D s w'"
  using assms(1,2)
proof (induction es arbitrary: st w)
  case (Cons e es)
  obtain name isdir where e: "e = (name, isdir)" by fastforce
  let ?p = "path_join (so_BinariesDir opts) name"
  obtain r1 w1 where l: "os_Lstat ?p w = (r1, w1)" by fastforce
  have w1: "removes D s w1" using removes_trans [OF Cons.prems(2) removes_same] os_reads(2) [OF l] by blast
  show ?case
  proof (cases "ctx_Err c w \<noteq> None \<or> isdir \<or> \<not> (\<exists>h. cut_suffix name ''.bin'' = Some h \<and> IsValidHash h)")
    case True
    then consider "ctx_Err c w \<noteq> None" | "\<exists>st2. sweep_binaries_loop o1 c live (so_BinariesDir opts) now es st2 w = ((r, st'), w')"
      using Cons.prems(1) unfolding e by (cases "cut_suffix name ''.bin''") (auto split: option.splits if_splits)
    then show ?thesis
      using Cons.prems Cons.IH unfolding e by cases auto
  next
    case False
    then obtain h where h: "cut_suffix name ''.bin'' = Some h" "IsValidHash h" and c: "ctx_Err c w = None" "\<not> isdir" by auto
    have p: "?p = binaryPath opts h" using h(1) by (simp add: cut_suffix_Some_iff binaryPath_def)
    let ?go = "\<lambda>st w. sweep_binaries_loop o1 c live (so_BinariesDir opts) now es st w"
    let ?st = "st\<lparr>Scanned := Scanned st + 1\<rparr>"
    consider "h \<in> live" | x where "h \<notin> live" "r1 = Inl x" | info where "h \<notin> live" "r1 = Inr info"
      by (cases r1) auto
    then show ?thesis
    proof cases
      case 1
      then have "?go ?st w = ((r, st'), w')" using Cons.prems(1) h c unfolding e by (simp add: Let_def)
      from Cons.IH [OF this Cons.prems(2)] show ?thesis .
    next
      case 2
      then have "?go ?st w1 = ((r, st'), w')" using Cons.prems(1) h c l unfolding e by (simp add: Let_def)
      from Cons.IH [OF this w1] show ?thesis .
    next
      case 3
      have info: "map_of (files s) ?p = Some info" using removes_some [OF Cons.prems(2) Lstat_info] l 3(2) by blast
      show ?thesis
      proof (cases "time_Sub now (ent_mtime info) < rt_OrphanBinaryMinAge o1")
        case True
        then have "?go ?st w1 = ((r, st'), w')" using Cons.prems(1) h c l 3 unfolding e by (simp add: Let_def)
        from Cons.IH [OF this w1] show ?thesis .
      next
        case False
        then have "?p \<in> D"
          using info h(2) 3(1) assms(4) p unfolding assms(3) doomed_binaries_def aged_def by auto
        obtain b st2 w2 where d: "deleteFile ?p (ent_size info) ''binary'' ?st w1 = ((b, st2), w2)" by (metis surj_pair)
        have w2: "removes D s w2" using removes_trans [OF w1 deleteFile_removes [OF \<open>?p \<in> D\<close> d]] .
        have "?go st2 w2 = ((r, st'), w')" using Cons.prems(1) h c l 3 False d unfolding e by (simp add: Let_def)
        from Cons.IH [OF this w2] show ?thesis .
      qed
    qed
  qed
qed simp

lemma sweepBinaries_removes:
  assumes "sweepBinaries o1 c live st s = ((r, st'), s')" "rt_CollectOrphanBinaries o1"
  shows "removes (doomed_binaries o1 live (clock s) (st_opts s) (files s)) s s'"
proof -
  obtain r1 s1 where 1: "os_ReadDir (so_BinariesDir (st_opts s)) s = (r1, s1)" by fastforce
  note same = os_reads(5) [OF 1]
  then have s1: "clock s1 = clock s" "st_opts s1 = st_opts s"
    using more_fields [of s1 s] by (auto simp: same_rest_def)
  show ?thesis
  proof (cases r1)
    case (Inr names)
    have "\<exists>es. sweep_binaries_loop o1 c live (so_BinariesDir (st_opts s)) (clock s) es st s1 = ((r, st'), s')"
      using assms(1) by (simp add: sweepBinaries_def os_entries_def 1 Inr s1) blast
    with sweep_binaries_loop_removes [OF _ removes_same [OF same] refl assms(2)] show ?thesis by blast
  qed (use assms 1 removes_same [OF same] in \<open>simp add: sweepBinaries_def os_entries_def\<close>)
qed

text \<open>What is doomed in a tree that only lost entries was doomed before.\<close>

lemma doomed_mono:
  assumes "\<forall>q. map_of (files w') q \<in> {map_of (files w) q, None}"
  shows "doomed_binaries o1 live now opts (files w') \<subseteq> doomed_binaries o1 live now opts (files w)"
  using assms unfolding doomed_binaries_def aged_def by (auto, metis option.distinct(1))

lemma removes_mono:
  assumes "removes D w w'" "D \<subseteq> E"
  shows "removes E w w'"
proof -
  have "evolves E (\<lambda>q. if q \<in> E then {None} else {}) w w'"
    by (rule evolves_mono [of D "\<lambda>q. if q \<in> D then {None} else {}"]) (use assms in \<open>auto simp: removes_def\<close>)
  with assms(1) show ?thesis by (simp only: removes_def simp_thms)
qed

definition doomed :: "retention_options \<Rightarrow> 'z registry_scheme \<Rightarrow> string set" where
  "doomed o1 s =
     doomed_transfers o1 (LiveHashes s) (CurrentTargets s) (clock s) (st_opts s) (files s) \<union>
     doomed_binaries o1 (LiveHashes s) (clock s) (st_opts s) (files s)"

lemma removes_opts: "removes D s s' \<Longrightarrow> st_opts s' = st_opts s"
  using more_fields [of s' s] by (simp add: removes_def same_rest_def)

lemma sweep_passes_removes:
  fixes s :: "'z registry_scheme"
  assumes "sweep_passes o1 c (LiveHashes s) (CurrentTargets s) s = ((r, st'), s')"
  shows "removes (doomed o1 s) s s'"
proof -
  obtain r1 st1 s1 where 1: "sweepDeltas o1 c (LiveHashes s) (CurrentTargets s) zero_stats s = ((r1, st1), s1)" by (metis surj_pair)
  note d = sweepDeltas_removes [OF 1]
  have s1: "removes (doomed o1 s) s s1" by (rule removes_mono [OF d]) (simp add: doomed_def)
  show ?thesis
  proof (cases "r1 = None \<and> rt_CollectOrphanBinaries o1")
    case True
    then have "sweepBinaries o1 c (LiveHashes s) st1 s1 = ((r, st'), s')" using assms 1 by (simp add: sweep_passes_def)
    from sweepBinaries_removes [OF this] True
    have "removes (doomed_binaries o1 (LiveHashes s) (clock s1) (st_opts s1) (files s1)) s1 s'" by blast
    moreover have "doomed_binaries o1 (LiveHashes s) (clock s1) (st_opts s1) (files s1) \<subseteq> doomed o1 s"
      using doomed_mono [of s1 s o1 "LiveHashes s" "clock s" "st_opts s"] s1 removes_clock [OF d] removes_opts [OF d]
      by (auto simp: doomed_def removes_def)
    ultimately show ?thesis using removes_trans [OF s1 removes_mono] by blast
  next
    case False
    then have "s' = s1" using assms 1 by (auto simp: sweep_passes_def split: option.splits)
    with s1 show ?thesis by simp
  qed
qed

lemma Sweep_result:
  assumes "Sweep o1 c s = ((st, e), s')"
  shows "\<exists>s1. removes (doomed o1 s) s s1 \<and> (s' = s1 \<or> s' = InvalidateHot s1)"
proof -
  obtain r1 st1 s1 where 1: "sweep_passes o1 c (LiveHashes s) (CurrentTargets s) s = ((r1, st1), s1)" by (metis surj_pair)
  have "s' = s1 \<or> s' = InvalidateHot s1"
    using assms 1 by (cases r1) (auto simp: Sweep_def Let_def split: if_splits)
  with sweep_passes_removes [OF 1] show ?thesis by blast
qed

text \<open>A sweep is one more operation that keeps the promise of the store.\<close>

lemma doomed_store_paths: "doomed o1 s \<subseteq> {q. store_path (st_opts s) q}"
  unfolding doomed_def doomed_transfers_def doomed_binaries_def store_path_def by blast

lemma Sweep_keeps: "keeps L s (snd (Sweep o1 c s))"
proof -
  obtain st e s' where sw: "Sweep o1 c s = ((st, e), s')" by (metis surj_pair)
  obtain s1 where r: "removes (doomed o1 s) s s1" and s': "s' = s1 \<or> s' = InvalidateHot s1" using Sweep_result [OF sw] by blast
  have "store_ok L s \<Longrightarrow> keeps L s s1"
  proof -
    assume ok: "store_ok L s"
    have "evolves (tmps \<union> {q. store_path (st_opts s) q}) (allowed L (st_opts s)) s s1"
    proof (rule evolves_mono)
      show "evolves (doomed o1 s) (\<lambda>q. if q \<in> doomed o1 s then {None} else {}) s s1" using r by (simp add: removes_def)
      show "doomed o1 s \<subseteq> tmps \<union> {q. store_path (st_opts s) q}" using doomed_store_paths by blast
      show "(if q \<in> doomed o1 s then {None} else {}) \<subseteq> allowed L (st_opts s) q" for q
        using doomed_store_paths [of o1 s] by (auto simp: allowed_def)
    qed
    from keeps_disk [OF this] r show ?thesis by (simp add: removes_def)
  qed
  then have "keeps L s s1" by (auto simp: keeps_def)
  with s' show ?thesis unfolding sw using keeps_trans [OF _ InvalidateHot_keeps] by auto
qed

section \<open>A sweep that meets no error\<close>

lemma deleteFile_quiet:
  assumes "faults w = []" "map_of (files w) p = Some (EFile cn m t sy)" "deleteFile p n k st w = (r, w')"
  shows "map_of (files w') p = None" "faults w' = []"
  using assms by (auto simp: deleteFile_def os_Remove_def syscall_def fault_def tick_def unlink_at_def)

lemma quiet_calls:
  "faults w = [] \<Longrightarrow> os_Lstat p w = (r1, w1) \<Longrightarrow> faults w1 = []"
  "faults w = [] \<Longrightarrow> deleteFile p n k st w = (r2, w2) \<Longrightarrow> faults w2 = []"
  "faults w = [] \<Longrightarrow> os_ReadDir p w = (r3, w3) \<Longrightarrow> faults w3 = []"
  by (auto simp: os_Lstat_def os_ReadDir_def deleteFile_def os_Remove_def syscall_def fault_def tick_def unlink_at_def
      split: option.splits ent.splits if_splits prod.splits)

lemma ctx_none [simp]: "ctx_Err None w = None"
  by (simp add: ctx_Err_def)

lemma sweep_deltas_loop_quiet:
  "sweep_deltas_loop o1 None live current dir now es st keep w = ((r, st', keep'), w') \<Longrightarrow> faults w = [] \<Longrightarrow>
   r = None \<and> faults w' = []"
proof (induction es arbitrary: st keep w)
  case (Cons e es)
  obtain name isdir where e: "e = (name, isdir)" by fastforce
  obtain r1 w1 where l: "os_Lstat (path_join dir name) w = (r1, w1)" by fastforce
  have w1: "faults w1 = []" using quiet_calls(1) [OF Cons.prems(2) l] .
  obtain b st2 w2 where d: "deleteFile (path_join dir name) (case r1 of Inr i \<Rightarrow> ent_size i)
      (case parseTransferName name of Some k \<Rightarrow> fst k) (st\<lparr>Scanned := Scanned st + 1\<rparr>) w1 = ((b, st2), w2)"
    by (metis surj_pair)
  have w2: "faults w2 = []" using quiet_calls(2) [OF w1 d] .
  have "\<exists>st3 keep3 w3. sweep_deltas_loop o1 None live current dir now es st3 keep3 w3 = ((r, st', keep'), w') \<and> w3 \<in> {w, w1, w2}"
    using Cons.prems(1) l d unfolding e
    by (cases isdir; cases r1; cases "parseTransferName name") (auto simp: Let_def split: if_splits)
  then show ?case using Cons.IH Cons.prems(2) w1 w2 by blast
qed simp

lemma byte_cap_loop_quiet:
  "byte_cap_loop o1 None n ks st w = ((r, st'), w') \<Longrightarrow> faults w = [] \<Longrightarrow> r = None \<and> faults w' = []"
proof (induction ks arbitrary: n st w)
  case (Cons k ks)
  obtain b st2 w2 where d: "deleteFile (cd_path k) (cd_size k) (cd_kind k) st w = ((b, st2), w2)" by (metis surj_pair)
  show ?case
  proof (cases "n \<le> rt_DeltasMaxTotalBytes o1")
    case False
    then have "byte_cap_loop o1 None (if b then wrap64 (n - cd_size k) else n) ks st2 w2 = ((r, st'), w')"
      using Cons.prems(1) d by simp
    from Cons.IH [OF this quiet_calls(2) [OF Cons.prems(2) d]] show ?thesis .
  qed (use Cons.prems in auto)
qed simp

lemma os_entries_quiet:
  assumes "faults w = []" "is_dir w d"
  shows "os_entries d w = (Inr (map (\<lambda>n. (n, map_of (files w) (path_join d n) = Some EDir)) (sort (children (files w) (path_clean d)))), tick w)"
  using assms by (simp add: os_entries_def os_ReadDir_def syscall_def fault_def)

lemma sweepDeltas_quiet:
  assumes "sweepDeltas o1 None live current st s = ((r, st'), s')" "faults s = []" "is_dir s (so_DeltasDir (st_opts s))"
  shows "r = None \<and> faults s' = []"
proof -
  obtain es where 1: "os_entries (so_DeltasDir (st_opts s)) s = (Inr es, tick s)" using os_entries_quiet [OF assms(2,3)] by blast
  obtain r2 st2 keep s2 where 2: "sweep_deltas_loop o1 None live current (so_DeltasDir (st_opts (tick s))) (clock s) es st [] (tick s) = ((r2, st2, keep), s2)"
    using nested_pair [of "sweep_deltas_loop o1 None live current (so_DeltasDir (st_opts (tick s))) (clock s) es st [] (tick s)"] by blast
  have f: "faults (tick s) = []" using assms(2) by (simp add: tick_def)
  from sweep_deltas_loop_quiet [OF 2 f] have s2: "r2 = None" "faults s2 = []" by auto
  then have "enforceByteCap o1 None keep st2 s2 = ((r, st'), s')"
    using assms(1) 1 2 by (simp add: sweepDeltas_def)
  then show ?thesis using s2(2) by (auto simp: enforceByteCap_def Let_def split: if_splits dest: byte_cap_loop_quiet)
qed

lemma sweep_binaries_loop_deletes:
  "sweep_binaries_loop o1 None live dir now es st w = ((r, st'), w') \<Longrightarrow> faults w = [] \<Longrightarrow>
   (h @ ''.bin'', False) \<in> set es \<or> map_of (files w) p = None \<Longrightarrow> p = path_join dir (h @ ''.bin'') \<Longrightarrow> IsValidHash h \<Longrightarrow> h \<notin> live \<Longrightarrow>
   map_of (files w) p \<in> {Some (EFile cn m t sy), None} \<Longrightarrow> \<not> time_Sub now t < rt_OrphanBinaryMinAge o1 \<Longrightarrow>
   map_of (files w') p = None"
proof (induction es arbitrary: st w)
  case (Cons e es)
  obtain name isdir where e: "e = (name, isdir)" by fastforce
  let ?q = "path_join dir name"
  let ?st = "st\<lparr>Scanned := Scanned st + 1\<rparr>"
  let ?go = "\<lambda>st w. sweep_binaries_loop o1 None live dir now es st w"
  obtain r1 w1 where l: "os_Lstat ?q w = (r1, w1)" by fastforce
  have w1: "faults w1 = []" "files w1 = files w" using quiet_calls(1) [OF Cons.prems(2) l] os_reads(2) [OF l] by (auto simp: same_disk_def)
  obtain b st2 w2 where d: "deleteFile ?q (case r1 of Inr i \<Rightarrow> ent_size i) ''binary'' ?st w1 = ((b, st2), w2)" by (metis surj_pair)
  have w2: "faults w2 = []" using quiet_calls(2) [OF w1(1) d] .
  have m2: "map_of (files w2) q \<in> {map_of (files w1) q, None}" for q
    using deleteFile_removes [OF UNIV_I d] unfolding removes_def by blast
  show ?case
  proof (cases "e = (h @ ''.bin'', False) \<and> map_of (files w) p \<noteq> None")
    case True
    then have q: "?q = p" "map_of (files w) p = Some (EFile cn m t sy)" "\<not> isdir" "cut_suffix name ''.bin'' = Some h"
      using Cons.prems(4,7) e by auto
    have r1: "r1 = Inr (EFile cn m t sy)" using l q(1,2) Cons.prems(2) by (auto simp: os_Lstat_def syscall_def fault_def)
    have "map_of (files w2) p = None" using deleteFile_quiet(1) [OF w1(1) _ d, of cn m t sy] q w1(2) by simp
    moreover have "?go st2 w2 = ((r, st'), w')"
      using Cons.prems(1,5,6,8) q l r1 d unfolding e by (simp add: Let_def)
    ultimately show ?thesis using Cons.IH [of st2 w2] w2 Cons.prems by blast
  next
    case False
    have "\<exists>st3 w3. ?go st3 w3 = ((r, st'), w') \<and> w3 \<in> {w, w1, w2}"
      using Cons.prems(1) l d unfolding e
      by (cases isdir; cases "cut_suffix name ''.bin''"; cases r1) (auto simp: Let_def split: if_splits)
    then obtain st3 w3 where g: "?go st3 w3 = ((r, st'), w')" "w3 \<in> {w, w1, w2}" by blast
    have f3: "faults w3 = []" using g(2) Cons.prems(2) w1(1) w2 by blast
    have m3: "map_of (files w3) p = map_of (files w) p \<or> map_of (files w3) p = None" using g(2) m2 [of p] w1(2) by auto
    have in3: "(h @ ''.bin'', False) \<in> set es \<or> map_of (files w3) p = None" using False Cons.prems(3) m3 by auto
    have v3: "map_of (files w3) p \<in> {Some (EFile cn m t sy), None}" using m3 Cons.prems(7) by auto
    show ?thesis by (rule Cons.IH [OF g(1) f3 in3 Cons.prems(4-6) v3 Cons.prems(8)])
  qed
qed simp

lemma path_join_not_clean:
  assumes "d \<noteq> ''''" "path_seg n"
  shows "path_join d n \<noteq> path_clean d"
proof
  assume eq: "path_join d n = path_clean d"
  have "normal_stack (is_abs d) (n # clean_stack d)"
    using normal_clean_stack [of d] assms(2) by (auto simp: path_seg_def)
  from clean_render(3) [OF this] have "clean_stack (path_join d n) = n # clean_stack d"
    by (simp add: path_join_render [OF assms])
  moreover have "clean_stack (path_clean d) = clean_stack d"
  proof (cases "clean_stack d = []")
    case True
    have "clean_stack ''/'' = []" "clean_stack ''.'' = []" by code_simp+
    with True assms(1) show ?thesis by (simp add: path_clean_def render_def)
  next
    case False
    from clean_render(3) [OF normal_clean_stack this] show ?thesis using assms(1) by (simp add: path_clean_def)
  qed
  ultimately show False using eq by simp
qed

lemma children_join:
  assumes "map_of fs (path_join d n) = Some e" "d \<noteq> ''''" "path_seg n"
  shows "n \<in> set (children fs (path_clean d))"
proof -
  have m: "(path_join d n, e) \<in> set fs" using assms(1) by (rule map_of_SomeD)
  have "path_join d n \<noteq> path_clean d" using path_join_not_clean assms(2,3) by blast
  with m assms(2,3) show ?thesis
    by (force simp: children_def path_dir_join path_base_join)
qed

lemma Sweep_deletes_orphan:
  assumes "Sweep o1 None s = ((st, e), s')" "faults s = []" "so_BinariesDir (st_opts s) \<noteq> ''''" "so_DeltasDir (st_opts s) \<noteq> ''''"
    and "is_dir s (so_BinariesDir (st_opts s))" "is_dir s (so_DeltasDir (st_opts s))"
    and "map_of (files s) (binaryPath (st_opts s) h) = Some (EFile cn m t sy)" "IsValidHash h" "h \<notin> LiveHashes s"
    and "rt_CollectOrphanBinaries o1" "rt_OrphanBinaryMinAge o1 \<le> time_Sub (clock s) t"
    and "\<not> store_path (st_opts s) (so_BinariesDir (st_opts s))"
  shows "map_of (files s') (binaryPath (st_opts s) h) = None"
proof -
  let ?p = "binaryPath (st_opts s) h"
  obtain r1 st1 s1 where 1: "sweepDeltas o1 None (LiveHashes s) (CurrentTargets s) zero_stats s = ((r1, st1), s1)" by (metis surj_pair)
  have q1: "r1 = None" "faults s1 = []" using sweepDeltas_quiet [OF 1 assms(2,6)] by auto
  note d = sweepDeltas_removes [OF 1]
  have "?p \<notin> doomed_transfers o1 (LiveHashes s) (CurrentTargets s) (clock s) (st_opts s) (files s)"
    using store_path_inj(4,5) [OF assms(3,4) assms(8)] unfolding doomed_transfers_def by blast
  then have f1: "map_of (files s1) ?p = Some (EFile cn m t sy)" using d assms(7) by (simp add: removes_def evolves_def)
  have o1: "st_opts s1 = st_opts s" "clock s1 = clock s" using removes_opts [OF d] removes_clock [OF d] by auto
  have "doomed_transfers o1 (LiveHashes s) (CurrentTargets s) (clock s) (st_opts s) (files s) \<subseteq> doomed o1 s" by (simp add: doomed_def)
  then have "so_BinariesDir (st_opts s) \<notin> doomed_transfers o1 (LiveHashes s) (CurrentTargets s) (clock s) (st_opts s) (files s)"
    using doomed_store_paths assms(12) by blast
  then have dir1: "is_dir s1 (so_BinariesDir (st_opts s))"
    using assms(5) d by (simp add: is_dir_def removes_def evolves_def)
  let ?es = "map (\<lambda>n. (n, map_of (files s1) (path_join (so_BinariesDir (st_opts s)) n) = Some EDir))
    (sort (children (files s1) (path_clean (so_BinariesDir (st_opts s)))))"
  obtain r2 st2 s2 where 2: "sweep_binaries_loop o1 None (LiveHashes s) (so_BinariesDir (st_opts s)) (clock s) ?es st1 (tick s1) = ((r2, st2), s2)"
    by (rule nested_pairE)
  have p: "?p = path_join (so_BinariesDir (st_opts s)) (h @ ''.bin'')" by (simp add: binaryPath_def)
  have "h @ ''.bin'' \<in> set (children (files s1) (path_clean (so_BinariesDir (st_opts s))))"
    using children_join f1 assms(3) IsValidHash_seg(1) [OF assms(8)] unfolding p by blast
  then have "(h @ ''.bin'', False) \<in> set ?es" using f1 unfolding p by force
  then have listed: "(h @ ''.bin'', False) \<in> set ?es \<or> map_of (files (tick s1)) ?p = None" by blast
  have "faults (tick s1) = []" "map_of (files (tick s1)) ?p \<in> {Some (EFile cn m t sy), None}"
    "\<not> time_Sub (clock s) t < rt_OrphanBinaryMinAge o1" using q1(2) f1 assms(11) by simp_all
  note f2 = sweep_binaries_loop_deletes [OF 2 this(1) listed p assms(8,9) this(2,3)]
  have sb: "sweepBinaries o1 None (LiveHashes s) st1 s1 = ((r2, st2), s2)"
  proof -
    have "st_opts (tick s1) = st_opts s1" using more_fields [of "tick s1" s1] by simp
    with 2 os_entries_quiet [OF q1(2) dir1] show ?thesis by (simp only: sweepBinaries_def o1 tick_simps prod.case sum.case)
  qed
  have "files s' = files s2"
    using assms(1,10) 1 q1(1) sb
    by (cases r2) (auto simp: Sweep_def sweep_passes_def Let_def InvalidateHot_def split: if_splits)
  with f2 show ?thesis by simp
qed

section \<open>Properties\<close>



text \<open>Two binaries, of which one is published, and a sweep that finds both past the grace period.\<close>

definition sample_retention :: retention_options where
  "sample_retention = \<lparr>rt_Interval = 1, rt_DeltaMaxAge = 0, rt_DeltasMaxTotalBytes = 0, rt_CollectOrphanBinaries = True,
     rt_OrphanBinaryMinAge = 50\<rparr>"

definition sample_new :: string where "sample_new = sha256HexBytes sample_lib ''new''"
definition sample_old :: string where "sample_old = sha256HexBytes sample_lib ''old''"

definition sample_stocked :: registry where
  "sample_stocked = sample_registry
     \<lparr>files := [(''/'', EDir), (''/b'', EDir), (''/d'', EDir),
                (binaryPath sample_store_options sample_new, EFile (Raw ''new'') 420 0 True),
                (binaryPath sample_store_options sample_old, EFile (Raw ''old'') 420 0 True)],
      faults := [], clock := 100, missCache := [], st_opts := sample_store_options,
      rg_artifacts := [(''app'', \<lparr>a_Key = sample_key, a_Version = ''1.0'', a_TargetHash = sample_new, a_TargetSize = 3,
                                  a_UpdatedAt = 0, a_Source = '''', a_History = []\<rparr>)]\<rparr>"

lemma sample_stocked_facts:
  "IsValidHash sample_new" "IsValidHash sample_old" "sample_new \<noteq> sample_old"
  "so_BinariesDir (st_opts sample_stocked) = ''/b''" "so_DeltasDir (st_opts sample_stocked) = ''/d''"
  "st_opts sample_stocked = sample_store_options" "faults sample_stocked = []" "clock sample_stocked = 100"
  "is_dir sample_stocked ''/b''" "is_dir sample_stocked ''/d''" "missCache sample_stocked = []"
  "LiveHashes sample_stocked = {sample_new}"
  "map_of (files sample_stocked) (binaryPath sample_store_options sample_new) = Some (EFile (Raw ''new'') 420 0 True)"
  "map_of (files sample_stocked) (binaryPath sample_store_options sample_old) = Some (EFile (Raw ''old'') 420 0 True)"
  "\<not> store_path sample_store_options ''/b''"
proof -
  show v: "IsValidHash sample_new" "IsValidHash sample_old" unfolding sample_new_def sample_old_def by (rule sample_hash)+
  show ne: "sample_new \<noteq> sample_old" by code_simp
  have dirs: "so_BinariesDir sample_store_options = ''/b''" "so_DeltasDir sample_store_options = ''/d''"
    by (simp_all add: sample_store_options_def)
  then show "so_BinariesDir (st_opts sample_stocked) = ''/b''" "so_DeltasDir (st_opts sample_stocked) = ''/d''"
    by (simp_all add: sample_stocked_def)
  show "st_opts sample_stocked = sample_store_options" "faults sample_stocked = []" "clock sample_stocked = 100"
    "is_dir sample_stocked ''/b''" "is_dir sample_stocked ''/d''" "missCache sample_stocked = []"
    by (simp_all add: sample_stocked_def is_dir_def)
  have "sample_new \<noteq> ''''" using IsValidHash_length [OF v(1)] by auto
  then show "LiveHashes sample_stocked = {sample_new}" by (simp add: sample_stocked_def LiveHashes_def)
  have long: "\<not> store_path sample_store_options q" if "length (path_base q) \<le> 64" for q
    using store_path_long [of sample_store_options q] that dirs by auto
  show "\<not> store_path sample_store_options ''/b''" by (rule long) code_simp
  have short: "length (path_base ''/'') \<le> 64" "length (path_base ''/b'') \<le> 64" "length (path_base ''/d'') \<le> 64" by code_simp+
  have p: "binaryPath sample_store_options h \<notin> {''/'', ''/b'', ''/d''}" if "IsValidHash h" for h
    using path_cases(1) [OF that, of sample_store_options] long short by (metis empty_iff insertE)
  have "binaryPath sample_store_options sample_old \<noteq> binaryPath sample_store_options sample_new"
    using store_path_inj(1) [OF _ _ v(2,1)] ne dirs by fastforce
  then show "map_of (files sample_stocked) (binaryPath sample_store_options sample_new) = Some (EFile (Raw ''new'') 420 0 True)"
    "map_of (files sample_stocked) (binaryPath sample_store_options sample_old) = Some (EFile (Raw ''old'') 420 0 True)"
    using p [OF v(1)] p [OF v(2)] by (simp_all add: sample_stocked_def)
qed


text \<open>C35. The grace period does not protect every publication. It is measured from the modification time of
  the file, and registering bytes that are already in the store does not write the file again: when an old
  binary that no artifact refers to is published anew, and a sweep falls between the registration and the
  new target, the binary is deleted, and the artifact is left with a target that the store does not have.\<close>

theorem grace_period_misses_old_binary:
  assumes "so_BinariesDir (st_opts s) \<noteq> ''''" "so_DeltasDir (st_opts s) \<noteq> ''''" "faults s = []"
    and "is_dir s (so_BinariesDir (st_opts s))" "is_dir s (so_DeltasDir (st_opts s))"
    and "\<not> store_path (st_opts s) (so_BinariesDir (st_opts s))"
    and "h = sha256HexBytes L data" "IsValidHash h" "h \<notin> LiveHashes s" "map_of (missCache s) h = None"
    and "map_of (files s) (binaryPath (st_opts s) h) = Some (EFile cn m t sy)"
    and "rt_CollectOrphanBinaries o1" "rt_OrphanBinaryMinAge o1 \<le> time_Sub (clock s) t"
    and "\<not> is_tmp (ro_StatePath (rg_opts s))" "\<not> store_path (st_opts s) (ro_StatePath (rg_opts s))"
    and "keeps_registry oc" "\<forall>k s. files (oc k s) = files s \<and> st_opts (oc k s) = st_opts s"
    and "RegisterBinary L data s = (r, s1)" "Sweep o1 None s1 = (q, s2)"
    and "s3 = snd (setTarget oc key v h (int (length data)) '''' s2)"
  shows "r = Inr h \<and> fst (HasBinary h s1) \<and> IsCurrentTarget h s3 \<and> \<not> fst (HasBinary h s3)"
proof -
  let ?p = "binaryPath (st_opts s) h"
  have s1: "r = Inr h" "s1 = invalidateMissCache (tick s)"
    using assms(18) assms(3,7,11) by (auto simp: RegisterBinary_def Let_def os_Stat_def)
  have t1: "files s1 = files s" "faults s1 = []" "st_opts s1 = st_opts s" "clock s1 = clock s" "missCache s1 = []"
    "rg_artifacts s1 = rg_artifacts s" "rg_opts s1 = rg_opts s"
    using assms(3) by (simp_all add: s1 invalidateMissCache_def tick_def)
  have live: "LiveHashes s1 = LiveHashes s" by (simp add: LiveHashes_def t1)
  have has: "fst (HasBinary h s1)" using HasBinary_stat [of s1 h "(?p, EFile cn m t sy)"] t1 assms(11) by simp
  obtain st e where q: "q = (st, e)" by fastforce
  have d: "is_dir s1 d = is_dir s d" for d by (simp add: is_dir_def t1)
  have gone: "map_of (files s2) ?p = None"
    using Sweep_deletes_orphan [OF assms(19) [unfolded q] t1(2)] assms(1,2,4-6,8,9,11-13) by (simp add: t1 live d)
  obtain x where x: "removes (doomed o1 s1) s1 x" "s2 = x \<or> s2 = InvalidateHot x" using Sweep_result [OF assms(19) [unfolded q]] by blast
  have s2: "st_opts s2 = st_opts s" "rg_opts s2 = rg_opts s"
    using x removes_opts [OF x(1)] registry_more [of x s1] t1 by (auto simp: InvalidateHot_def removes_def same_rest_def)
  have tmp: "\<not> is_tmp (ro_StatePath (rg_opts s2))" using assms(14) by (simp add: s2)
  have cur: "IsCurrentTarget h s3"
    using setTarget_artifacts(1) [OF tmp assms(16), of key v h "int (length data)" "''''"]
      map_of_SomeD [of "rg_artifacts s3" "key_string key" "fst (setTarget oc key v h (int (length data)) '''' s2)"]
    by (force simp: assms(20) [symmetric] IsCurrentTarget_def list_ex_iff setTarget_artifact)
  have "map_of (files s3) ?p = None \<and> st_opts s3 = st_opts s"
  proof -
    define u where "u = s2\<lparr>rg_artifacts := rg_artifacts s3, rg_default := (if rg_default s2 = '''' \<and> length (rg_artifacts s3) = 1 then key_string key else rg_default s2)\<rparr>"
    have u: "files s3 = files (snd (persist u)) \<and> st_opts s3 = st_opts (snd (persist u))"
      using assms(17) setTarget_artifacts(1) [OF tmp assms(16), of key v h "int (length data)" "''''"]
      by (simp add: assms(20) setTarget_def u_def Let_def)
    obtain w u' where w: "WriteFile (ro_StatePath (rg_opts u)) (Json (state_to_json (rg_default u) (by_key (rg_artifacts u)))) 420 u = (w, u')" by fastforce
    have path: "ro_StatePath (rg_opts u) = ro_StatePath (rg_opts s)" by (simp add: u_def s2)
    have "?p \<noteq> ro_StatePath (rg_opts s)" "\<not> is_tmp ?p"
      using assms(15) path_cases(1) [OF assms(8)] store_path_not_tmp [OF assms(1,2) path_cases(1) [OF assms(8)]] by metis+
    then have "map_of (files u') ?p = map_of (files u) ?p" "st_opts u' = st_opts u"
      using WriteFile_atomic [OF w] assms(14) more_fields [of u' u] unfolding path
      by (auto simp: atomic_write_def evolves_def same_rest_def)
    moreover have "snd (persist u) = u \<or> snd (persist u) = u'" using w by (simp add: persist_def Let_def split: option.split)
    moreover have "files u = files s2" "st_opts u = st_opts s2" by (simp_all add: u_def)
    ultimately show ?thesis using u gone s2 by metis
  qed
  then have "\<not> fst (HasBinary h s3)"
    by (auto simp: HasBinary_def miss_check_def os_Stat_def syscall_def split: option.split prod.split sum.split)
  with s1(1) has cur show ?thesis by blast
qed

theorem grace_period_misses_old_binary_witness:
  "let s1 = snd (RegisterBinary sample_lib ''old'' sample_stocked); s2 = snd (Sweep sample_retention None s1);
       s3 = snd (setTarget no_change sample_key ''2.0'' sample_old 3 '''' s2)
   in fst (HasBinary sample_old s1) \<and> IsCurrentTarget sample_old s3 \<and> \<not> fst (HasBinary sample_old s3)"
proof -
  note f = sample_stocked_facts
  let ?r = "RegisterBinary sample_lib ''old'' sample_stocked"
  let ?q = "Sweep sample_retention None (snd ?r)"
  have h: "sample_old = sha256HexBytes sample_lib ''old''" by (simp add: sample_old_def)
  have p: "ro_StatePath (rg_opts sample_stocked) = ''/d/registry.json''"
    by (simp add: sample_stocked_def sample_registry_def store.defs registry.defs)
  have "\<not> is_tmp ''/d/registry.json''" "length (path_base ''/d/registry.json'') \<le> 64" by code_simp+
  then have path: "\<not> is_tmp (ro_StatePath (rg_opts sample_stocked))"
    "\<not> store_path (st_opts sample_stocked) (ro_StatePath (rg_opts sample_stocked))"
    using store_path_long [of sample_store_options "''/d/registry.json''"] f(4-6) unfolding p by auto
  have t: "rt_CollectOrphanBinaries sample_retention" "rt_OrphanBinaryMinAge sample_retention \<le> time_Sub (clock sample_stocked) 0"
    using f(8) by (simp_all add: sample_retention_def time_Sub_def min_def max_def)
  have n: "sample_old \<notin> LiveHashes sample_stocked" "map_of (missCache sample_stocked) sample_old = None" using f(3,11,12) by auto
  have d: "so_BinariesDir (st_opts sample_stocked) \<noteq> ''''" "so_DeltasDir (st_opts sample_stocked) \<noteq> ''''"
    "is_dir sample_stocked (so_BinariesDir (st_opts sample_stocked))" "is_dir sample_stocked (so_DeltasDir (st_opts sample_stocked))"
    "\<not> store_path (st_opts sample_stocked) (so_BinariesDir (st_opts sample_stocked))"
    "map_of (files sample_stocked) (binaryPath (st_opts sample_stocked) sample_old) = Some (EFile (Raw ''old'') 420 0 True)"
    using f by simp_all
  have c: "\<forall>k s. files (no_change k s) = files s \<and> st_opts (no_change k s) = st_opts s" by (simp add: no_change_def)
  from grace_period_misses_old_binary [OF d(1,2) f(7) d(3-5) h f(2) n d(6) t path keeps_registry_no_change c
      prod.collapse [symmetric] prod.collapse [symmetric] refl, of sample_key "''2.0''"]
  show ?thesis by (simp add: Let_def)
qed

end
