(* ===== verification/Manifest.thy ===== *)
theory Manifest
  imports Retention UpdateCycle
begin

text \<open>
  The manifester of \<open>pkg/server/manifest.go\<close>: what a heartbeat is answered with. Its state extends the
  registry with its settings, the signing key and the cache of signed manifests. The callback that the
  registry fires when a target moves is \<open>InvalidateArtifact\<close>, which clears that cache. The lemmas follow
  the whole server: the steps of store, registry and manifester keep the promise of each, and no cached
  manifest is stale.
\<close>

section \<open>State\<close>

definition DefaultManifestCacheSize :: int where "DefaultManifestCacheSize = 4096"

record manifester_config =
  mc_ChunkSize :: int
  mc_RetryAfter :: int
  mc_CacheSize :: int
  mc_AllowFullDownload :: bool

record manifester = registry +
  mf_priv :: bytes
  mf_chunkSize :: int
  mf_retryAfter :: int
  mf_allowFull :: bool
  mf_cache :: "manifest_response entryLRU"

definition NewManifester :: "bytes \<Rightarrow> manifester_config \<Rightarrow> 'z manifester_scheme \<Rightarrow> 'z manifester_scheme" where
  "NewManifester priv cfg s =
     (let chunk = (if mc_ChunkSize cfg = 0 then DefaultChunkSize else mc_ChunkSize cfg);
          retry = (if mc_RetryAfter cfg = 0 then 30 else mc_RetryAfter cfg);
          n = (if mc_CacheSize cfg \<le> 0 then DefaultManifestCacheSize else mc_CacheSize cfg)
      in s\<lparr>mf_priv := priv, mf_chunkSize := chunk, mf_retryAfter := retry,
           mf_allowFull := mc_AllowFullDownload cfg, mf_cache := newEntryLRU n\<rparr>)"

definition Invalidate :: "'z manifester_scheme \<Rightarrow> 'z manifester_scheme" where
  "Invalidate s = s\<lparr>mf_cache := e_Clear (mf_cache s)\<rparr>"

definition InvalidateArtifact :: "artifact_key \<Rightarrow> 'z manifester_scheme \<Rightarrow> 'z manifester_scheme" where
  "InvalidateArtifact key s = s\<lparr>mf_cache := e_Clear (mf_cache s)\<rparr>"

definition cacheKey :: "string \<Rightarrow> string \<Rightarrow> string \<Rightarrow> string" where
  "cacheKey artifact src dst = artifact @ ''|'' @ src @ ''|'' @ dst"

section \<open>Building a manifest\<close>

text \<open>Division of Go: the quotient is truncated toward zero.\<close>

definition go_div :: "int \<Rightarrow> int \<Rightarrow> int" where
  "go_div a b = (if a < 0 then - (- a div b) else a div b)"

definition chunkCount :: "int \<Rightarrow> int \<Rightarrow> int" where
  "chunkCount sz chunk = (if chunk \<le> 0 then 0 else go_div (wrap64 (wrap64 (sz + chunk) - 1)) chunk)"

definition sign_manifest ::
  "lib \<Rightarrow> artifact \<Rightarrow> bytes \<Rightarrow> string \<Rightarrow> bool \<Rightarrow> 'z manifester_scheme \<Rightarrow> err + manifest_response" where
  "sign_manifest L art transfer endpoint full s =
     (let transferHash = sha256HexBytes L transfer; sz = int (length transfer)
      in case ManifestSigningPayload (a_TargetHash art) transferHash of
           Inl e \<Rightarrow> Inl (Wrap ''build signing payload'' e)
         | Inr payload \<Rightarrow>
             (case crypto_Sign L (mf_priv s) payload of
                Inl e \<Rightarrow> Inl (Wrap ''sign manifest'' e)
              | Inr sig \<Rightarrow>
                  (let resp = zero_response
                         \<lparr>UpdateAvailable := True, respArtifact := key_string (a_Key art),
                          TargetVersion := a_Version art, TargetHash := a_TargetHash art,
                          TargetSize := a_TargetSize art, DeltaSize := sz, DeltaHash := transferHash,
                          ChunkSize := mf_chunkSize s, TotalChunks := chunkCount sz (mf_chunkSize s),
                          Signature := hex_encode sig\<rparr>
                   in Inr (if full then resp\<lparr>BinaryEndpoint := endpoint\<rparr> else resp\<lparr>DeltaEndpoint := endpoint\<rparr>))))"

definition memoize :: "artifact \<Rightarrow> string \<Rightarrow> manifest_response \<Rightarrow> 'z manifester_scheme \<Rightarrow> 'z manifester_scheme" where
  "memoize art fromHash resp s =
     s\<lparr>mf_cache := e_Put (cacheKey (key_string (a_Key art)) fromHash (a_TargetHash art)) resp (mf_cache s)\<rparr>"

definition buildDelta ::
  "lib \<Rightarrow> heartbeat \<Rightarrow> artifact \<Rightarrow> 'z manifester_scheme \<Rightarrow> (err + manifest_response option) \<times> 'z manifester_scheme" where
  "buildDelta L hb art s =
     (case GetDeltaBytes (hbVersionHash hb) (a_TargetHash art) s of
        (Inl e, s) \<Rightarrow> (Inl (Wrap ''fetch delta bytes'' e), s)
      | (Inr None, s) \<Rightarrow> (Inr None, s)
      | (Inr (Some data), s) \<Rightarrow>
          (case sign_manifest L art data (protocol_DeltaPath (hbVersionHash hb) (a_TargetHash art)) False s of
             Inl e \<Rightarrow> (Inl e, s)
           | Inr resp \<Rightarrow> (Inr (Some resp), memoize art (hbVersionHash hb) resp s)))"

definition buildFull ::
  "lib \<Rightarrow> ctx \<Rightarrow> heartbeat \<Rightarrow> artifact \<Rightarrow> 'z manifester_scheme \<Rightarrow> (err + manifest_response) \<times> 'z manifester_scheme" where
  "buildFull L c hb art s =
     (case GetBinaryBytes L c (a_TargetHash art) s of
        (Inl e, s) \<Rightarrow> (Inl (Wrap ''fetch full binary bytes'' e), s)
      | (Inr None, s) \<Rightarrow> (Inl (Wrap ''artifact target'' ErrBinaryNotFound), s)
      | (Inr (Some data), s) \<Rightarrow>
          (case sign_manifest L art data (protocol_BinaryPath (a_TargetHash art)) True s of
             Inl e \<Rightarrow> (Inl e, s)
           | Inr resp \<Rightarrow> (Inr resp, memoize art '''' resp s)))"

text \<open>Whether the server can make a delta from what the device runs.\<close>

definition source_known :: "heartbeat \<Rightarrow> artifact \<Rightarrow> 'z manifester_scheme \<Rightarrow> bool \<times> 'z manifester_scheme" where
  "source_known hb art s =
     (case (if IsValidHash (hbVersionHash hb) then HasBinary (hbVersionHash hb) s else (False, s)) of
        (False, s) \<Rightarrow> (False, s)
      | (True, s) \<Rightarrow>
          (case CanDiff (hbVersionHash hb) (a_TargetHash art) s of
             ((ok, reason), s) \<Rightarrow> (ok, s)))"

definition retry_response :: "artifact \<Rightarrow> int \<Rightarrow> manifest_response" where
  "retry_response art retry = zero_response
     \<lparr>UpdateAvailable := True, respArtifact := key_string (a_Key art), TargetVersion := a_Version art,
      TargetHash := a_TargetHash art, TargetSize := a_TargetSize art, RetryAfter := retry\<rparr>"

definition no_update :: "string \<Rightarrow> manifest_response" where
  "no_update artifactKey = zero_response\<lparr>UpdateAvailable := False, respArtifact := artifactKey\<rparr>"

text \<open>The part after the cache was looked up.\<close>

definition build_uncached ::
  "lib \<Rightarrow> ctx \<Rightarrow> heartbeat \<Rightarrow> artifact \<Rightarrow> bool \<Rightarrow> 'z manifester_scheme \<Rightarrow> (err + manifest_response) \<times> 'z manifester_scheme" where
  "build_uncached L c hb art known s =
     (if known then
        (case buildDelta L hb art s of
           (Inl e, s) \<Rightarrow> (Inl e, s)
         | (Inr (Some resp), s) \<Rightarrow> (Inr resp, s)
         | (Inr None, s) \<Rightarrow> (Inr (retry_response art (mf_retryAfter s)), s))
      else if \<not> mf_allowFull s then (Inr (no_update (key_string (a_Key art))), s)
      else buildFull L c hb art s)"

definition Build ::
  "lib \<Rightarrow> ctx \<Rightarrow> heartbeat \<Rightarrow> 'z manifester_scheme \<Rightarrow> (err + manifest_response) \<times> 'z manifester_scheme" where
  "Build L c hb s =
     (case hb_Validate (Some hb) of
        Some e \<Rightarrow> (Inl e, s)
      | None \<Rightarrow>
     (case Resolve (hbArtifact hb) s of
        Inl e \<Rightarrow> (Inl (Wrap ''resolve artifact'' e), s)
      | Inr art \<Rightarrow>
          (let artifactKey = key_string (a_Key art); targetHash = a_TargetHash art
           in if targetHash = '''' then (Inl (Msg ''artifact has no published target''), s)
              else if hbVersionHash hb = targetHash then (Inr (no_update artifactKey), s)
              else
                (case source_known hb art s of
                   (known, s) \<Rightarrow>
                     (let sourceKey = (if known then hbVersionHash hb else '''')
                      in case e_Get (cacheKey artifactKey sourceKey targetHash) (mf_cache s) of
                           (Some cached, c') \<Rightarrow> (Inr cached, s\<lparr>mf_cache := c'\<rparr>)
                         | (None, c') \<Rightarrow> build_uncached L c hb art known (s\<lparr>mf_cache := c'\<rparr>))))))"

definition IsArtifactNotFound :: "err \<Rightarrow> bool" where
  "IsArtifactNotFound e \<longleftrightarrow> errors_Is e ErrArtifactNotFound \<or> errors_Is e ErrEmptyArtifactKey"

section \<open>What a signed manifest says\<close>

text \<open>A manifest for a target of an artifact: signed over the digests of the target and of a transfer that
  gives the target, from the source it names, or from nothing (the empty source).\<close>

definition manifest_for ::
  "lib \<Rightarrow> 'z manifester_scheme \<Rightarrow> string \<Rightarrow> string \<Rightarrow> string \<Rightarrow> string \<Rightarrow> bytes \<Rightarrow> manifest_response \<Rightarrow> bool" where
  "manifest_for L s key version target src d resp \<longleftrightarrow>
     UpdateAvailable resp \<and> RetryAfter resp = 0 \<and> respArtifact resp = key \<and> TargetVersion resp = version \<and>
     TargetHash resp = target \<and> DeltaSize resp = int (length d) \<and> DeltaHash resp = sha256HexBytes L d \<and>
     ChunkSize resp = mf_chunkSize s \<and> TotalChunks resp = chunkCount (int (length d)) (mf_chunkSize s) \<and>
     (\<exists>payload sig. ManifestSigningPayload target (sha256HexBytes L d) = Inr payload \<and>
        crypto_Sign L (mf_priv s) payload = Inr sig \<and> Signature resp = hex_encode sig) \<and>
     (if src = '''' then full_for L target d \<and> BinaryEndpoint resp = protocol_BinaryPath target
      else delta_for L src target d \<and> BinaryEndpoint resp = '''' \<and> DeltaEndpoint resp = protocol_DeltaPath src target)"

definition sources :: "string set" where
  "sources = insert '''' {f. IsValidHash f}"

text \<open>An entry of the cache describes an artifact as it is now.\<close>

definition shown :: "'z registry_scheme \<Rightarrow> string \<Rightarrow> (artifact_key \<times> string \<times> string) option" where
  "shown s ks = map_option (\<lambda>a. (a_Key a, a_Version a, a_TargetHash a)) (map_of (rg_artifacts s) ks)"

definition entry_ok :: "lib \<Rightarrow> 'z manifester_scheme \<Rightarrow> string \<Rightarrow> manifest_response \<Rightarrow> bool" where
  "entry_ok L s k resp \<longleftrightarrow>
     (\<exists>key version target src d. shown s (key_string key) = Some (key, version, target) \<and> src \<in> sources \<and>
        k = cacheKey (key_string key) src target \<and>
        manifest_for L s (key_string key) version target src d resp)"

definition targets_ok :: "'z registry_scheme \<Rightarrow> bool" where
  "targets_ok s \<longleftrightarrow> (\<forall>k a. map_of (rg_artifacts s) k = Some a \<longrightarrow> IsValidHash (a_TargetHash a))"

definition paths_ok :: "'z registry_scheme \<Rightarrow> bool" where
  "paths_ok s \<longleftrightarrow> \<not> is_tmp (ro_StatePath (rg_opts s)) \<and> \<not> store_path (st_opts s) (ro_StatePath (rg_opts s))"

definition server_ok :: "lib \<Rightarrow> 'z manifester_scheme \<Rightarrow> bool" where
  "server_ok L s \<longleftrightarrow>
     store_good L s \<and> registry_ok s \<and> targets_ok s \<and> paths_ok s \<and> entry.holds (entry_ok L s) (mf_cache s)"

lemma registry_cong:
  "rg_artifacts s' = rg_artifacts s \<Longrightarrow> registry_ok s' = registry_ok s"
  "rg_artifacts s' = rg_artifacts s \<Longrightarrow> targets_ok s' = targets_ok s"
  "rg_opts s' = rg_opts s \<Longrightarrow> st_opts s' = st_opts s \<Longrightarrow> paths_ok s' = paths_ok s"
  by (simp_all only: registry_ok_def targets_ok_def paths_ok_def)

lemma server_okD:
  assumes "server_ok L s"
  shows "store_good L s" "registry_ok s" "targets_ok s" "paths_ok s" "entry.holds (entry_ok L s) (mf_cache s)"
    "lib_ok L" "\<not> is_tmp (ro_StatePath (rg_opts s))"
  using assms by (simp_all add: server_ok_def store_good_def store_ok_def paths_ok_def)

lemma server_more:
  "store.more s' = store.more s \<Longrightarrow> rg_artifacts s' = rg_artifacts s \<and> rg_opts s' = rg_opts s \<and>
   rg_default s' = rg_default s \<and> mf_priv s' = mf_priv s \<and> mf_chunkSize s' = mf_chunkSize s \<and>
   mf_retryAfter s' = mf_retryAfter s \<and> mf_allowFull s' = mf_allowFull s \<and> mf_cache s' = mf_cache s \<and>
   manifester.more s' = manifester.more s"
  by (cases s, cases s') (auto simp: registry.defs manifester.defs)

lemma entry_ok_cong:
  assumes "shown s' = shown s" "mf_priv s' = mf_priv s" "mf_chunkSize s' = mf_chunkSize s"
  shows "entry_ok L s' = entry_ok L s"
  by (intro ext) (simp only: entry_ok_def manifest_for_def assms)

lemma keeps_server: "keeps L s s' \<Longrightarrow> server_ok L s \<Longrightarrow> server_ok L s' \<and> store.more s' = store.more s"
proof -
  assume k: "keeps L s s'" and ok: "server_ok L s"
  have g: "store_good L s" using ok by (simp add: server_ok_def)
  then have st: "st_step L s s'" using k by (simp add: keeps_def store_good_def)
  then have more: "store.more s' = store.more s" "st_opts s' = st_opts s" by (simp_all add: st_step_def)
  note m = server_more [OF more(1)]
  have "store_good L s'" by (rule keeps_good [OF k g])
  moreover have "registry_ok s' = registry_ok s" "targets_ok s' = targets_ok s" "paths_ok s' = paths_ok s"
    using m more(2) registry_cong [of s' s] by blast+
  moreover have "shown s' = shown s" using m by (intro ext) (simp only: shown_def)
  then have "entry_ok L s' = entry_ok L s" using m by (intro entry_ok_cong) blast+
  moreover have "mf_cache s' = mf_cache s" using m by blast
  ultimately show ?thesis using ok more(1) by (simp only: server_ok_def)
qed

lemma ensures_server:
  "ensures L Q s f \<Longrightarrow> server_ok L s \<Longrightarrow> f = (r, s') \<Longrightarrow> server_ok L s' \<and> store.more s' = store.more s \<and> Q r"
proof -
  assume e: "ensures L Q s f" and ok: "server_ok L s" and f: "f = (r, s')"
  have "store_ok L s" using ok by (simp add: server_ok_def store_good_def)
  then have "Q r" using e f by (simp add: ensures_def)
  with keeps_server [OF ensures_keeps [OF e] ok] f show ?thesis by simp
qed

text \<open>A change of the registry alone: what is left to check.\<close>

lemma server_okI:
  assumes "store_good L s'" "registry_ok s'" "targets_ok s'" "paths_ok s'"
    and "mf_cache s' = e_Clear c \<or> (mf_cache s' = mf_cache s \<and> shown s' = shown s \<and> mf_priv s' = mf_priv s \<and>
           mf_chunkSize s' = mf_chunkSize s)"
    and "entry.holds P c" "entry.holds (entry_ok L s) (mf_cache s)"
  shows "server_ok L s'"
proof -
  have "entry.holds (entry_ok L s') (mf_cache s')"
  proof (cases "mf_cache s' = e_Clear c")
    case True
    then show ?thesis using entry.holds_clear [OF assms(6)] by (simp only:)
  next
    case False
    with assms(5) have "mf_cache s' = mf_cache s" "entry_ok L s' = entry_ok L s" using entry_ok_cong by blast+
    with assms(7) show ?thesis by (simp only:)
  qed
  with assms(1-4) show ?thesis by (simp only: server_ok_def)
qed

lemma persist_good:
  assumes "store_good L s" "paths_ok s"
  shows "store_good L (snd (persist s))" "os.more (snd (persist s)) = os.more s"
proof -
  let ?p = "ro_StatePath (rg_opts s)"
  let ?d = "Json (state_to_json (rg_default s) (by_key (rg_artifacts s)))"
  have p: "\<not> is_tmp ?p" "\<not> store_path (st_opts s) ?p" using assms(2) by (simp_all add: paths_ok_def)
  obtain r s1 where w: "WriteFile ?p ?d 420 s = (r, s1)" by fastforce
  have e: "evolves (insert ?p tmps) (only_at ?p {Some (EFile ?d 420 (clock s) True)}) s s1" "same_rest s s1"
    using WriteFile_atomic [OF w p(1)] by (auto simp: atomic_write_def)
  have m: "os.more s1 = os.more s" using e(2) by (simp add: same_rest_def)
  have g: "disk_good L (st_opts s) s" "mem_ok L s" "lib_ok L" using assms(1) by (simp_all add: store_good_iff)
  have ne: "so_BinariesDir (st_opts s) \<noteq> ''''" "so_DeltasDir (st_opts s) \<noteq> ''''" using g(2) by (simp_all add: mem_ok_def)
  have "ent_ok L (st_opts s) q x" if "store_path (st_opts s) q" "x \<in> only_at ?p {Some (EFile ?d 420 (clock s) True)} q" for q x
    using that p(2) store_path_not_tmp [OF ne that(1)] by (auto simp: only_at_def split: if_splits)
  then have "disk_good L (st_opts s) s1" using disk_good_evolves [OF g(1) e(1)] by blast
  moreover have "st_opts s1 = st_opts s" using more_fields [OF m] by blast
  moreover have "mem_ok L s1" using mem_ok_more [OF m] g(2) by blast
  ultimately have s1: "store_good L s1" using g(3) by (simp only: store_good_iff)
  have "snd (persist s) = s \<or> snd (persist s) = s1" using w by (simp add: persist_def Let_def split: option.split)
  then show "store_good L (snd (persist s))" "os.more (snd (persist s)) = os.more s" using s1 assms(1) m by metis+
qed

text \<open>The key of the cache can be taken apart.\<close>

lemma cacheKey_inj:
  assumes "cacheKey k f t = cacheKey k' f' t'" "CHR ''|'' \<notin> set k" "CHR ''|'' \<notin> set k'" "f \<in> sources" "f' \<in> sources"
  shows "k = k' \<and> f = f' \<and> t = t'"
proof -
  have f: "CHR ''|'' \<notin> set f" "CHR ''|'' \<notin> set f'"
    using assms(4,5) IsValidHash_chars(4) by (auto simp: sources_def)
  have "cut_at CHR ''|'' (cacheKey k f t) = Some (k, f @ ''|'' @ t)" using assms(2) by (simp add: cut_at_Some cacheKey_def)
  moreover have "cut_at CHR ''|'' (cacheKey k' f' t') = Some (k', f' @ ''|'' @ t')"
    using assms(3) by (simp add: cut_at_Some cacheKey_def)
  ultimately have k: "k = k'" "f @ ''|'' @ t = f' @ ''|'' @ t'" using assms(1) by auto
  have "cut_at CHR ''|'' (f @ ''|'' @ t) = Some (f, t)" using f by (simp add: cut_at_Some)
  moreover have "cut_at CHR ''|'' (f' @ ''|'' @ t') = Some (f', t')" using f by (simp add: cut_at_Some)
  ultimately show ?thesis using k by (metis Pair_inject option.inject)
qed

section \<open>The registry keeps the server in order\<close>

lemma store_good_updates [simp]:
  "store_good L (s\<lparr>rg_artifacts := arts\<rparr>) = store_good L s" "store_good L (s\<lparr>rg_default := n\<rparr>) = store_good L s"
  "store_good L (s\<lparr>rg_opts := ro\<rparr>) = store_good L s"
  by (simp_all add: store_good_iff disk_good_def mem_ok_def snap_def)

lemma store_good_cache [simp]: "store_good L (s\<lparr>mf_cache := c\<rparr>) = store_good L s"
  by (simp add: store_good_iff disk_good_def mem_ok_def snap_def)

lemma keeps_registry_Invalidate [simp]: "keeps_registry InvalidateArtifact"
  by (simp add: keeps_registry_def InvalidateArtifact_def)

lemma server_fields:
  assumes "os.more s' = os.more s"
  shows "rg_artifacts s' = rg_artifacts s" "rg_opts s' = rg_opts s" "rg_default s' = rg_default s"
    "mf_priv s' = mf_priv s" "mf_chunkSize s' = mf_chunkSize s" "mf_retryAfter s' = mf_retryAfter s"
    "mf_allowFull s' = mf_allowFull s" "mf_cache s' = mf_cache s" "st_opts s' = st_opts s"
    "manifester.more s' = manifester.more s"
  using more_fields [OF assms] server_more [of s' s] by blast+

text \<open>An edit of the registry that is persisted and then, perhaps, announced.\<close>

lemma edit_server:
  assumes "server_ok L s" "registry_ok (s\<lparr>rg_artifacts := arts, rg_default := n\<rparr>)" "targets_ok (s\<lparr>rg_artifacts := arts, rg_default := n\<rparr>)"
    and "s1 = s\<lparr>rg_artifacts := arts, rg_default := n\<rparr>" "s2 = snd (persist s1)"
    and "s3 = InvalidateArtifact k s2 \<or> (s3 = s2 \<and> shown s1 = shown s)"
  shows "server_ok L s3"
proof -
  have p: "paths_ok s1" using server_okD(4) [OF assms(1)] unfolding assms(4) by (simp add: paths_ok_def)
  have g: "store_good L s1" using server_okD(1) [OF assms(1)] unfolding assms(4) by simp
  have g2: "store_good L s2" "os.more s2 = os.more s1" using persist_good [OF g p] unfolding assms(5) by simp_all
  note f = server_fields [OF g2(2)]
  have r2: "registry_ok s2" "targets_ok s2" "paths_ok s2"
    using assms(2,3) p unfolding assms(4) [symmetric] by (simp_all only: registry_cong(1,2) [OF f(1)] registry_cong(3) [OF f(2) f(9)])
  have s1: "mf_cache s1 = mf_cache s" "mf_priv s1 = mf_priv s" "mf_chunkSize s1 = mf_chunkSize s"
    unfolding assms(4) by simp_all
  have s3: "store_good L s3 \<and> registry_ok s3 \<and> targets_ok s3 \<and> paths_ok s3"
    using assms(6) g2(1) r2
    by (auto simp: InvalidateArtifact_def registry_ok_def targets_ok_def paths_ok_def)
  have sh: "shown s2 = shown s1" by (intro ext) (simp only: shown_def f)
  have "mf_cache s3 = e_Clear (mf_cache s) \<or> (mf_cache s3 = mf_cache s \<and> shown s3 = shown s \<and> mf_priv s3 = mf_priv s \<and>
           mf_chunkSize s3 = mf_chunkSize s)"
    using assms(6)
  proof
    assume "s3 = InvalidateArtifact k s2"
    then have "mf_cache s3 = e_Clear (mf_cache s2)" by (simp add: InvalidateArtifact_def)
    then show ?thesis by (simp only: f s1 simp_thms)
  next
    assume "s3 = s2 \<and> shown s1 = shown s"
    then show ?thesis by (simp only: f s1 sh simp_thms)
  qed
  from server_okI [OF _ _ _ _ this server_okD(5) [OF assms(1)] server_okD(5) [OF assms(1)]] s3
  show ?thesis by blast
qed

lemma setTarget_server:
  assumes "server_ok L s" "valid_key key" "IsValidHash hash"
  shows "server_ok L (snd (setTarget InvalidateArtifact key version hash sz source s))"
proof -
  let ?s3 = "snd (setTarget InvalidateArtifact key version hash sz source s)"
  note ok = server_okD [OF assms(1)]
  define a where "a = (case map_of (rg_artifacts s) (key_string key) of Some a \<Rightarrow> a | None \<Rightarrow> new_artifact key)"
  define b where "b = retarget (ro_HistoryDepth (rg_opts s)) (clock s) version hash sz source a"
  define arts where "arts = put (key_string key) b (rg_artifacts s)"
  define n where "n = (if rg_default s = '''' \<and> length arts = 1 then key_string key else rg_default s)"
  define s1 where "s1 = s\<lparr>rg_artifacts := arts, rg_default := n\<rparr>"
  define changed where "changed = (a_TargetHash a \<noteq> hash \<or> a_Version a \<noteq> version)"
  have s3: "?s3 = (if changed then InvalidateArtifact key (snd (persist s1)) else snd (persist s1))"
    by (simp add: setTarget_def Let_def s1_def n_def arts_def b_def a_def changed_def)
  have key: "a_Key a = key"
  proof (cases "map_of (rg_artifacts s) (key_string key)")
    case (Some x)
    then have "key_string (a_Key x) = key_string key" "valid_key (a_Key x)" using ok(2) by (auto simp: registry_ok_def)
    with Some assms(2) key_string_inj show ?thesis by (simp add: a_def)
  qed (simp add: a_def new_artifact_def)
  have "registry_ok s1" using ok(2) assms(2) key by (simp add: registry_ok_def s1_def arts_def b_def)
  moreover have "targets_ok s1" using ok(3) assms(3) by (simp add: targets_ok_def s1_def arts_def b_def)
  moreover have "shown s1 = shown s" if "\<not> changed"
  proof
    fix k
    have "map_of (rg_artifacts s) (key_string key) = Some a"
      using that assms(3) IsValidHash_length [OF assms(3)] by (cases "map_of (rg_artifacts s) (key_string key)") (auto simp: changed_def a_def new_artifact_def)
    then show "shown s1 k = shown s k" using that by (simp add: shown_def s1_def arts_def b_def changed_def)
  qed
  ultimately show ?thesis
    using edit_server [OF assms(1) _ _ s1_def refl, of ?s3 key] s3 by (auto simp: s1_def)
qed

lemma SetDefault_server: "server_ok L s \<Longrightarrow> server_ok L (snd (SetDefault key s))"
proof -
  assume s: "server_ok L s"
  have "server_ok L (snd (persist (s\<lparr>rg_default := n\<rparr>)))" for n
    using edit_server [OF s, of n "rg_artifacts s" _ _ "snd (persist (s\<lparr>rg_default := n\<rparr>))"] server_okD(2,3) [OF s]
    by (simp add: registry_ok_def targets_ok_def shown_def fun_eq_iff)
  then show ?thesis using s by (simp add: SetDefault_def Let_def)
qed

lemma Remove_server: "server_ok L s \<Longrightarrow> server_ok L (snd (reg_Remove InvalidateArtifact key s))"
proof -
  assume s: "server_ok L s"
  have "server_ok L (InvalidateArtifact key (snd (persist (s\<lparr>rg_artifacts := del k (rg_artifacts s), rg_default := n\<rparr>))))" for n k
  proof -
    have "registry_ok (s\<lparr>rg_artifacts := del k (rg_artifacts s), rg_default := n\<rparr>)"
      "targets_ok (s\<lparr>rg_artifacts := del k (rg_artifacts s), rg_default := n\<rparr>)"
      using server_okD(2,3) [OF s] by (simp_all add: registry_ok_def targets_ok_def)
    from edit_server [OF s this refl refl] show ?thesis by blast
  qed
  then show ?thesis using s by (simp add: reg_Remove_def Let_def)
qed

lemma PublishBytes_server: "server_ok L s \<Longrightarrow> server_ok L (snd (PublishBytes L InvalidateArtifact key version data s))"
proof (cases "key_Validate key")
  case None
  assume s: "server_ok L s"
  obtain r s1 where r: "RegisterBinary L data s = (r, s1)" by fastforce
  from ensures_server [OF RegisterBinary_ensures s r] have
    s1: "server_ok L s1" "\<forall>h. r = Inr h \<longrightarrow> IsValidHash h"
    using sha256HexBytes_valid [OF server_okD(6) [OF s]] by blast+
  show ?thesis
    using setTarget_server [OF s1(1)] None None [unfolded key_Validate_iff] r s1
    by (fastforce simp: PublishBytes_def split: sum.split prod.split dest: arg_cong [where f = snd])
qed (simp add: PublishBytes_def)

lemma PublishFile_server: "server_ok L s \<Longrightarrow> server_ok L (snd (PublishFile L InvalidateArtifact key version p s))"
proof (cases "key_Validate key")
  case None
  assume s: "server_ok L s"
  obtain r s1 where r: "RegisterBinaryFile L p s = (r, s1)" by fastforce
  from ensures_server [OF RegisterBinaryFile_ensures s r] have
    s1: "server_ok L s1" "\<forall>h n. r = Inr (h, n) \<longrightarrow> IsValidHash h" by blast+
  show ?thesis
    using setTarget_server [OF s1(1)] None None [unfolded key_Validate_iff] r s1
    by (fastforce simp: PublishFile_def split: sum.split prod.split dest: arg_cong [where f = snd])
qed (simp add: PublishFile_def)

lemma Republish_server: "server_ok L s \<Longrightarrow> server_ok L (snd (Republish L InvalidateArtifact key s))"
  by (auto simp: Republish_def PublishFile_server split: option.split)

lemma ReconcileConfig_server: "server_ok L s \<Longrightarrow> server_ok L (snd (ReconcileConfig L InvalidateArtifact ds s))"
proof (induction ds arbitrary: s)
  case (Cons d ds)
  let ?k = "\<lparr>kName = y_Name d, kOS = y_OS d, kArch = y_Arch d\<rparr>"
  obtain r s1 where p: "PublishFile L InvalidateArtifact ?k (y_Version d) (y_Binary d) s = (r, s1)" by fastforce
  with PublishFile_server [OF Cons.prems] have "server_ok L s1" by (metis snd_conv)
  with Cons p show ?case by (auto simp: Let_def split: option.split sum.split)
qed simp

lemma Invalidate_server: "server_ok L s \<Longrightarrow> server_ok L (Invalidate s)"
proof -
  assume s: "server_ok L s"
  note ok = server_okD [OF s]
  have "registry_ok (Invalidate s)" "targets_ok (Invalidate s)" "paths_ok (Invalidate s)" "store_good L (Invalidate s)"
    using ok by (simp_all add: Invalidate_def registry_ok_def targets_ok_def paths_ok_def)
  moreover have "mf_cache (Invalidate s) = e_Clear (mf_cache s)" by (simp add: Invalidate_def)
  ultimately show ?thesis using server_okI [OF _ _ _ _ _ ok(5) ok(5)] by blast
qed

section \<open>Build keeps the server in order\<close>

lemma manifest_for_cong:
  "mf_priv s' = mf_priv s \<Longrightarrow> mf_chunkSize s' = mf_chunkSize s \<Longrightarrow> manifest_for L s' = manifest_for L s"
  by (intro ext) (simp only: manifest_for_def)

lemma sign_manifest_for:
  assumes "sign_manifest L art d endpoint (src = '''') s = Inr resp"
    and "if src = '''' then full_for L (a_TargetHash art) d \<and> endpoint = protocol_BinaryPath (a_TargetHash art)
      else delta_for L src (a_TargetHash art) d \<and> endpoint = protocol_DeltaPath src (a_TargetHash art)"
  shows "manifest_for L s (key_string (a_Key art)) (a_Version art) (a_TargetHash art) src d resp"
  using assms by (auto simp: sign_manifest_def manifest_for_def Let_def zero_response_def split: sum.splits if_splits)

lemma memoize_server:
  assumes "server_ok L s" "shown s (key_string (a_Key art)) = Some (a_Key art, a_Version art, a_TargetHash art)" "src \<in> sources"
    and "manifest_for L s (key_string (a_Key art)) (a_Version art) (a_TargetHash art) src d resp"
  shows "server_ok L (memoize art src resp s)"
proof -
  let ?s = "memoize art src resp s"
  note ok = server_okD [OF assms(1)]
  let ?k = "cacheKey (key_string (a_Key art)) src (a_TargetHash art)"
  have "entry_ok L s ?k resp" using assms(2-4) unfolding entry_ok_def by blast
  from entry.holds_insert [OF ok(5) this] have "entry.holds (entry_ok L s) (mf_cache ?s)" by (simp add: memoize_def)
  moreover have "entry_ok L ?s = entry_ok L s" by (rule entry_ok_cong) (simp_all add: memoize_def shown_def fun_eq_iff)
  moreover have "store_good L ?s" "registry_ok ?s" "targets_ok ?s" "paths_ok ?s"
    using ok by (simp_all add: memoize_def registry_ok_def targets_ok_def paths_ok_def)
  ultimately show ?thesis by (simp only: server_ok_def simp_thms)
qed

lemma source_known_ensures: "ensures L (\<lambda>b. b \<longrightarrow> IsValidHash (hbVersionHash hb)) s (source_known hb art s)"
proof (cases "IsValidHash (hbVersionHash hb)")
  case True
  then show ?thesis
    unfolding source_known_def
    by (simp, intro ensures_bind [OF HasBinary_ensures])
      (auto split: bool.split intro!: ensures_stop ensures_bind [OF CanDiff_ensures])
qed (simp add: source_known_def ensures_stop)

lemma shown_more: "store.more s' = store.more s \<Longrightarrow> shown s' = shown s" for s s' :: "'z manifester_scheme"
  using server_more [of s' s] by (intro ext) (simp only: shown_def)

text \<open>The artifact that a request resolved to is the current one.\<close>

definition current :: "artifact \<Rightarrow> 'z registry_scheme \<Rightarrow> bool" where
  "current art s \<longleftrightarrow> map_of (rg_artifacts s) (key_string (a_Key art)) = Some art \<and> valid_key (a_Key art) \<and> IsValidHash (a_TargetHash art)"

lemma current_shown: "current art s \<Longrightarrow> shown s (key_string (a_Key art)) = Some (a_Key art, a_Version art, a_TargetHash art)"
  by (simp add: current_def shown_def)

lemma Resolve_current:
  assumes "Resolve name s = Inr art" "registry_ok s" "targets_ok s"
  shows "current art s"
proof -
  obtain k where k: "map_of (rg_artifacts s) k = Some art"
    using assms(1) by (auto simp: Resolve_def reg_Get_def split: if_splits option.splits sum.splits)
  then have "k = key_string (a_Key art)" "valid_key (a_Key art)" "IsValidHash (a_TargetHash art)"
    using assms(2,3) by (auto simp: registry_ok_def targets_ok_def)
  with k show ?thesis by (simp add: current_def)
qed

lemma buildDelta_server:
  assumes "buildDelta L hb art s = (r, s')" "server_ok L s" "current art s" "IsValidHash (hbVersionHash hb)"
  shows "server_ok L s' \<and> (\<forall>resp. r = Inr (Some resp) \<longrightarrow>
    (\<exists>d. manifest_for L s (key_string (a_Key art)) (a_Version art) (a_TargetHash art) (hbVersionHash hb) d resp)) \<and>
    mf_retryAfter s' = mf_retryAfter s"
proof -
  let ?f = "hbVersionHash hb"
  have t: "IsValidHash (a_TargetHash art)" using assms(3) by (simp add: current_def)
  have f: "?f \<noteq> ''''" "?f \<in> sources" using assms(4) IsValidHash_length [OF assms(4)] by (auto simp: sources_def)
  obtain r1 s1 where g: "GetDeltaBytes ?f (a_TargetHash art) s = (r1, s1)" by fastforce
  from ensures_server [OF GetDeltaBytes_ensures [OF assms(4) t] assms(2) g] have
    s1: "server_ok L s1" "store.more s1 = store.more s" "\<forall>v. r1 = Inr (Some v) \<longrightarrow> delta_for L ?f (a_TargetHash art) v" by auto
  have m: "mf_priv s1 = mf_priv s" "mf_chunkSize s1 = mf_chunkSize s" "mf_retryAfter s1 = mf_retryAfter s"
    using server_more [OF s1(2)] by blast+
  have sh: "shown s1 (key_string (a_Key art)) = Some (a_Key art, a_Version art, a_TargetHash art)"
    using current_shown [OF assms(3)] shown_more [OF s1(2)] by simp
  show ?thesis
  proof (cases "\<exists>d. r1 = Inr (Some d)")
    case True
    then obtain d where d: "r1 = Inr (Some d)" by blast
    show ?thesis
    proof (cases "sign_manifest L art d (protocol_DeltaPath ?f (a_TargetHash art)) False s1")
      case (Inr resp)
      have "manifest_for L s1 (key_string (a_Key art)) (a_Version art) (a_TargetHash art) ?f d resp"
        using sign_manifest_for [of L art d _ ?f s1 resp] Inr f s1(3) d by simp
      moreover from this have "server_ok L (memoize art ?f resp s1)" using memoize_server [OF s1(1) sh f(2)] by blast
      moreover have "r = Inr (Some resp)" "s' = memoize art ?f resp s1" using assms(1) g d Inr by (auto simp: buildDelta_def)
      ultimately show ?thesis using manifest_for_cong [OF m(1,2), of L] m(3) by (auto simp: memoize_def)
    qed (use assms(1) g d s1 m in \<open>auto simp: buildDelta_def\<close>)
  qed (use assms(1) g s1 m in \<open>auto simp: buildDelta_def split: sum.splits option.splits\<close>)
qed

lemma buildFull_server:
  assumes "buildFull L c hb art s = (r, s')" "server_ok L s" "current art s"
  shows "server_ok L s' \<and> (\<forall>resp. r = Inr resp \<longrightarrow>
    (\<exists>d. manifest_for L s (key_string (a_Key art)) (a_Version art) (a_TargetHash art) '''' d resp))"
proof -
  have t: "IsValidHash (a_TargetHash art)" using assms(3) by (simp add: current_def)
  obtain r1 s1 where g: "GetBinaryBytes L c (a_TargetHash art) s = (r1, s1)" by fastforce
  from ensures_server [OF GetBinaryBytes_ensures [OF t] assms(2) g] have
    s1: "server_ok L s1" "store.more s1 = store.more s" "\<forall>v. r1 = Inr (Some v) \<longrightarrow> full_for L (a_TargetHash art) v" by auto
  have m: "mf_priv s1 = mf_priv s" "mf_chunkSize s1 = mf_chunkSize s" using server_more [OF s1(2)] by blast+
  have sh: "shown s1 (key_string (a_Key art)) = Some (a_Key art, a_Version art, a_TargetHash art)"
    using current_shown [OF assms(3)] shown_more [OF s1(2)] by simp
  show ?thesis
  proof (cases "\<exists>d. r1 = Inr (Some d)")
    case True
    then obtain d where d: "r1 = Inr (Some d)" by blast
    show ?thesis
    proof (cases "sign_manifest L art d (protocol_BinaryPath (a_TargetHash art)) True s1")
      case (Inr resp)
      have "manifest_for L s1 (key_string (a_Key art)) (a_Version art) (a_TargetHash art) '''' d resp"
        using sign_manifest_for [of L art d _ "''''" s1 resp] Inr s1(3) d by simp
      moreover from this have "server_ok L (memoize art '''' resp s1)"
        using memoize_server [OF s1(1) sh, of "''''"] by (simp add: sources_def)
      moreover have "r = Inr resp" "s' = memoize art '''' resp s1" using assms(1) g d Inr by (auto simp: buildFull_def)
      ultimately show ?thesis using manifest_for_cong [OF m, of L] by auto
    qed (use assms(1) g d s1 in \<open>auto simp: buildFull_def\<close>)
  qed (use assms(1) g s1 in \<open>auto simp: buildFull_def split: sum.splits option.splits\<close>)
qed

text \<open>What a heartbeat is answered with, for the artifact it resolved to: nothing to do, a wait for the
  delta, or a signed manifest from the version it reports or from nothing.\<close>

definition answers :: "lib \<Rightarrow> heartbeat \<Rightarrow> artifact \<Rightarrow> 'z manifester_scheme \<Rightarrow> manifest_response \<Rightarrow> bool" where
  "answers L hb art s resp \<longleftrightarrow>
     (if hbVersionHash hb = a_TargetHash art then resp = no_update (key_string (a_Key art))
      else
        (resp = no_update (key_string (a_Key art)) \<and> \<not> mf_allowFull s) \<or>
        (resp = retry_response art (mf_retryAfter s) \<and> IsValidHash (hbVersionHash hb)) \<or>
        (\<exists>src d. (src = '''' \<or> src = hbVersionHash hb \<and> IsValidHash src) \<and>
           manifest_for L s (key_string (a_Key art)) (a_Version art) (a_TargetHash art) src d resp))"

lemma build_uncached_server:
  assumes "build_uncached L c hb art known s = (r, s')" "server_ok L s" "current art s"
    and "known \<longrightarrow> IsValidHash (hbVersionHash hb)" "hbVersionHash hb \<noteq> a_TargetHash art"
  shows "server_ok L s' \<and> (\<forall>resp. r = Inr resp \<longrightarrow> answers L hb art s resp)"
proof (cases known)
  case True
  obtain r1 s1 where b: "buildDelta L hb art s = (r1, s1)" by fastforce
  note d = buildDelta_server [OF b assms(2,3)]
  show ?thesis
    using assms(1,4,5) True b d by (auto simp: build_uncached_def answers_def split: sum.splits option.splits)
next
  case False
  obtain r1 s1 where b: "buildFull L c hb art s = (r1, s1)" by fastforce
  note d = buildFull_server [OF b assms(2,3)]
  show ?thesis
    using assms(1,2,5) False b d by (cases "mf_allowFull s") (auto simp: build_uncached_def answers_def)
qed

lemma answers_cong:
  "mf_priv s' = mf_priv s \<Longrightarrow> mf_chunkSize s' = mf_chunkSize s \<Longrightarrow> mf_retryAfter s' = mf_retryAfter s \<Longrightarrow>
   mf_allowFull s' = mf_allowFull s \<Longrightarrow> answers L hb art s' = answers L hb art s"
  using manifest_for_cong [of s' s L] by (intro ext) (simp only: answers_def)

lemma cache_server:
  assumes "server_ok L s" "e_Get k (mf_cache s) = (r, c')"
  shows "server_ok L (s\<lparr>mf_cache := c'\<rparr>)" "r = Some resp \<Longrightarrow> entry_ok L s k resp"
proof -
  note ok = server_okD [OF assms(1)]
  let ?s = "s\<lparr>mf_cache := c'\<rparr>"
  have h: "entry.holds (entry_ok L s) c'" "\<forall>v. r = Some v \<longrightarrow> entry_ok L s k v"
    using entry.holds_get [OF ok(5) assms(2)] by auto
  moreover have "entry_ok L ?s = entry_ok L s" by (rule entry_ok_cong) (simp_all add: shown_def fun_eq_iff)
  moreover have "store_good L ?s" "registry_ok ?s" "targets_ok ?s" "paths_ok ?s"
    using ok by (simp_all add: registry_ok_def targets_ok_def paths_ok_def)
  moreover have "mf_cache ?s = c'" by simp
  ultimately show "server_ok L ?s" by (simp only: server_ok_def simp_thms)
  show "entry_ok L s k resp" if "r = Some resp" using h(2) that by blast
qed

lemma no_bar: "valid_key k \<Longrightarrow> CHR ''|'' \<notin> set (key_string k)"
proof
  assume "valid_key k" "CHR ''|'' \<in> set (key_string k)"
  from key_string_chars [OF this] show False by (simp add: name_char_def is_lower_def is_upper_def is_digit_def)
qed

lemma Build_server:
  assumes "Build L c hb s = (r, s')" "server_ok L s"
  shows "server_ok L s' \<and> (\<forall>resp. r = Inr resp \<longrightarrow>
    (\<exists>art. Resolve (hbArtifact hb) s = Inr art \<and> current art s \<and> answers L hb art s resp))"
proof (cases "hb_Validate (Some hb) = None \<and> (\<exists>art. Resolve (hbArtifact hb) s = Inr art \<and> a_TargetHash art \<noteq> '''' \<and> hbVersionHash hb \<noteq> a_TargetHash art)")
  case False
  then show ?thesis
    using assms Resolve_current [OF _ server_okD(2,3) [OF assms(2)]]
    by (auto simp: Build_def Let_def answers_def split: option.splits sum.splits if_splits)
next
  case True
  then obtain art where v: "hb_Validate (Some hb) = None" and art: "Resolve (hbArtifact hb) s = Inr art"
    and ne: "a_TargetHash art \<noteq> ''''" "hbVersionHash hb \<noteq> a_TargetHash art" by blast
  have cur: "current art s" by (rule Resolve_current [OF art server_okD(2,3) [OF assms(2)]])
  obtain known s1 where k: "source_known hb art s = (known, s1)" by fastforce
  from ensures_server [OF source_known_ensures assms(2) k] have
    s1: "server_ok L s1" "store.more s1 = store.more s" "known \<longrightarrow> IsValidHash (hbVersionHash hb)" by auto
  note m = server_more [OF s1(2)]
  have sh: "shown s1 = shown s" by (rule shown_more [OF s1(2)])
  define sk where "sk = (if known then hbVersionHash hb else '''')"
  define ck where "ck = cacheKey (key_string (a_Key art)) sk (a_TargetHash art)"
  have sk: "sk \<in> sources" "sk = '''' \<or> sk = hbVersionHash hb \<and> IsValidHash sk" using s1(3) by (auto simp: sk_def sources_def)
  obtain r1 c' where g: "e_Get ck (mf_cache s1) = (r1, c')" by fastforce
  note s2 = cache_server [OF s1(1) g]
  have ans: "answers L hb art (s1\<lparr>mf_cache := c'\<rparr>) = answers L hb art s" using m by (intro answers_cong) simp_all
  have cur2: "current art (s1\<lparr>mf_cache := c'\<rparr>)" using cur m by (simp add: current_def)
  show ?thesis
  proof (cases r1)
    case None
    have "build_uncached L c hb art known (s1\<lparr>mf_cache := c'\<rparr>) = (r, s')"
      using assms(1) v art ne k g None by (simp add: Build_def Let_def ck_def sk_def)
    from build_uncached_server [OF this s2(1) cur2 s1(3) ne(2)] ans art cur show ?thesis by auto
  next
    case (Some resp)
    have rs: "r = Inr resp" "s' = s1\<lparr>mf_cache := c'\<rparr>"
      using assms(1) v art ne k g Some by (auto simp: Build_def Let_def ck_def sk_def)
    from s2(2) [OF Some] obtain key version target src d where e: "shown s1 (key_string key) = Some (key, version, target)"
      "src \<in> sources" "ck = cacheKey (key_string key) src target"
      "manifest_for L s1 (key_string key) version target src d resp" unfolding entry_ok_def by blast
    have "valid_key key"
      using e(1) server_okD(2) [OF s1(1)] by (auto simp: shown_def registry_ok_def)
    then have same: "key_string (a_Key art) = key_string key" "sk = src" "a_TargetHash art = target"
      using cacheKey_inj [OF _ no_bar no_bar sk(1) e(2)] e(3) cur by (auto simp: current_def ck_def)
    then have "version = a_Version art" using e(1) current_shown [OF cur] sh by simp
    with e(4) same have "manifest_for L s (key_string (a_Key art)) (a_Version art) (a_TargetHash art) sk d resp"
      using manifest_for_cong [of s1 s L] m by simp
    with sk(2) ne(2) have "answers L hb art s resp" unfolding answers_def by (simp only: if_False) blast
    with rs s2(1) art cur show ?thesis by auto
  qed
qed

section \<open>Runs of the server\<close>

text \<open>
  The steps of the server: those of the store under it, the publications of the registry with the callback
  that clears the cache, the answers to heartbeats, and the sweeps. Whoever calls them, in whatever order.
\<close>

inductive server_step :: "lib \<Rightarrow> 'z manifester_scheme \<Rightarrow> 'z manifester_scheme \<Rightarrow> bool" for L where
  store: "store_step L s s' \<Longrightarrow> server_step L s s'"
| publish_bytes: "server_step L s (snd (PublishBytes L InvalidateArtifact key version data s))"
| publish_file: "server_step L s (snd (PublishFile L InvalidateArtifact key version path s))"
| republish: "server_step L s (snd (Republish L InvalidateArtifact key s))"
| set_default: "server_step L s (snd (SetDefault key s))"
| remove: "server_step L s (snd (reg_Remove InvalidateArtifact key s))"
| reconcile: "server_step L s (snd (ReconcileConfig L InvalidateArtifact ds s))"
| build: "server_step L s (snd (Build L c hb s))"
| invalidate: "server_step L s (Invalidate s)"
| sweep: "server_step L s (snd (Sweep ro c s))"

inductive_cases server_stepE: "server_step L s s'"

abbreviation server_run :: "lib \<Rightarrow> 'z manifester_scheme \<Rightarrow> 'z manifester_scheme \<Rightarrow> bool" where
  "server_run L \<equiv> (server_step L)\<^sup>*\<^sup>*"

lemma time_server: "server_ok L s \<Longrightarrow> server_ok L (s\<lparr>clock := t\<rparr>)"
proof -
  assume s: "server_ok L s"
  note ok = server_okD [OF s]
  let ?s = "s\<lparr>clock := t\<rparr>"
  have "entry_ok L ?s = entry_ok L s" by (rule entry_ok_cong) (simp_all add: shown_def fun_eq_iff)
  moreover have "store_good L ?s" "registry_ok ?s" "targets_ok ?s" "paths_ok ?s"
    using ok by (simp_all add: time_good registry_ok_def targets_ok_def paths_ok_def)
  moreover have "mf_cache ?s = mf_cache s" by simp
  ultimately show "server_ok L ?s" using ok(5) by (simp only: server_ok_def simp_thms)
qed

lemma store_step_server: "store_step L s s' \<Longrightarrow> server_ok L s \<Longrightarrow> server_ok L s'"
  by (induction rule: store_step.induct)
    (auto dest: keeps_server [rotated] intro: time_server keeps_server [THEN conjunct1] steps_keep run_generation_keeps
       Remove_keeps InvalidateHot_keeps)

lemma server_step_ok: "server_step L s s' \<Longrightarrow> server_ok L s \<Longrightarrow> server_ok L s'"
proof (induction rule: server_step.induct)
  case (build s c hb)
  then show ?case using Build_server [of L c hb s] by (metis prod.collapse)
next
  case (sweep s ro c)
  then show ?case using keeps_server [OF Sweep_keeps] by blast
qed (auto intro: store_step_server PublishBytes_server PublishFile_server Republish_server SetDefault_server
      Remove_server ReconcileConfig_server Invalidate_server)

lemma server_run_ok: "server_run L s s' \<Longrightarrow> server_ok L s \<Longrightarrow> server_ok L s'"
  by (induction rule: rtranclp_induct) (auto intro: server_step_ok)

text \<open>The settings, the key and what the process keeps beside the server stay what they were at the start.\<close>

definition kept :: "'z manifester_scheme \<Rightarrow> bytes \<times> int \<times> int \<times> bool \<times> 'z" where
  "kept s = (mf_priv s, mf_chunkSize s, mf_retryAfter s, mf_allowFull s, manifester.more s)"

lemma kept_more: "store.more s' = store.more s \<Longrightarrow> kept s' = kept s"
proof -
  assume "store.more s' = store.more s"
  from server_more [OF this] show ?thesis by (simp only: kept_def)
qed

lemma kept_ensures: "ensures L Q s f \<Longrightarrow> server_ok L s \<Longrightarrow> f = (r, s') \<Longrightarrow> kept s' = kept s \<and> server_ok L s'"
  using ensures_server [of L Q s f r s'] kept_more [of s' s] by simp

text \<open>Answers do not touch the registry, nor what the process keeps beside the server.\<close>

definition catalogue ::
  "'z manifester_scheme \<Rightarrow> (string \<times> artifact) list \<times> string \<times> registry_options \<times> (bytes \<times> int \<times> int \<times> bool \<times> 'z)" where
  "catalogue s = (rg_artifacts s, rg_default s, rg_opts s, kept s)"

lemma catalogue_more: "store.more s' = store.more s \<Longrightarrow> catalogue s' = catalogue s"
  using server_more [of s' s] kept_more [of s' s] by (simp only: catalogue_def)

lemma catalogue_ensures: "ensures L Q s f \<Longrightarrow> server_ok L s \<Longrightarrow> f = (r, s') \<Longrightarrow> catalogue s' = catalogue s \<and> server_ok L s'"
  using ensures_server [of L Q s f r s'] catalogue_more [of s' s] by simp

lemma kept_persist: "server_ok L s \<Longrightarrow> kept (snd (persist (s\<lparr>rg_artifacts := arts, rg_default := n\<rparr>))) = kept s"
proof -
  assume s: "server_ok L s"
  let ?s = "s\<lparr>rg_artifacts := arts, rg_default := n\<rparr>"
  have "store_good L ?s" "paths_ok ?s" using server_okD(1,4) [OF s] by (simp_all add: paths_ok_def)
  from server_fields [OF persist_good(2) [OF this]] show ?thesis by (simp add: kept_def)
qed

lemma kept_Invalidate [simp]: "kept (InvalidateArtifact k s) = kept s"
  by (simp add: kept_def InvalidateArtifact_def)

lemma kept_setTarget: "server_ok L s \<Longrightarrow> kept (snd (setTarget InvalidateArtifact key version hash sz source s)) = kept s"
  by (simp add: setTarget_def Let_def kept_persist)

lemma kept_publish:
  "server_ok L s \<Longrightarrow> kept (snd (PublishBytes L InvalidateArtifact key version data s)) = kept s"
  "server_ok L s \<Longrightarrow> kept (snd (PublishFile L InvalidateArtifact key version path s)) = kept s"
proof -
  assume s: "server_ok L s"
  have set: "kept (snd (case setTarget InvalidateArtifact key version h z src s1 of (a, s) \<Rightarrow> (Inr a :: err + artifact, s))) = kept s1"
    if "server_ok L s1" for h z src and s1 :: "'a manifester_scheme"
    using kept_setTarget [OF that, of key version h z src] by (simp add: split_beta)
  obtain r s1 where 1: "RegisterBinary L data s = (r, s1)" by fastforce
  show "kept (snd (PublishBytes L InvalidateArtifact key version data s)) = kept s"
    using kept_ensures [OF RegisterBinary_ensures s 1] 1 set by (auto simp: PublishBytes_def split: option.split sum.split)
  obtain r s1 where 1: "RegisterBinaryFile L path s = (r, s1)" by fastforce
  show "kept (snd (PublishFile L InvalidateArtifact key version path s)) = kept s"
    using kept_ensures [OF RegisterBinaryFile_ensures s 1] 1 set by (auto simp: PublishFile_def split: option.split sum.split)
qed

lemma kept_reconcile: "server_ok L s \<Longrightarrow> kept (snd (ReconcileConfig L InvalidateArtifact ds s)) = kept s"
proof (induction ds arbitrary: s)
  case (Cons d ds)
  let ?k = "\<lparr>kName = y_Name d, kOS = y_OS d, kArch = y_Arch d\<rparr>"
  obtain r s1 where p: "PublishFile L InvalidateArtifact ?k (y_Version d) (y_Binary d) s = (r, s1)" by fastforce
  with PublishFile_server [OF Cons.prems] kept_publish(2) [OF Cons.prems] have "server_ok L s1" "kept s1 = kept s"
    by (metis snd_conv)+
  with Cons p show ?case by (auto simp: Let_def split: option.split sum.split)
qed simp

lemma catalogue_build:
  assumes "server_ok L s"
  shows "catalogue (snd (Build L c hb s)) = catalogue s"
proof (cases "hb_Validate (Some hb) = None \<and> (\<exists>art. Resolve (hbArtifact hb) s = Inr art \<and> a_TargetHash art \<noteq> '''' \<and> hbVersionHash hb \<noteq> a_TargetHash art)")
  case False
  then show ?thesis by (auto simp: Build_def Let_def split: option.splits sum.splits if_splits)
next
  case True
  then obtain art where v: "hb_Validate (Some hb) = None" and art: "Resolve (hbArtifact hb) s = Inr art"
    and ne: "a_TargetHash art \<noteq> ''''" "hbVersionHash hb \<noteq> a_TargetHash art" by blast
  have "current art s" by (rule Resolve_current [OF art server_okD(2,3) [OF assms(1)]])
  then have t: "IsValidHash (a_TargetHash art)" by (simp add: current_def)
  have memo: "catalogue (memoize art f resp s1) = catalogue s1" for f resp and s1 :: "'a manifester_scheme"
    by (simp add: memoize_def catalogue_def kept_def)
  have cache: "catalogue (s1\<lparr>mf_cache := c1\<rparr>) = catalogue s1" for c1 and s1 :: "'a manifester_scheme"
    by (simp add: catalogue_def kept_def)
  obtain known s1 where k: "source_known hb art s = (known, s1)" by fastforce
  note s1 = catalogue_ensures [OF source_known_ensures assms k] ensures_server [OF source_known_ensures assms k]
  define ck where "ck = cacheKey (key_string (a_Key art)) (if known then hbVersionHash hb else '''') (a_TargetHash art)"
  obtain r1 c1 where g: "e_Get ck (mf_cache s1) = (r1, c1)" by fastforce
  let ?s1 = "s1\<lparr>mf_cache := c1\<rparr>"
  have ok: "server_ok L ?s1" using cache_server(1) [OF _ g] s1 by blast
  have delta: "catalogue (snd (buildDelta L hb art ?s1)) = catalogue ?s1" if "known"
  proof -
    obtain r2 s2 where 2: "GetDeltaBytes (hbVersionHash hb) (a_TargetHash art) ?s1 = (r2, s2)" by fastforce
    with catalogue_ensures [OF GetDeltaBytes_ensures [OF _ t] ok 2] s1 that memo show ?thesis
      by (auto simp: buildDelta_def split: sum.split option.split)
  qed
  have full: "catalogue (snd (buildFull L c hb art ?s1)) = catalogue ?s1"
  proof -
    obtain r2 s2 where 2: "GetBinaryBytes L c (a_TargetHash art) ?s1 = (r2, s2)" by fastforce
    with catalogue_ensures [OF GetBinaryBytes_ensures [OF t] ok 2] memo show ?thesis
      by (auto simp: buildFull_def split: sum.split option.split)
  qed
  have d: "catalogue (snd (case buildDelta L hb art ?s1 of
             (Inl e, s) \<Rightarrow> (Inl e, s) | (Inr None, s) \<Rightarrow> (Inr (retry_response art (mf_retryAfter s)), s)
           | (Inr (Some resp), s) \<Rightarrow> (Inr resp, s))) = catalogue (snd (buildDelta L hb art ?s1))"
    by (auto split: prod.split sum.split option.split)
  have "catalogue (snd (build_uncached L c hb art known ?s1)) = catalogue ?s1"
    using full d delta unfolding build_uncached_def by (auto split: prod.split sum.split option.split)
  then show ?thesis
    using v art ne k g s1 cache by (auto simp: Build_def Let_def ck_def [symmetric] split: option.split)
qed

lemma kept_build: "server_ok L s \<Longrightarrow> kept (snd (Build L c hb s)) = kept s"
  using catalogue_build [of L s c hb] by (simp add: catalogue_def)

lemma server_step_kept: "server_step L s s' \<Longrightarrow> server_ok L s \<Longrightarrow> kept s' = kept s"
proof (induction rule: server_step.induct)
  case (store s s')
  have k: "keeps L s w \<Longrightarrow> kept w = kept s" for w
    using keeps_server [of L s w] store.prems kept_more by blast
  have t: "kept (s\<lparr>clock := d\<rparr>) = kept s" for d by (simp add: kept_def)
  show ?case
    using store.hyps
    by (cases rule: store_stepE) (use k t in \<open>blast intro: steps_keep run_generation_keeps Remove_keeps InvalidateHot_keeps\<close>)+
next
  case (set_default s key)
  then show ?case using kept_persist [of L s _ "rg_artifacts s"] by (auto simp: SetDefault_def Let_def)
next
  case (remove s key)
  then show ?case by (simp add: reg_Remove_def Let_def kept_persist)
next
  case (republish s key)
  then show ?case by (auto simp: Republish_def kept_publish split: option.split)
next
  case (invalidate s)
  show ?case by (simp add: kept_def Invalidate_def)
next
  case (sweep s ro c)
  then show ?case using keeps_server [OF Sweep_keeps] kept_more by blast
qed (simp_all add: kept_publish kept_reconcile kept_build)

lemma server_run_kept: "server_run L s s' \<Longrightarrow> server_ok L s \<Longrightarrow> kept s' = kept s"
proof (induction rule: rtranclp_induct)
  case (step s1 s2)
  then show ?case using server_step_kept [OF step.hyps(2) server_run_ok [OF step.hyps(1)]] by simp
qed simp

section \<open>Start\<close>

text \<open>The part of \<open>run\<close> in \<open>cmd/update-server/main.go\<close> that puts the three together, and the one that
  publishes the artifacts of the configuration. The callback of the registry is \<open>InvalidateArtifact\<close>.\<close>

definition server_open ::
  "(string \<Rightarrow> err + statfs) \<Rightarrow> bytes \<Rightarrow> store_options \<Rightarrow> registry_options \<Rightarrow> manifester_config \<Rightarrow>
   'z manifester_scheme \<Rightarrow> err option \<times> 'z manifester_scheme" where
  "server_open statfs priv so ro mc s =
     (case Open statfs so s of
        (Inl e, s) \<Rightarrow> (Some (Wrap ''open store'' e), s)
      | (Inr warnings, s) \<Rightarrow>
          (case NewRegistry ro s of
             (Some e, s) \<Rightarrow> (Some (Wrap ''open registry'' e), s)
           | (None, s) \<Rightarrow> (None, NewManifester priv mc s)))"

definition server_boot ::
  "lib \<Rightarrow> (string \<Rightarrow> err + statfs) \<Rightarrow> bytes \<Rightarrow> store_options \<Rightarrow> registry_options \<Rightarrow> manifester_config \<Rightarrow>
   artifact_yaml list \<Rightarrow> 'z manifester_scheme \<Rightarrow> err option \<times> 'z manifester_scheme" where
  "server_boot L statfs priv so ro mc arts s =
     (case server_open statfs priv so ro mc s of
        (Some e, s) \<Rightarrow> (Some e, s)
      | (None, s) \<Rightarrow>
          (case ReconcileConfig L InvalidateArtifact arts s of
             (Some e, s) \<Rightarrow> (Some (Wrap ''reconcile artifacts'' e), s)
           | (None, s) \<Rightarrow> (None, s)))"

lemma load_artifacts_ok:
  assumes "load_artifacts as s = (None, s')" "store_good L s" "registry_ok s"
  shows "store_good L s' \<and> registry_ok s' \<and> rg_opts s' = rg_opts s \<and> st_opts s' = st_opts s"
  using assms
proof (induction as s rule: load_artifacts.induct)
  case (3 a as s)
  show ?case
  proof (cases "key_Validate (a_Key a)")
    case None
    let ?s1 = "snd (HasBinary (a_TargetHash a) s)"
    let ?s2 = "?s1\<lparr>rg_artifacts := put (key_string (a_Key a)) a (rg_artifacts ?s1)\<rparr>"
    have k: "keeps L s ?s1" by (rule steps_keep)
    have "store_good L ?s2" using keeps_good [OF k "3.prems"(2)] by simp
    moreover have "registry_ok ?s2"
      using "3.prems"(3) None [unfolded key_Validate_iff] by (simp add: registry_ok_def HasBinary_registry)
    moreover have "load_artifacts as ?s2 = (None, s')" using "3.prems"(1) None by (simp add: Let_def)
    ultimately show ?thesis
      using "3.IH"(1) [OF None refl] keeps_opts [OF k "3.prems"(2)] by (simp add: HasBinary_registry)
  qed (use "3" in simp)
qed auto

lemma NewRegistry_ok:
  assumes "NewRegistry ro s = (None, s')" "store_good L s"
  shows "store_good L s' \<and> registry_ok s' \<and> ro_StatePath (rg_opts s') = ro_StatePath ro \<and> st_opts s' = st_opts s"
proof -
  define o1 where "o1 = (if ro_HistoryDepth ro \<le> 0 then ro\<lparr>ro_HistoryDepth := DefaultHistoryDepth\<rparr> else ro)"
  define s0 where "s0 = s\<lparr>rg_opts := o1, rg_artifacts := [], rg_default := ro_DefaultArtifact o1\<rparr>"
  have s0: "store_good L s0" "registry_ok s0" "rg_opts s0 = o1" "st_opts s0 = st_opts s"
    using assms(2) by (simp_all add: s0_def registry_ok_def wf_map_def)
  have o1: "ro_StatePath o1 = ro_StatePath ro" by (simp add: o1_def)
  obtain r1 s1 where 1: "os_ReadFile (ro_StatePath o1) s0 = (r1, s1)" by fastforce
  have same: "same_disk s0 s1 \<and> same_rest s0 s1" by (rule os_reads(3) [OF 1])
  have m: "os.more s1 = os.more s0" using same by (simp add: same_rest_def)
  have k: "keeps L s0 s1" by (rule keeps_same [OF same])
  have s1: "store_good L s1" "registry_ok s1" "rg_opts s1 = o1" "st_opts s1 = st_opts s"
    using keeps_good [OF k s0(1)] registry_more [OF m] s0 more_fields [OF m] by (auto simp: registry_ok_def)
  have load: "load s0 = (None, s')" using assms(1) by (simp add: NewRegistry_def Let_def s0_def o1_def)
  have "store_good L s' \<and> registry_ok s' \<and> rg_opts s' = o1 \<and> st_opts s' = st_opts s"
  proof (cases "s' = s0 \<or> s' = s1")
    case False
    then obtain as d where la: "load_artifacts as s1 = (None, d)" "s' = d \<or> (\<exists>n. s' = d\<lparr>rg_default := n\<rparr>)"
      using load 1 s0(3) by (auto simp: load_def split: if_splits sum.splits option.splits prod.splits)
    from load_artifacts_ok [OF la(1) s1(1,2)] la(2) s1 show ?thesis by (auto simp: registry_ok_def)
  qed (use s0 s1 in auto)
  with o1 show ?thesis by simp
qed

lemma server_open_ok:
  assumes "lib_ok L" "disk_good L so w" "server_open statfs priv so ro mc w = (None, s)" "targets_ok s"
    and "\<not> is_tmp (ro_StatePath ro)" "\<not> store_path so (ro_StatePath ro)"
  shows "server_ok L s" "mf_priv s = priv" "mf_allowFull s = mc_AllowFullDownload mc"
proof -
  obtain ws s1 s2 where 1: "Open statfs so w = (Inr ws, s1)" "NewRegistry ro s1 = (None, s2)" "s = NewManifester priv mc s2"
    using assms(3) by (auto simp: server_open_def split: prod.splits sum.splits option.splits)
  have s1: "store_good L s1" "st_opts s1 = store_defaults so" using Open_good [OF assms(1,2) 1(1)] by auto
  have s2: "store_good L s2" "registry_ok s2" "ro_StatePath (rg_opts s2) = ro_StatePath ro" "st_opts s2 = st_opts s1"
    using NewRegistry_ok [OF 1(2) s1(1)] by auto
  obtain p c r f l where nm: "s = s2\<lparr>mf_priv := p, mf_chunkSize := c, mf_retryAfter := r, mf_allowFull := f, mf_cache := newEntryLRU l\<rparr>"
    using 1(3) by (simp add: NewManifester_def Let_def)
  have "store_good L s" using s2(1) by (simp add: nm store_good_iff disk_good_def mem_ok_def snap_def)
  moreover have "registry_ok s" "paths_ok s"
    using s2 s1(2) assms(5,6) by (simp_all add: nm registry_ok_def paths_ok_def)
  moreover have "entry.holds P (mf_cache s)" for P
  proof -
    have "mf_cache s = newEntryLRU l" by (simp add: nm)
    moreover have "e_ll (mf_cache s) = []" by (simp add: nm newEntryLRU_def)
    ultimately show ?thesis unfolding entry.holds_def by (metis newEntryLRU_inv map_of.simps(1) option.distinct(1))
  qed
  ultimately show "server_ok L s" using assms(4) by (simp only: server_ok_def simp_thms)
  show "mf_priv s = priv" "mf_allowFull s = mc_AllowFullDownload mc" using 1(3) by (simp_all add: NewManifester_def Let_def)
qed

section \<open>Properties\<close>

lemma endpoint_not_Nil [simp]: "protocol_BinaryPath t \<noteq> ''''" "protocol_DeltaPath f t \<noteq> ''''"
  by (simp_all add: protocol_BinaryPath_def protocol_DeltaPath_def PathBinary_def PathDelta_def)

lemma manifest_for_verifies:
  assumes "manifest_for L s k v t src d resp" "lib_ok L"
  shows "verify_manifest L (lib_Public L (mf_priv s)) resp = None"
  using assms sign_verify [OF assms(2)] by (auto simp: manifest_for_def verify_manifest_def)

text \<open>What a manifest promises to a device that runs a binary with digest \<open>f\<close>.\<close>

definition transfer_ok :: "lib \<Rightarrow> string \<Rightarrow> manifest_response \<Rightarrow> bool" where
  "transfer_ok L f resp \<longleftrightarrow>
     (\<exists>d b. DeltaHash resp = sha256HexBytes L d \<and> DeltaSize resp = int (length d) \<and> sha256HexBytes L b = TargetHash resp \<and>
        (if BinaryEndpoint resp \<noteq> '''' then DecompressBytes L d = Inr b
         else \<exists>a. sha256HexBytes L a = f \<and> delta_Apply L a d = Inr b))"

lemma manifest_for_transfer:
  assumes "manifest_for L s k v t src d resp" "lib_ok L" "src = '''' \<or> src = f"
  shows "transfer_ok L f resp"
proof (cases "src = ''''")
  case True
  then obtain b where "sha256HexBytes L b = t" "DecompressBytes L d = Inr b" "BinaryEndpoint resp \<noteq> ''''"
    using assms(1) full_for_decompresses [OF assms(2)] by (auto simp: manifest_for_def)
  then show ?thesis using assms(1) by (auto simp: transfer_ok_def manifest_for_def)
next
  case False
  then have "delta_for L src t d" "BinaryEndpoint resp = ''''" using assms(1) by (auto simp: manifest_for_def)
  then obtain a b where "sha256HexBytes L a = src" "sha256HexBytes L b = t" "delta_Apply L a d = Inr b" "BinaryEndpoint resp = ''''"
    using delta_for_applies [OF assms(2)] by blast
  then show ?thesis using assms(1,3) False by (auto simp: transfer_ok_def manifest_for_def)
qed

text \<open>A server on two empty directories, with a registry that is not persisted. Two versions are published, a
  device that runs the first asks, the delta is generated, and the device asks again.\<close>

definition front_lib :: lib where
  "front_lib = sample_lib\<lparr>lib_sha := (\<lambda>b. replicate 32 (if b = ''old'' then CHR 0x01 else CHR 0x02))\<rparr>"

definition front_key :: bytes where "front_key = replicate 64 (CHR ''k'')"

definition front_registry :: registry_options where
  "front_registry = \<lparr>ro_StatePath = '''', ro_HistoryDepth = 2, ro_DefaultArtifact = ''''\<rparr>"

definition front_config :: manifester_config where
  "front_config = \<lparr>mc_ChunkSize = 0, mc_RetryAfter = 0, mc_CacheSize = 0, mc_AllowFullDownload = True\<rparr>"

definition front_process :: manifester where
  "front_process = registry.extend (store.extend sample_process (registry.fields front_registry [] ''''))
     (manifester.fields '''' 0 0 False (newEntryLRU 1))"

definition front_opened :: manifester where
  "front_opened = snd (server_open no_statfs front_key sample_store_options front_registry front_config front_process)"

definition front_published :: manifester where
  "front_published = snd (PublishBytes front_lib InvalidateArtifact sample_key ''1.1'' ''new''
     (snd (PublishBytes front_lib InvalidateArtifact sample_key ''1.0'' ''old'' front_opened)))"

definition front_heartbeat :: heartbeat where
  "front_heartbeat = \<lparr>hbDeviceID = ''d'', hbVersionHash = sha256HexBytes front_lib ''old'',
     hbHWInfo = \<lparr>hwArch = '''', hwOS = '''', hwFreeRAM = 0, hwFreeDisk = 0\<rparr>, hbTimestamp = 0, hbVersion = ''1.0'', hbArtifact = ''''\<rparr>"

definition front_ready :: manifester where
  "front_ready = run_generation front_lib 0 (snd (Build front_lib None front_heartbeat front_published))"

definition front_answer :: manifest_response where
  "front_answer = (case fst (Build front_lib None front_heartbeat front_ready) of Inr resp \<Rightarrow> resp | Inl e \<Rightarrow> no_update '''')"

lemma front_lib_ok: "lib_ok front_lib"
  by (auto simp: lib_ok_def front_lib_def sample_lib_def pad32_def PrivateKeySize_def PublicKeySize_def)

lemma front_open:
  "disk_good L sample_store_options front_process"
  "server_open no_statfs front_key sample_store_options front_registry front_config front_process = (None, front_opened)"
  "targets_ok front_opened" "\<not> is_tmp (ro_StatePath front_registry)"
  "\<not> store_path sample_store_options (ro_StatePath front_registry)"
proof -
  show "disk_good L sample_store_options front_process"
    using sample_process_good [of L] by (simp add: disk_good_def snap_def front_process_def store.defs registry.defs)
  have "fst (server_open no_statfs front_key sample_store_options front_registry front_config front_process) = None"
    by code_simp
  then show "server_open no_statfs front_key sample_store_options front_registry front_config front_process = (None, front_opened)"
    by (simp add: front_opened_def prod_eq_iff)
  have "rg_artifacts front_opened = []" by code_simp
  then show "targets_ok front_opened" by (simp add: targets_ok_def)
  show "\<not> is_tmp (ro_StatePath front_registry)" by code_simp
  have "length (path_base '''') \<le> 64" by code_simp
  then show "\<not> store_path sample_store_options (ro_StatePath front_registry)"
    using store_path_long [of sample_store_options "''''"] by (auto simp: sample_store_options_def front_registry_def)
qed

lemma front_run: "server_run front_lib front_opened front_ready"
proof -
  let ?s = "snd (PublishBytes front_lib InvalidateArtifact sample_key ''1.0'' ''old'' front_opened)"
  have "server_step front_lib front_opened ?s" "server_step front_lib ?s front_published"
    unfolding front_published_def by (rule server_step.publish_bytes)+
  moreover have "server_step front_lib front_published (snd (Build front_lib None front_heartbeat front_published))"
    by (rule server_step.build)
  moreover have "server_step front_lib (snd (Build front_lib None front_heartbeat front_published)) front_ready"
    unfolding front_ready_def by (intro server_step.store store_step.generation)
  ultimately show ?thesis by (meson rtranclp.rtrancl_refl rtranclp.rtrancl_into_rtrancl)
qed

lemma front_build:
  "\<exists>s2. Build front_lib None front_heartbeat front_ready = (Inr front_answer, s2)"
  "DeltaSize front_answer = 4" "TargetVersion front_answer = ''1.1''" "BinaryEndpoint front_answer = ''''"
  "RetryAfter front_answer = 0" "UpdateAvailable front_answer"
proof -
  have v: "(case fst (Build front_lib None front_heartbeat front_ready) of
        Inl e \<Rightarrow> None
      | Inr r \<Rightarrow> Some (DeltaSize r, TargetVersion r, BinaryEndpoint r, RetryAfter r, UpdateAvailable r)) =
    Some (4, ''1.1'', '''', 0, True)" by code_simp
  then have "fst (Build front_lib None front_heartbeat front_ready) = Inr front_answer"
    by (auto simp: front_answer_def split: sum.splits)
  with v show "\<exists>s2. Build front_lib None front_heartbeat front_ready = (Inr front_answer, s2)"
    "DeltaSize front_answer = 4" "TargetVersion front_answer = ''1.1''" "BinaryEndpoint front_answer = ''''"
    "RetryAfter front_answer = 0" "UpdateAvailable front_answer" by (simp_all) (metis prod.collapse)
qed

lemma no_update_fields: "\<not> UpdateAvailable (no_update k)"
  by (simp add: no_update_def)

lemma retry_fields: "RetryAfter (retry_response a n) = n"
  by (simp add: retry_response_def)

lemma Build_trusted:
  assumes "lib_ok L" "disk_good L so w" "server_open statfs priv so ro mc w = (None, s)" "targets_ok s"
    and "\<not> is_tmp (ro_StatePath ro)" "\<not> store_path so (ro_StatePath ro)"
    and "server_run L s s1" "Build L c hb s1 = (Inr resp, s2)"
  shows "\<exists>a. Resolve (hbArtifact hb) s1 = Inr a \<and>
    (resp = no_update (key_string (a_Key a)) \<and> (hbVersionHash hb = a_TargetHash a \<or> \<not> mc_AllowFullDownload mc) \<or>
     resp = retry_response a (mf_retryAfter s) \<and> IsValidHash (hbVersionHash hb) \<or>
     respArtifact resp = key_string (a_Key a) \<and> TargetVersion resp = a_Version a \<and> TargetHash resp = a_TargetHash a \<and>
     verify_manifest L (lib_Public L priv) resp = None \<and> transfer_ok L (hbVersionHash hb) resp)"
proof -
  note s = server_open_ok [OF assms(1-6)]
  have s1: "server_ok L s1" "kept s1 = kept s" using server_run_ok server_run_kept assms(7) s(1) by blast+
  obtain a where a: "Resolve (hbArtifact hb) s1 = Inr a" "answers L hb a s1 resp"
    using Build_server [OF assms(8) s1(1)] by blast
  have m: "mf_priv s1 = priv" "mf_retryAfter s1 = mf_retryAfter s" "mf_allowFull s1 = mc_AllowFullDownload mc"
    using s1(2) s(2,3) by (simp_all add: kept_def)
  have "respArtifact resp = key_string (a_Key a) \<and> TargetVersion resp = a_Version a \<and> TargetHash resp = a_TargetHash a \<and>
      verify_manifest L (lib_Public L priv) resp = None \<and> transfer_ok L (hbVersionHash hb) resp"
    if "manifest_for L s1 (key_string (a_Key a)) (a_Version a) (a_TargetHash a) src d resp" "src = '''' \<or> src = hbVersionHash hb" for src d
    using manifest_for_verifies [OF that(1) assms(1)] manifest_for_transfer [OF that(1) assms(1) that(2)] that(1)
    unfolding m manifest_for_def by blast
  with a m show ?thesis unfolding answers_def by (auto split: if_splits)
qed

lemma reconstruct_transfer:
  assumes "transfer_ok L f resp" "map_of (files w) p = Some (EFile (Raw old) m t sy)" "p \<noteq> u_deltaStaging u" "faults w = []"
    and "sha256HexBytes L old = f" "\<forall>a. sha256HexBytes L a = f \<longrightarrow> a = old"
  shows "\<exists>d new. sha256HexBytes L d = DeltaHash resp \<and> DeltaSize resp = int (length d) \<and>
    sha256HexBytes L new = TargetHash resp \<and>
    fst (reconstruct L u p resp (w\<lparr>files := put (u_deltaStaging u) (EFile (Raw d) m' t' sy') (files w)\<rparr>)) = Inr new"
proof -
  obtain d b where d: "DeltaHash resp = sha256HexBytes L d" "DeltaSize resp = int (length d)" "sha256HexBytes L b = TargetHash resp"
    "if BinaryEndpoint resp \<noteq> '''' then DecompressBytes L d = Inr b else \<exists>a. sha256HexBytes L a = f \<and> delta_Apply L a d = Inr b"
    using assms(1) unfolding transfer_ok_def by blast
  let ?w = "w\<lparr>files := put (u_deltaStaging u) (EFile (Raw d) m' t' sy') (files w)\<rparr>"
  have patched: "delta_Apply L old d = Inr b" if "BinaryEndpoint resp = ''''" using d(4) assms(6) that by auto
  have "fst (reconstruct L u p resp ?w) = Inr b"
    using d(3,4) patched assms(2-4)
    by (cases "BinaryEndpoint resp = ''''") (simp_all add: reconstruct_def os_ReadFile_def tick_def)
  with d show ?thesis by metis
qed



text \<open>C3. An update reaches the device, across the two programs: whenever the server, after any run from a start
  on a good disk, answers a heartbeat with a manifest, the manifest is about the artifact's current target,
  it passes the check of a device that holds the server's public key, and there is a transfer with the
  announced digest and size such that a device that runs the reported binary and has this transfer staged
  reconstructs a binary with the target's digest. The digest of the running binary must have no other
  preimage.\<close>

theorem update_reaches_device:
  assumes "lib_ok L" "disk_good L so w" "server_open statfs priv so ro mc w = (None, s)" "targets_ok s"
    and "\<not> is_tmp (ro_StatePath ro)" "\<not> store_path so (ro_StatePath ro)"
    and "server_run L s s1" "Build L c hb s1 = (Inr resp, s2)" "UpdateAvailable resp" "RetryAfter resp = 0"
    and "map_of (files v) p = Some (EFile (Raw old) m t sy)" "p \<noteq> u_deltaStaging u" "faults v = []"
    and "sha256HexBytes L old = hbVersionHash hb" "\<forall>a. sha256HexBytes L a = hbVersionHash hb \<longrightarrow> a = old"
  shows "verify_manifest L (lib_Public L priv) resp = None \<and>
    map_option a_TargetHash (case Resolve (hbArtifact hb) s1 of Inl e \<Rightarrow> None | Inr a \<Rightarrow> Some a) = Some (TargetHash resp) \<and>
    (\<exists>d new. sha256HexBytes L d = DeltaHash resp \<and> DeltaSize resp = int (length d) \<and>
       sha256HexBytes L new = TargetHash resp \<and>
       fst (reconstruct L u p resp (v\<lparr>files := put (u_deltaStaging u) (EFile (Raw d) m' t' sy') (files v)\<rparr>)) = Inr new)"
proof -
  have "mf_retryAfter s \<noteq> 0"
    using assms(3) by (auto simp: server_open_def NewManifester_def Let_def split: prod.splits sum.splits option.splits if_splits)
  then obtain a where a: "Resolve (hbArtifact hb) s1 = Inr a" "TargetHash resp = a_TargetHash a"
    "verify_manifest L (lib_Public L priv) resp = None" "transfer_ok L (hbVersionHash hb) resp"
    using Build_trusted [OF assms(1-8)] assms(9,10) no_update_fields retry_fields by metis
  note r = reconstruct_transfer [OF a(4) assms(11-15), of m' t' sy']
  show ?thesis using a(1-3) by (intro conjI r) simp_all
qed

definition front_device :: "nat os_scheme" where
  "front_device = sample_world\<lparr>files := [(''/slot'', EFile (Raw ''old'') 493 0 True)]\<rparr>"

theorem update_reaches_device_witness:
  "verify_manifest front_lib (lib_Public front_lib front_key) front_answer = None \<and>
   (\<exists>d new. sha256HexBytes front_lib d = DeltaHash front_answer \<and> sha256HexBytes front_lib new = TargetHash front_answer \<and>
      fst (reconstruct front_lib (sample_agent ExitRestart) ''/slot'' front_answer
        (front_device\<lparr>files := put ''/v/sd'' (EFile (Raw d) 420 0 True) (files front_device)\<rparr>)) = Inr new)"
proof -
  obtain s2 where b: "Build front_lib None front_heartbeat front_ready = (Inr front_answer, s2)" using front_build(1) by blast
  have h: "hbVersionHash front_heartbeat = sha256HexBytes front_lib ''old''" by (simp add: front_heartbeat_def)
  have one: "\<forall>a. sha256HexBytes front_lib a = hbVersionHash front_heartbeat \<longrightarrow> a = ''old''"
    by (auto simp: h sha256HexBytes_def front_lib_def dest: hex_encode_inj split: if_splits)
  have v: "map_of (files front_device) ''/slot'' = Some (EFile (Raw ''old'') 493 0 True)" "faults front_device = []"
    "u_deltaStaging (sample_agent ExitRestart) = ''/v/sd''" "''/slot'' \<noteq> u_deltaStaging (sample_agent ExitRestart)"
    by (simp_all add: front_device_def sample_world_def sample_agent_def)
  from update_reaches_device [OF front_lib_ok front_open front_run b front_build(6,5) v(1,4,2) h [symmetric] one, of 420 0 True]
  show ?thesis unfolding v(3) by blast
qed

section \<open>A publication between the lookup and the cache\<close>

text \<open>\<open>Build\<close> holds no lock: another request may move the target after the artifact was resolved and before
  the signed manifest is put into the cache, so after the cache was cleared.\<close>

lemma Resolve_cong: "rg_artifacts s' = rg_artifacts s \<Longrightarrow> rg_default s' = rg_default s \<Longrightarrow> Resolve n s' = Resolve n s"
  by (simp only: Resolve_def reg_Get_def)

lemma Resolve_retarget:
  assumes "server_ok L s" "Resolve n s = Inr art" "s1 = snd (setTarget InvalidateArtifact (a_Key art) v h z src s)"
  shows "\<exists>b. Resolve n s1 = Inr b \<and> a_Key b = a_Key art \<and> a_Version b = v \<and> a_TargetHash b = h"
proof -
  note ok = server_okD [OF assms(1)]
  have c: "current art s" by (rule Resolve_current [OF assms(2) ok(2,3)])
  then have old: "map_of (rg_artifacts s) (key_string (a_Key art)) = Some art" by (simp add: current_def)
  define b where "b = retarget (ro_HistoryDepth (rg_opts s)) (clock s) v h z src art"
  have arts: "rg_artifacts s1 = put (key_string (a_Key art)) b (rg_artifacts s)"
    using setTarget_artifacts(1) [OF ok(7) keeps_registry_Invalidate] old by (simp add: assms(3) setTarget_artifact b_def)
  have b: "a_Key b = a_Key art" "a_Version b = v" "a_TargetHash b = h" by (simp_all add: b_def)
  show ?thesis
  proof (cases "n = ''''")
    case True
    with assms(2) have d: "rg_default s \<noteq> ''''" "map_of (rg_artifacts s) (rg_default s) = Some art"
      by (auto simp: Resolve_def split: if_splits option.splits)
    then have k: "rg_default s = key_string (a_Key art)" using ok(2) by (auto simp: registry_ok_def)
    have "rg_default s1 = rg_default s"
      using ok(7) d(1) by (simp add: assms(3) setTarget_def Let_def InvalidateArtifact_def persist_registry)
    with True d(1) k arts b show ?thesis by (simp add: Resolve_def)
  next
    case False
    then obtain key where key: "ParseArtifactKey n = Inr key" "map_of (rg_artifacts s) (key_string key) = Some art"
      using assms(2) by (auto simp: Resolve_def reg_Get_def split: sum.splits option.splits)
    then have "key_string key = key_string (a_Key art)" using ok(2) by (auto simp: registry_ok_def)
    with key False arts b show ?thesis by (simp add: Resolve_def reg_Get_def)
  qed
qed

lemma Build_cached:
  assumes "hb_Validate (Some hb) = None" "Resolve (hbArtifact hb) s = Inr a" "a_TargetHash a \<noteq> ''''"
    and "\<not> IsValidHash (hbVersionHash hb)" "hbVersionHash hb \<noteq> a_TargetHash a"
    and "e_inv (mf_cache s)" "map_of (e_ll (mf_cache s)) (cacheKey (key_string (a_Key a)) '''' (a_TargetHash a)) = Some resp"
  shows "fst (Build L c hb s) = Inr resp"
proof -
  obtain r c' where g: "e_Get (cacheKey (key_string (a_Key a)) '''' (a_TargetHash a)) (mf_cache s) = (r, c')" by fastforce
  have "r = Some resp"
    using entry.get_view [OF assms(6), of "cacheKey (key_string (a_Key a)) '''' (a_TargetHash a)"] g assms(7) by simp
  with g assms(1-5) show ?thesis by (simp add: Build_def Let_def source_known_def)
qed

text \<open>C34. A manifest can be stale after all: the same bytes are published under a new version between the
  moment a heartbeat of a device with an unknown version resolves the artifact and the moment its answer is
  put into the cache. The cache was cleared before the entry went in, and the entry has the key of the new
  version too: from then on the server answers such a device with the old version, while the registry has
  the new one.\<close>

theorem publish_race_leaves_stale_manifest:
  assumes "server_ok L s" "hb_Validate (Some hb) = None" "\<not> IsValidHash (hbVersionHash hb)" "mf_allowFull s"
    and "Resolve (hbArtifact hb) s = Inr art"
    and "s1 = snd (setTarget InvalidateArtifact (a_Key art) v (a_TargetHash art) z src s)"
    and "build_uncached L c hb art False s1 = (Inr resp, s2)"
  shows "fst (Build L c' hb s2) = Inr resp \<and> TargetVersion resp = a_Version art \<and>
    map_option a_Version (case Resolve (hbArtifact hb) s2 of Inl e \<Rightarrow> None | Inr a \<Rightarrow> Some a) = Some v"
proof -
  note ok = server_okD [OF assms(1)]
  have cur: "current art s" by (rule Resolve_current [OF assms(5) ok(2,3)])
  then have art: "valid_key (a_Key art)" "IsValidHash (a_TargetHash art)" by (simp_all add: current_def)
  have s1: "server_ok L s1" unfolding assms(6) by (rule setTarget_server [OF assms(1) art])
  have "kept s1 = kept s" unfolding assms(6) by (rule kept_setTarget [OF assms(1)])
  then have full: "mf_allowFull s1" using assms(4) by (simp add: kept_def)
  obtain b where b: "Resolve (hbArtifact hb) s1 = Inr b" "a_Key b = a_Key art" "a_Version b = v" "a_TargetHash b = a_TargetHash art"
    using Resolve_retarget [OF assms(1,5,6)] by blast
  obtain r3 s3 where g: "GetBinaryBytes L c (a_TargetHash art) s1 = (r3, s3)" by fastforce
  from ensures_server [OF GetBinaryBytes_ensures [OF art(2)] s1 g] have s3: "server_ok L s3" "store.more s3 = store.more s1" by auto
  obtain d where d: "r3 = Inr (Some d)" "sign_manifest L art d (protocol_BinaryPath (a_TargetHash art)) True s3 = Inr resp"
    "s2 = memoize art '''' resp s3"
    using assms(7) full g by (auto simp: build_uncached_def buildFull_def split: sum.splits option.splits)
  have "rg_artifacts s2 = rg_artifacts s1" "rg_default s2 = rg_default s1"
    using server_more [OF s3(2)] by (simp_all add: d(3) memoize_def)
  then have res: "Resolve (hbArtifact hb) s2 = Inr b" using Resolve_cong b(1) by metis
  have inv: "e_inv (mf_cache s3)" using server_okD(5) [OF s3(1)] by (simp add: entry.holds_def)
  let ?k = "cacheKey (key_string (a_Key b)) '''' (a_TargetHash b)"
  have c2: "mf_cache s2 = e_Put ?k resp (mf_cache s3)" by (simp add: d(3) memoize_def b)
  have "e_inv (mf_cache s2)" unfolding c2 by (rule entry.insert_inv [OF inv])
  moreover have "map_of (e_ll (mf_cache s2)) ?k = Some resp" unfolding c2 by (rule entry.accepted [OF inv TrueI])
  moreover have "a_TargetHash b \<noteq> ''''" "hbVersionHash hb \<noteq> a_TargetHash b"
    using art(2) b(4) assms(3) IsValidHash_length [OF art(2)] by auto
  ultimately have "fst (Build L c' hb s2) = Inr resp" by (intro Build_cached [OF assms(2) res _ assms(3)])
  moreover have "TargetVersion resp = a_Version art"
    using d(2) by (auto simp: sign_manifest_def Let_def split: sum.splits)
  ultimately show ?thesis using res b(3) by simp
qed

text \<open>A device that cannot name its version, and a version that is named a second time.\<close>

definition lost_heartbeat :: heartbeat where
  "lost_heartbeat = front_heartbeat\<lparr>hbVersionHash := ''''\<rparr>"

definition front_first :: manifester where
  "front_first = snd (PublishBytes front_lib InvalidateArtifact sample_key ''1.0'' ''old'' front_opened)"

definition front_artifact :: artifact where
  "front_artifact = \<lparr>a_Key = sample_key, a_Version = ''1.0'', a_TargetHash = sha256HexBytes front_lib ''old'', a_TargetSize = 3,
     a_UpdatedAt = 100, a_Source = '''', a_History = []\<rparr>"

definition front_renamed :: manifester where
  "front_renamed = snd (setTarget InvalidateArtifact sample_key ''2.0'' (a_TargetHash front_artifact) 3 '''' front_first)"

theorem publish_race_leaves_stale_manifest_witness:
  "\<exists>resp s2. build_uncached front_lib None lost_heartbeat front_artifact False front_renamed = (Inr resp, s2) \<and>
     fst (Build front_lib None lost_heartbeat s2) = Inr resp \<and> TargetVersion resp = ''1.0'' \<and>
     map_option a_Version (case Resolve '''' s2 of Inl e \<Rightarrow> None | Inr a \<Rightarrow> Some a) = Some ''2.0''"
proof -
  let ?b = "build_uncached front_lib None lost_heartbeat front_artifact False front_renamed"
  have "server_ok front_lib front_opened" by (rule server_open_ok(1) [OF front_lib_ok front_open])
  then have ok: "server_ok front_lib front_first" unfolding front_first_def by (rule PublishBytes_server)
  have "isl (fst ?b) = False" by code_simp
  then obtain resp s2 where b: "?b = (Inr resp, s2)" by (cases ?b) (metis fst_conv isl_def sum.exhaust)
  have "Resolve (hbArtifact lost_heartbeat) front_first = Inr front_artifact" by code_simp
  moreover have "hb_Validate (Some lost_heartbeat) = None" "\<not> IsValidHash (hbVersionHash lost_heartbeat)" "mf_allowFull front_first"
    "front_renamed = snd (setTarget InvalidateArtifact (a_Key front_artifact) ''2.0'' (a_TargetHash front_artifact) 3 '''' front_first)"
    "hbArtifact lost_heartbeat = ''''" "a_Version front_artifact = ''1.0''"
    by (code_simp, code_simp, code_simp, simp add: front_renamed_def front_artifact_def, code_simp, code_simp)
  ultimately show ?thesis
    using publish_race_leaves_stale_manifest [OF ok _ _ _ _ _ b, of "''2.0''" 3 "''''" None] b by (intro exI [of _ resp] exI [of _ s2]) simp
qed

end
