(* ===== verification/Metrics.thy ===== *)
theory Metrics
  imports Manifest
begin

text \<open>
  The process behind the two front ends: the state of the server extended by the counters of
  \<open>pkg/server/metrics.go\<close>, the log level, and the limiter of the admin endpoints. The counters that the
  handlers raise are kept, each under its name and labels; gauges, histograms and the counters that store
  and sweeper raise from inside are left out, and so is the text exposition, which is Prometheus's. A nil
  \<open>*Metrics\<close> is \<open>None\<close>. No counter has a say in what the server promises.
\<close>

record 'l front = manifester +
  fr_counts :: "(string list \<Rightarrow> nat) option"
  fr_level :: int
  fr_limiter :: "'l option"

definition NewMetrics :: "string list \<Rightarrow> nat" where
  "NewMetrics = (\<lambda>series. 0)"

definition inc :: "string list \<Rightarrow> ('l, 'z) front_scheme \<Rightarrow> ('l, 'z) front_scheme" where
  "inc series s = s\<lparr>fr_counts := map_option (\<lambda>m. m(series := m series + 1)) (fr_counts s)\<rparr>"

definition ObserveHeartbeat :: "string \<Rightarrow> string \<Rightarrow> ('l, 'z) front_scheme \<Rightarrow> ('l, 'z) front_scheme" where
  "ObserveHeartbeat transport result = inc [''updater_heartbeats_total'', transport, result]"

definition ObserveDeltaServe :: "string \<Rightarrow> string \<Rightarrow> string \<Rightarrow> ('l, 'z) front_scheme \<Rightarrow> ('l, 'z) front_scheme" where
  "ObserveDeltaServe transport hotHit mode = inc [''updater_deltas_served_total'', transport, hotHit, mode]"

definition codeLabel :: "nat \<Rightarrow> string" where
  "codeLabel code =
     (if 200 \<le> code \<and> code < 300 then ''2xx''
      else if 300 \<le> code \<and> code < 400 then ''3xx''
      else if 400 \<le> code \<and> code < 500 then
        (if code = 401 then ''Unauthorized'' else if code = 403 then ''Forbidden''
         else if code = 429 then ''Too Many Requests'' else ''4xx'')
      else if 500 \<le> code \<and> code < 600 then ''5xx''
      else ''unknown'')"

definition ObserveAdminRequest :: "string \<Rightarrow> nat \<Rightarrow> ('l, 'z) front_scheme \<Rightarrow> ('l, 'z) front_scheme" where
  "ObserveAdminRequest endpoint code = inc [''updater_admin_requests_total'', endpoint, codeLabel code]"

definition IncAdminRateLimited :: "('l, 'z) front_scheme \<Rightarrow> ('l, 'z) front_scheme" where
  "IncAdminRateLimited = inc [''updater_admin_rate_limited_total'']"

section \<open>The front matter changes no promise\<close>

definition front_eq :: "('l, 'z) front_scheme \<Rightarrow> ('l, 'z) front_scheme \<Rightarrow> bool" where
  "front_eq s s' \<longleftrightarrow> (\<exists>m l r. s' = s\<lparr>fr_counts := m, fr_level := l, fr_limiter := r\<rparr>)"

lemma front_eq_refl [simp]: "front_eq s s"
  unfolding front_eq_def by (intro exI [of _ "fr_counts s"] exI [of _ "fr_level s"] exI [of _ "fr_limiter s"]) simp

lemma front_eq_trans: "front_eq a b \<Longrightarrow> front_eq b c \<Longrightarrow> front_eq a c"
  unfolding front_eq_def by force

lemma front_eq_updates [simp]:
  "front_eq s (s\<lparr>fr_counts := m\<rparr>)" "front_eq s (s\<lparr>fr_level := l\<rparr>)" "front_eq s (s\<lparr>fr_limiter := r\<rparr>)"
proof -
  have "s\<lparr>fr_counts := m\<rparr> = s\<lparr>fr_counts := m, fr_level := fr_level s, fr_limiter := fr_limiter s\<rparr>"
    "s\<lparr>fr_level := l\<rparr> = s\<lparr>fr_counts := fr_counts s, fr_level := l, fr_limiter := fr_limiter s\<rparr>"
    "s\<lparr>fr_limiter := r\<rparr> = s\<lparr>fr_counts := fr_counts s, fr_level := fr_level s, fr_limiter := r\<rparr>" by simp_all
  then show "front_eq s (s\<lparr>fr_counts := m\<rparr>)" "front_eq s (s\<lparr>fr_level := l\<rparr>)" "front_eq s (s\<lparr>fr_limiter := r\<rparr>)"
    unfolding front_eq_def by blast+
qed

lemma front_eq_inc [simp]:
  "front_eq s (inc k s)" "front_eq s (ObserveHeartbeat a b s)" "front_eq s (ObserveDeltaServe a b c s)"
  "front_eq s (ObserveAdminRequest a n s)" "front_eq s (IncAdminRateLimited s)"
  by (simp_all add: inc_def ObserveHeartbeat_def ObserveDeltaServe_def ObserveAdminRequest_def IncAdminRateLimited_def)

lemma front_eq_fields:
  assumes "front_eq s s'"
  shows "rg_artifacts s' = rg_artifacts s" "rg_default s' = rg_default s" "rg_opts s' = rg_opts s"
    "files s' = files s" "st_opts s' = st_opts s" "mf_cache s' = mf_cache s"
  using assms by (auto simp: front_eq_def)

lemma front_eq_ok: "front_eq s s' \<Longrightarrow> server_ok L s \<Longrightarrow> server_ok L s'"
proof -
  assume "front_eq s s'" and s: "server_ok L s"
  then obtain m l r where e: "s' = s\<lparr>fr_counts := m, fr_level := l, fr_limiter := r\<rparr>" by (auto simp: front_eq_def)
  note ok = server_okD [OF s]
  have "entry_ok L s' = entry_ok L s" by (rule entry_ok_cong) (simp_all add: e shown_def fun_eq_iff)
  moreover have "store_good L s'" using ok(1) by (simp add: e store_good_iff disk_good_def mem_ok_def snap_def)
  moreover have "registry_ok s'" "targets_ok s'" "paths_ok s'"
    using ok by (simp_all add: e registry_ok_def targets_ok_def paths_ok_def)
  moreover have "mf_cache s' = mf_cache s" by (simp add: e)
  ultimately show ?thesis using ok(5) by (simp only: server_ok_def simp_thms)
qed

end
