(* ===== verification/Http.thy ===== *)
theory Http
  imports Net GoTime
begin

text \<open>
  The parts of \<open>net/http\<close> the server stands on: requests and replies, the patterns of \<open>ServeMux\<close>,
  \<open>MaxBytesReader\<close> in front of a JSON decoder, and \<open>ServeContent\<close> with the \<open>Range\<close> header. A path holds no
  percent escapes, and a request has none of the conditional headers (\<open>If-Match\<close>, \<open>If-Range\<close>, and so on),
  which the agent does not send. A JSON body is measured in its compact spelling. The lemmas show what the
  \<open>Range\<close> header of the agent's transport makes of a payload.
\<close>

section \<open>Requests and replies\<close>

record http_request =
  hq_Method :: string
  hq_Path :: string
  hq_Query :: "(string \<times> string) list"
  hq_Auth :: string
  hq_Range :: string
  hq_Body :: content
  hq_Ctx :: ctx

datatype reply_body = NoBody | ErrorText err | Doc content | Octets bytes | Parts "(int \<times> bytes) list"

record reply =
  rp_Status :: nat
  rp_Body :: reply_body

definition http_Error :: "nat \<Rightarrow> err \<Rightarrow> reply" where
  "http_Error code e = \<lparr>rp_Status = code, rp_Body = ErrorText e\<rparr>"

definition NotFound :: reply where
  "NotFound = http_Error 404 (Msg ''404 page not found'')"

text \<open>\<open>json.NewDecoder(http.MaxBytesReader(w, r.Body, limit))\<close>.\<close>

definition limited :: "nat \<Rightarrow> content \<Rightarrow> content option" where
  "limited limit c = (if length (bytes_of c) \<le> limit then Some c else None)"

section \<open>Ranges\<close>

text \<open>\<open>strconv.ParseInt(s, 10, 64)\<close>.\<close>

definition sign_digits :: "string \<Rightarrow> bool \<times> string" where
  "sign_digits s =
     (case s of
        [] \<Rightarrow> (False, [])
      | c # r \<Rightarrow> if c = CHR ''-'' then (True, r) else if c = CHR ''+'' then (False, r) else (False, s))"

definition parse_int64 :: "string \<Rightarrow> int option" where
  "parse_int64 s =
     (case sign_digits s of
        (neg, ds) \<Rightarrow>
          if ds = '''' then None
          else
            (case parse_digits 0 ds of
               None \<Rightarrow> None
             | Some n \<Rightarrow>
                 (let v = (if neg then - int n else int n) in if int64 v then Some v else None)))"

definition errNoOverlap :: err where
  "errNoOverlap = Sentinel ''invalid range: failed to overlap''"

definition errInvalidRange :: err where
  "errInvalidRange = Msg ''invalid range''"

text \<open>One range of the header: an error, a range outside the content, or start and length.\<close>

definition parse_one_range :: "string \<Rightarrow> int \<Rightarrow> err + (int \<times> int) option" where
  "parse_one_range ra sz =
     (case cut_at CHR ''-'' ra of
        None \<Rightarrow> Inl errInvalidRange
      | Some (start0, end0) \<Rightarrow>
          (let start = trim_space start0; end1 = trim_space end0
           in if start = '''' then
                (if end1 = '''' \<or> has_prefix end1 ''-'' then Inl errInvalidRange
                 else
                   (case parse_int64 end1 of
                      None \<Rightarrow> Inl errInvalidRange
                    | Some i \<Rightarrow>
                        if i < 0 then Inl errInvalidRange
                        else (let n = min i sz in Inr (Some (sz - n, n)))))
              else
                (case parse_int64 start of
                   None \<Rightarrow> Inl errInvalidRange
                 | Some i \<Rightarrow>
                     if i < 0 then Inl errInvalidRange
                     else if sz \<le> i then Inr None
                     else if end1 = '''' then Inr (Some (i, sz - i))
                     else
                       (case parse_int64 end1 of
                          None \<Rightarrow> Inl errInvalidRange
                        | Some j \<Rightarrow>
                            if j < i then Inl errInvalidRange
                            else Inr (Some (i, min j (sz - 1) - i + 1))))))"

fun parse_ranges :: "string list \<Rightarrow> int \<Rightarrow> bool \<Rightarrow> (int \<times> int) list \<Rightarrow> err + (int \<times> int) list" where
  "parse_ranges [] sz outside acc = (if outside \<and> acc = [] then Inl errNoOverlap else Inr acc)"
| "parse_ranges (ra0 # ras) sz outside acc =
     (let ra = trim_space ra0
      in if ra = '''' then parse_ranges ras sz outside acc
         else
           (case parse_one_range ra sz of
              Inl e \<Rightarrow> Inl e
            | Inr None \<Rightarrow> parse_ranges ras sz True acc
            | Inr (Some r) \<Rightarrow> parse_ranges ras sz outside (acc @ [r])))"

definition parseRange :: "string \<Rightarrow> int \<Rightarrow> err + (int \<times> int) list" where
  "parseRange s sz =
     (if s = '''' then Inr []
      else if \<not> has_prefix s ''bytes='' then Inl errInvalidRange
      else parse_ranges (split_on CHR '','' (drop 6 s)) sz False [])"

definition sub_bytes :: "bytes \<Rightarrow> int \<times> int \<Rightarrow> bytes" where
  "sub_bytes data r = take (nat (snd r)) (drop (nat (fst r)) data)"

text \<open>\<open>http.ServeContent\<close> of a byte slice with the zero time.\<close>

definition serve_content :: "string \<Rightarrow> bytes \<Rightarrow> reply" where
  "serve_content hdr data =
     (let sz = int (length data)
      in case parseRange hdr sz of
           Inl e \<Rightarrow>
             if e = errNoOverlap \<and> sz = 0 then \<lparr>rp_Status = 200, rp_Body = Octets data\<rparr>
             else http_Error 416 e
         | Inr ranges0 \<Rightarrow>
             (let ranges = (if sz < sum_list (map snd ranges0) then [] else ranges0)
              in case ranges of
                   [] \<Rightarrow> \<lparr>rp_Status = 200, rp_Body = Octets data\<rparr>
                 | [r] \<Rightarrow> \<lparr>rp_Status = 206, rp_Body = Octets (sub_bytes data r)\<rparr>
                 | _ \<Rightarrow> \<lparr>rp_Status = 206, rp_Body = Parts (map (\<lambda>r. (fst r, sub_bytes data r)) ranges)\<rparr>))"

section \<open>ServeMux\<close>

definition clean_url_path :: "string \<Rightarrow> string" where
  "clean_url_path p0 =
     (let p = (if has_prefix p0 ''/'' then p0 else CHR ''/'' # p0);
          np = path_clean p
      in if last p = CHR ''/'' \<and> np \<noteq> ''/'' then np @ ''/'' else np)"

definition url_segments :: "string \<Rightarrow> string list" where
  "url_segments p = split_on CHR ''/'' (drop 1 p)"

text \<open>A pattern: a method, and segments that are literal or a wildcard of one segment. \<open>GET\<close> covers
  \<open>HEAD\<close>.\<close>

datatype seg = Lit string | Wild

fun match_segs :: "seg list \<Rightarrow> string list \<Rightarrow> string list option" where
  "match_segs [] [] = Some []"
| "match_segs (Lit l # ps) (s # ss) = (if l = s then match_segs ps ss else None)"
| "match_segs (Wild # ps) (s # ss) = (if s = '''' then None else map_option (Cons s) (match_segs ps ss))"
| "match_segs _ _ = None"

definition method_ok :: "string \<Rightarrow> string \<Rightarrow> bool" where
  "method_ok pat m \<longleftrightarrow> pat = m \<or> pat = ''GET'' \<and> m = ''HEAD''"

text \<open>Routes of one mux, with what they lead to. No two of the program's patterns overlap.\<close>

type_synonym 'h routes = "(string \<times> seg list \<times> (string list \<Rightarrow> 'h)) list"

fun find_route :: "'h routes \<Rightarrow> string \<Rightarrow> string list \<Rightarrow> 'h option" where
  "find_route [] m ss = None"
| "find_route ((pm, ps, h) # rs) m ss =
     (case match_segs ps ss of
        Some vs \<Rightarrow> if method_ok pm m then Some (h vs) else find_route rs m ss
      | None \<Rightarrow> find_route rs m ss)"

definition path_known :: "'h routes \<Rightarrow> string list \<Rightarrow> bool" where
  "path_known rs ss \<longleftrightarrow> list_ex (\<lambda>(pm, ps, h). match_segs ps ss \<noteq> None) rs"

text \<open>What a mux does with a request: redirect to the clean path, run a handler, or refuse. A catch-all
  pattern \<open>/\<close> takes what no other pattern takes.\<close>

datatype 'h routed = Redirect string | Run 'h | MethodNotAllowed | NoRoute

definition mux_route :: "'h routes \<Rightarrow> 'h option \<Rightarrow> string \<Rightarrow> string \<Rightarrow> 'h routed" where
  "mux_route rs catch_all m p =
     (let clean = clean_url_path p; ss = url_segments clean
      in if clean \<noteq> p then Redirect clean
         else
           (case find_route rs m ss of
              Some h \<Rightarrow> Run h
            | None \<Rightarrow>
                (case catch_all of
                   Some h \<Rightarrow> Run h
                 | None \<Rightarrow> if path_known rs ss then MethodNotAllowed else NoRoute)))"

type_synonym 's handler = "http_request \<Rightarrow> 's \<Rightarrow> reply \<times> 's"

definition mux_ServeHTTP :: "'s handler routes \<Rightarrow> 's handler option \<Rightarrow> 's handler" where
  "mux_ServeHTTP rs catch_all r s =
     (case mux_route rs catch_all (hq_Method r) (hq_Path r) of
        Redirect p \<Rightarrow> (\<lparr>rp_Status = 301, rp_Body = NoBody\<rparr>, s)
      | Run h \<Rightarrow> h r s
      | MethodNotAllowed \<Rightarrow> (http_Error 405 (Msg ''Method Not Allowed''), s)
      | NoRoute \<Rightarrow> (NotFound, s))"

text \<open>The server behind the handler: the reply to \<open>HEAD\<close> has no body.\<close>

definition http_serve :: "'s handler \<Rightarrow> 's handler" where
  "http_serve h r s =
     (case h r s of
        (rep, s) \<Rightarrow> (if hq_Method r = ''HEAD'' then rep\<lparr>rp_Body := NoBody\<rparr> else rep, s))"

section \<open>The ranges the agent asks for\<close>

definition range_header :: "int option \<Rightarrow> string" where
  "range_header r = (case r of None \<Rightarrow> '''' | Some d \<Rightarrow> ''bytes='' @ show_int d @ ''-'')"

lemma parse_show_nat: "parse_digits a (show_nat n) = Some (a * 10 ^ length (show_nat n) + n)"
proof (induction n arbitrary: a rule: show_nat.induct)
  case (1 n)
  show ?case
  proof (cases "n < 10")
    case True
    then show ?thesis using digit_char [of n] by (simp add: show_nat.simps [of n])
  next
    case False
    with "1.IH" [of a] digit_char [of "n mod 10"] show ?thesis
      by (simp add: show_nat.simps [of n] parse_digits_append algebra_simps)
  qed
qed

lemma show_nat_not_Nil [simp]: "show_nat n \<noteq> ''''"
  by (simp add: show_nat.simps [of n])

lemma digit_not:
  "is_digit c \<Longrightarrow> c \<noteq> CHR ''-''" "is_digit c \<Longrightarrow> c \<noteq> CHR ''+''" "is_digit c \<Longrightarrow> c \<noteq> CHR '',''"
  "is_digit c \<Longrightarrow> \<not> is_space c"
  by (auto simp: is_digit_def is_space_def less_eq_char_def)

lemma parse_int64_show: "int64 (int n) \<Longrightarrow> parse_int64 (show_nat n) = Some (int n)"
proof -
  assume n: "int64 (int n)"
  obtain c r where c: "show_nat n = c # r" by (cases "show_nat n") auto
  then have "is_digit c" using show_nat_digits [of c n] by simp
  then have "sign_digits (show_nat n) = (False, show_nat n)" by (simp add: sign_digits_def c digit_not)
  with n show ?thesis by (simp add: parse_int64_def parse_show_nat)
qed

lemma trim_space_id: "(\<And>c. c \<in> set s \<Longrightarrow> \<not> is_space c) \<Longrightarrow> trim_space s = s"
proof -
  assume a: "\<And>c. c \<in> set s \<Longrightarrow> \<not> is_space c"
  have d: "dropWhile is_space t = t" if "\<And>c. c \<in> set t \<Longrightarrow> \<not> is_space c" for t
    using that by (cases t) auto
  have "dropWhile is_space s = s" "dropWhile is_space (rev s) = rev s" using a by (auto intro!: d)
  then show ?thesis by (simp add: trim_space_def)
qed

lemma parseRange_resume:
  assumes "0 < d" "int64 d"
  shows "parseRange (range_header (Some d)) sz = (if sz \<le> d then Inl errNoOverlap else Inr [(d, sz - d)])"
proof -
  let ?n = "show_nat (nat d)"
  have h: "range_header (Some d) = ''bytes='' @ ?n @ ''-''" using assms by (simp add: range_header_def show_int_def)
  have dash: "\<not> is_space CHR ''-''" by (simp add: is_space_def)
  have c: "c \<noteq> CHR '','' \<and> \<not> is_space c" if "c \<in> set (?n @ ''-'')" for c
  proof (cases "c = CHR ''-''")
    case False
    then have "is_digit c" using that show_nat_digits by auto
    then show ?thesis using digit_not by blast
  qed (use dash in simp)
  have m: "c \<noteq> CHR ''-''" if "c \<in> set ?n" for c
    using digit_not(1) [OF show_nat_digits [OF that]] .
  have s: "split_on CHR '','' (?n @ ''-'') = [?n @ ''-'']" using c by (intro split_on_fresh) blast
  have t: "trim_space (?n @ ''-'') = ?n @ ''-''" using c by (intro trim_space_id) blast
  have t': "trim_space ?n = ?n" using c by (intro trim_space_id) (metis Un_iff set_append)
  have cut: "cut_at CHR ''-'' (?n @ ''-'') = Some (?n, '''')" using m by (auto simp: cut_at_Some)
  have "parse_int64 ?n = Some d" using parse_int64_show [of "nat d"] assms by simp
  with assms t t' cut have "parse_one_range (?n @ ''-'') sz = Inr (if sz \<le> d then None else Some (d, sz - d))"
    by (simp add: parse_one_range_def trim_space_def [of "''''"])
  moreover have "drop 6 (range_header (Some d)) = ?n @ ''-''" "has_prefix (range_header (Some d)) ''bytes=''"
    "range_header (Some d) \<noteq> ''''" by (simp_all add: h has_prefix_def)
  ultimately show ?thesis by (simp add: parseRange_def s t)
qed

lemma serve_whole: "serve_content '''' data = \<lparr>rp_Status = 200, rp_Body = Octets data\<rparr>"
  by (simp add: serve_content_def parseRange_def)

lemma serve_resume:
  assumes "0 < d" "int64 d"
  shows "serve_content (range_header (Some d)) data =
    (if data = [] then \<lparr>rp_Status = 200, rp_Body = Octets data\<rparr>
     else if int (length data) \<le> d then http_Error 416 errNoOverlap
     else \<lparr>rp_Status = 206, rp_Body = Octets (drop (nat d) data)\<rparr>)"
  using assms by (auto simp: serve_content_def parseRange_resume sub_bytes_def Let_def)

end
