(* ===== verification/Handlers.thy ===== *)
theory Handlers
  imports Metrics Http
begin

text \<open>
  The two front ends of \<open>pkg/server/http_handler.go\<close> and \<open>pkg/server/coap_handler.go\<close>: each endpoint is a
  function of the request and the state of the process. CBOR is a codec that is a parameter. No handler of
  the model panics, so the recovery of \<open>middleware.go\<close> has nothing to do; its body limits are here. The
  log is left out. The lemmas show that a request of a device never disturbs the registry, what each
  endpoint serves, and that the two front ends give the same answers.
\<close>

section \<open>HTTP\<close>

definition maxHeartbeatBody :: nat where "maxHeartbeatBody = push_bit 10 4"
definition maxReportBody :: nat where "maxReportBody = push_bit 10 4"

definition writeJSON :: "nat \<Rightarrow> content \<Rightarrow> reply" where
  "writeJSON status v = \<lparr>rp_Status = status, rp_Body = Doc v\<rparr>"

definition manifestResult :: "manifest_response \<Rightarrow> string" where
  "manifestResult resp =
     (if \<not> UpdateAvailable resp then ''none''
      else if 0 < RetryAfter resp then ''retry''
      else if BinaryEndpoint resp \<noteq> '''' then ''full''
      else ''update'')"

definition http_heartbeat :: "lib \<Rightarrow> ('l, 'z) front_scheme handler" where
  "http_heartbeat L r s =
     (case Option.bind (limited maxHeartbeatBody (hq_Body r)) (dec_heartbeat json_codec) of
        None \<Rightarrow> (http_Error 400 (Msg ''invalid heartbeat''), ObserveHeartbeat ''http'' ''bad_request'' s)
      | Some hb \<Rightarrow>
          (case Build L (hq_Ctx r) hb s of
             (Inl e, s) \<Rightarrow>
               if errors_Is e ErrInvalidMessage then (http_Error 400 e, ObserveHeartbeat ''http'' ''bad_request'' s)
               else if IsArtifactNotFound e then
                 (http_Error 404 (Msg ''unknown artifact''), ObserveHeartbeat ''http'' ''unknown_artifact'' s)
               else (http_Error 500 (Msg ''manifest build failed''), ObserveHeartbeat ''http'' ''error'' s)
           | (Inr resp, s) \<Rightarrow>
               (writeJSON 200 (enc_manifest json_codec resp), ObserveHeartbeat ''http'' (manifestResult resp) s)))"

definition http_report :: "('l, 'z) front_scheme handler" where
  "http_report r s =
     (case Option.bind (limited maxReportBody (hq_Body r)) (dec_report json_codec) of
        None \<Rightarrow> (http_Error 400 (Msg ''invalid report''), s)
      | Some rep \<Rightarrow>
          (case rep_Validate (Some rep) of
             Some e \<Rightarrow> (http_Error 400 e, s)
           | None \<Rightarrow> (\<lparr>rp_Status = 202, rp_Body = NoBody\<rparr>, s)))"

definition http_health :: "('l, 'z) front_scheme handler" where
  "http_health r s =
     (writeJSON 200 (Json (JObj
        [(''artifacts'', JObj (map (\<lambda>a. (key_string (a_Key a), JStr (a_TargetHash a))) (reg_List s))),
         (''default'', JStr (reg_Default s)), (''status'', JStr ''ok'')])), s)"

definition http_delta :: "string \<Rightarrow> string \<Rightarrow> ('l, 'z) front_scheme handler" where
  "http_delta src dst r s =
     (if \<not> IsValidHash src \<or> \<not> IsValidHash dst then (NotFound, s)
      else if \<not> IsCurrentTarget dst s then (NotFound, s)
      else
        (case PeekHotDelta src dst s of
           (hot, s) \<Rightarrow>
             (let hotHit = (if hot = None then ''miss'' else ''hit'')
              in case GetDeltaBytes src dst s of
                   (Inl e, s) \<Rightarrow> (http_Error 500 (Msg ''fetch delta''), s)
                 | (Inr None, s) \<Rightarrow> (NotFound, s)
                 | (Inr (Some data), s) \<Rightarrow>
                     (serve_content (hq_Range r) data, ObserveDeltaServe ''http'' hotHit ''delta'' s))))"

definition http_binary :: "lib \<Rightarrow> string \<Rightarrow> ('l, 'z) front_scheme handler" where
  "http_binary L hash r s =
     (if \<not> IsValidHash hash then (NotFound, s)
      else if \<not> IsLive hash s then (NotFound, s)
      else
        (case PeekHotBinary hash s of
           (hot, s) \<Rightarrow>
             (let hotHit = (if hot = None then ''miss'' else ''hit'')
              in case GetBinaryBytes L (hq_Ctx r) hash s of
                   (Inl e, s) \<Rightarrow> (http_Error 500 (Msg ''fetch binary''), s)
                 | (Inr None, s) \<Rightarrow> (NotFound, s)
                 | (Inr (Some data), s) \<Rightarrow>
                     (serve_content (hq_Range r) data, ObserveDeltaServe ''http'' hotHit ''full'' s))))"

definition api_routes :: "lib \<Rightarrow> ('l, 'z) front_scheme handler routes" where
  "api_routes L =
     [(''POST'', [Lit (drop 1 PathHeartbeat)], \<lambda>vs. http_heartbeat L),
      (''POST'', [Lit (drop 1 PathReport)], \<lambda>vs. http_report),
      (''GET'', [Lit (drop 1 PathHealth)], \<lambda>vs. http_health),
      (''GET'', [Lit (drop 1 PathDelta), Wild, Wild], \<lambda>vs. http_delta (vs ! 0) (vs ! 1)),
      (''GET'', [Lit (drop 1 PathBinary), Wild], \<lambda>vs. http_binary L (vs ! 0))]"

definition NewHTTPHandler :: "lib \<Rightarrow> ('l, 'z) front_scheme handler" where
  "NewHTTPHandler L = mux_ServeHTTP (api_routes L) None"

section \<open>CoAP\<close>

datatype coap_method = CoapGET | CoapPOST | CoapOther

record coap_request =
  cq_Method :: coap_method
  cq_Path :: string
  cq_Body :: "err + content"
  cq_Ctx :: ctx

definition coap_BadRequest :: coap_code where "coap_BadRequest = OtherCode 128"
definition coap_NotFound :: coap_code where "coap_NotFound = OtherCode 132"
definition coap_MethodNotAllowed :: coap_code where "coap_MethodNotAllowed = OtherCode 133"
definition coap_InternalServerError :: coap_code where "coap_InternalServerError = OtherCode 160"

definition respond :: "coap_code \<Rightarrow> content \<Rightarrow> coap_resp" where
  "respond code body = \<lparr>cr_Code = code, cr_Body = Inr body\<rparr>"

type_synonym 's coap_h = "coap_request \<Rightarrow> 's \<Rightarrow> coap_resp \<times> 's"

definition coap_heartbeat :: "lib \<Rightarrow> codec \<Rightarrow> ('l, 'z) front_scheme coap_h" where
  "coap_heartbeat L cd r s =
     (if cq_Method r \<noteq> CoapPOST then
        (respond coap_MethodNotAllowed (Raw ''''), ObserveHeartbeat ''coap'' ''bad_request'' s)
      else
        (case cq_Body r of
           Inl e \<Rightarrow> (respond coap_BadRequest (Raw ''read body''), ObserveHeartbeat ''coap'' ''bad_request'' s)
         | Inr body \<Rightarrow>
             (case dec_heartbeat cd body of
                None \<Rightarrow> (respond coap_BadRequest (Raw ''invalid heartbeat''), ObserveHeartbeat ''coap'' ''bad_request'' s)
              | Some hb \<Rightarrow>
                  (case Build L (cq_Ctx r) hb s of
                     (Inl e, s) \<Rightarrow>
                       if errors_Is e ErrInvalidMessage then
                         (respond coap_BadRequest (Raw ''invalid heartbeat''), ObserveHeartbeat ''coap'' ''bad_request'' s)
                       else if IsArtifactNotFound e then
                         (respond coap_NotFound (Raw ''''), ObserveHeartbeat ''coap'' ''unknown_artifact'' s)
                       else (respond coap_InternalServerError (Raw ''''), ObserveHeartbeat ''coap'' ''error'' s)
                   | (Inr resp, s) \<Rightarrow>
                       (respond Content (enc_manifest cd resp), ObserveHeartbeat ''coap'' (manifestResult resp) s)))))"

definition coap_report :: "codec \<Rightarrow> ('l, 'z) front_scheme coap_h" where
  "coap_report cd r s =
     (if cq_Method r \<noteq> CoapPOST then (respond coap_MethodNotAllowed (Raw ''''), s)
      else
        (case cq_Body r of
           Inl e \<Rightarrow> (respond coap_BadRequest (Raw ''''), s)
         | Inr body \<Rightarrow>
             (case dec_report cd body of
                None \<Rightarrow> (respond coap_BadRequest (Raw ''''), s)
              | Some rep \<Rightarrow>
                  (case rep_Validate (Some rep) of
                     Some e \<Rightarrow> (respond coap_BadRequest (Raw ''''), s)
                   | None \<Rightarrow> (respond Changed (Raw ''''), s)))))"

definition coap_delta :: "string \<Rightarrow> string \<Rightarrow> ('l, 'z) front_scheme coap_h" where
  "coap_delta src dst r s =
     (if cq_Method r \<noteq> CoapGET then (respond coap_MethodNotAllowed (Raw ''''), s)
      else if \<not> IsValidHash src \<or> \<not> IsValidHash dst then (respond coap_NotFound (Raw ''''), s)
      else if \<not> IsCurrentTarget dst s then (respond coap_NotFound (Raw ''''), s)
      else
        (case PeekHotDelta src dst s of
           (hot, s) \<Rightarrow>
             (let hotHit = (if hot = None then ''miss'' else ''hit'')
              in case GetDeltaBytes src dst s of
                   (Inl e, s) \<Rightarrow> (respond coap_InternalServerError (Raw ''''), s)
                 | (Inr None, s) \<Rightarrow> (respond coap_NotFound (Raw ''''), s)
                 | (Inr (Some data), s) \<Rightarrow>
                     (respond Content (Raw data), ObserveDeltaServe ''coap'' hotHit ''delta'' s))))"

definition coap_binary :: "lib \<Rightarrow> string \<Rightarrow> ('l, 'z) front_scheme coap_h" where
  "coap_binary L hash r s =
     (if cq_Method r \<noteq> CoapGET then (respond coap_MethodNotAllowed (Raw ''''), s)
      else if \<not> IsValidHash hash \<or> \<not> IsLive hash s then (respond coap_NotFound (Raw ''''), s)
      else
        (case PeekHotBinary hash s of
           (hot, s) \<Rightarrow>
             (let hotHit = (if hot = None then ''miss'' else ''hit'')
              in case GetBinaryBytes L (cq_Ctx r) hash s of
                   (Inl e, s) \<Rightarrow> (respond coap_InternalServerError (Raw ''''), s)
                 | (Inr None, s) \<Rightarrow> (respond coap_NotFound (Raw ''''), s)
                 | (Inr (Some data), s) \<Rightarrow>
                     (respond Content (Raw data), ObserveDeltaServe ''coap'' hotHit ''full'' s))))"

text \<open>The router of \<open>go-coap\<close> matches a path segment by segment and answers what it does not know with
  4.04; every request that reaches a handler has its route parameters.\<close>

definition coap_routes :: "lib \<Rightarrow> codec \<Rightarrow> ('l, 'z) front_scheme coap_h routes" where
  "coap_routes L cd =
     [('''', [Lit (drop 1 PathHeartbeat)], \<lambda>vs. coap_heartbeat L cd),
      ('''', [Lit (drop 1 PathReport)], \<lambda>vs. coap_report cd),
      ('''', [Lit (drop 1 PathDelta), Wild, Wild], \<lambda>vs. coap_delta (vs ! 0) (vs ! 1)),
      ('''', [Lit (drop 1 PathBinary), Wild], \<lambda>vs. coap_binary L (vs ! 0))]"

definition NewCoAPRouter :: "lib \<Rightarrow> codec \<Rightarrow> ('l, 'z) front_scheme coap_h" where
  "NewCoAPRouter L cd r s =
     (case find_route (coap_routes L cd) '''' (url_segments (cq_Path r)) of
        Some h \<Rightarrow> h r s
      | None \<Rightarrow> (respond coap_NotFound (Raw ''''), s))"

section \<open>Requests of devices leave the registry alone\<close>

definition visible ::
  "('l, 'z) front_scheme \<Rightarrow> (string \<times> artifact) list \<times> string \<times> registry_options \<times> (bytes \<times> int \<times> int \<times> bool) \<times> int \<times> 'l option" where
  "visible s = (rg_artifacts s, rg_default s, rg_opts s, (mf_priv s, mf_chunkSize s, mf_retryAfter s, mf_allowFull s), fr_level s, fr_limiter s)"

lemma visible_catalogue: "catalogue s' = catalogue s \<Longrightarrow> visible s' = visible s"
  by (cases s, cases s') (auto simp: catalogue_def kept_def visible_def front.defs manifester.defs)

lemma visible_counts: "visible (s\<lparr>fr_counts := m\<rparr>) = visible s"
  by (simp add: visible_def)

lemma visible_inc [simp]:
  "visible (inc k s) = visible s" "visible (ObserveHeartbeat a b s) = visible s"
  "visible (ObserveDeltaServe a b c s) = visible s" "visible (ObserveAdminRequest a n s) = visible s"
  "visible (IncAdminRateLimited s) = visible s"
  by (simp_all add: inc_def visible_counts ObserveHeartbeat_def ObserveDeltaServe_def ObserveAdminRequest_def IncAdminRateLimited_def)

lemma server_ok_inc [simp]:
  "server_ok L s \<Longrightarrow> server_ok L (ObserveHeartbeat a b s)" "server_ok L s \<Longrightarrow> server_ok L (ObserveDeltaServe a b c s)"
  "server_ok L s \<Longrightarrow> server_ok L (ObserveAdminRequest a n s)" "server_ok L s \<Longrightarrow> server_ok L (IncAdminRateLimited s)"
  by (auto intro: front_eq_ok [rotated])

definition calm :: "lib \<Rightarrow> ('l, 'z) front_scheme \<Rightarrow> 'a \<times> ('l, 'z) front_scheme \<Rightarrow> bool" where
  "calm L s f \<longleftrightarrow> server_ok L (snd f) \<and> visible (snd f) = visible s"

lemma calm_refl [simp]: "server_ok L s \<Longrightarrow> calm L s (r, s)"
  by (simp add: calm_def)

lemma calm_ensures: "ensures L Q s f \<Longrightarrow> server_ok L s \<Longrightarrow> f = (r, s') \<Longrightarrow> calm L s (r, s') \<and> server_ok L s' \<and> Q r"
  using ensures_server [of L Q s f r s'] catalogue_ensures [of L Q s f r s'] visible_catalogue [of s' s]
  by (simp add: calm_def)

lemma calm_trans: "calm L s (r, s1) \<Longrightarrow> calm L s1 f \<Longrightarrow> calm L s f"
  by (simp add: calm_def)

lemma Build_calm: "server_ok L s \<Longrightarrow> Build L c hb s = (r, s') \<Longrightarrow> calm L s (r, s')"
  using Build_server [of L c hb s r s'] catalogue_build [of L s c hb] visible_catalogue [of s' s] by (simp add: calm_def)

lemma http_heartbeat_calm: "server_ok L s \<Longrightarrow> calm L s (http_heartbeat L r s)"
  using Build_calm [of L s "hq_Ctx r"]
  by (auto simp: http_heartbeat_def calm_def split: option.split prod.split sum.split)

lemma http_report_calm: "server_ok L s \<Longrightarrow> calm L s (http_report r s)"
  by (auto simp: http_report_def split: option.split)

lemma http_health_calm: "server_ok L s \<Longrightarrow> calm L s (http_health r s)"
  by (simp add: http_health_def)

text \<open>What the two download endpoints serve.\<close>

lemma http_delta_serves:
  assumes "server_ok L s" "http_delta f t r s = (rep, s')"
  shows "calm L s (rep, s') \<and> (rp_Status rep \<in> {404, 500} \<or>
    (IsValidHash f \<and> IsValidHash t \<and> IsCurrentTarget t s \<and> (\<exists>d. delta_for L f t d \<and> rep = serve_content (hq_Range r) d)))"
proof (cases "IsValidHash f \<and> IsValidHash t \<and> IsCurrentTarget t s")
  case True
  obtain hot s1 where 1: "PeekHotDelta f t s = (hot, s1)" by fastforce
  have c1: "calm L s (hot, s1)" "server_ok L s1"
    using calm_ensures [OF hot_get_ensures assms(1) 1 [unfolded PeekHotDelta_def]] by auto
  obtain a s2 where 2: "GetDeltaBytes f t s1 = (a, s2)" by fastforce
  have v: "IsValidHash f" "IsValidHash t" using True by auto
  have c2: "calm L s1 (a, s2)" "server_ok L s2" "\<forall>v. a = Inr (Some v) \<longrightarrow> delta_for L f t v"
    using calm_ensures [OF GetDeltaBytes_ensures [OF v] c1(2) 2] by auto
  show ?thesis
    using assms(2) True 1 2 c2 calm_trans [OF c1(1) c2(1)]
    by (auto simp: http_delta_def http_Error_def NotFound_def calm_def Let_def split: sum.splits option.splits)
qed (use assms in \<open>auto simp: http_delta_def NotFound_def http_Error_def split: if_splits\<close>)

lemma http_binary_serves:
  assumes "server_ok L s" "http_binary L h r s = (rep, s')"
  shows "calm L s (rep, s') \<and> (rp_Status rep \<in> {404, 500} \<or>
    (IsValidHash h \<and> IsLive h s \<and> (\<exists>d. full_for L h d \<and> rep = serve_content (hq_Range r) d)))"
proof (cases "IsValidHash h \<and> IsLive h s")
  case True
  obtain hot s1 where 1: "PeekHotBinary h s = (hot, s1)" by fastforce
  have c1: "calm L s (hot, s1)" "server_ok L s1"
    using calm_ensures [OF hot_get_ensures assms(1) 1 [unfolded PeekHotBinary_def]] by auto
  obtain a s2 where 2: "GetBinaryBytes L (hq_Ctx r) h s1 = (a, s2)" by fastforce
  have v: "IsValidHash h" using True by auto
  have c2: "calm L s1 (a, s2)" "server_ok L s2" "\<forall>v. a = Inr (Some v) \<longrightarrow> full_for L h v"
    using calm_ensures [OF GetBinaryBytes_ensures [OF v] c1(2) 2] by auto
  show ?thesis
    using assms(2) True 1 2 c2 calm_trans [OF c1(1) c2(1)]
    by (auto simp: http_binary_def http_Error_def NotFound_def calm_def Let_def split: sum.splits option.splits)
qed (use assms in \<open>auto simp: http_binary_def NotFound_def http_Error_def split: if_splits\<close>)

lemma http_delta_calm: "server_ok L s \<Longrightarrow> calm L s (http_delta f t r s)"
  using http_delta_serves [of L s f t r] by (metis prod.collapse)

lemma http_binary_calm: "server_ok L s \<Longrightarrow> calm L s (http_binary L h r s)"
  using http_binary_serves [of L s h r] by (metis prod.collapse)

lemmas handlers_calm = http_heartbeat_calm http_report_calm http_health_calm http_delta_calm http_binary_calm

text \<open>What holds of every handler of a mux holds of the mux.\<close>

lemma find_route_elem: "find_route rs m ss = Some h \<Longrightarrow> \<exists>pm ps g vs. (pm, ps, g) \<in> set rs \<and> match_segs ps ss = Some vs \<and> h = g vs"
  by (induction rs m ss rule: find_route.induct) (auto split: option.splits if_splits)

lemma mux_calm:
  assumes "\<And>pm ps g vs. (pm, ps, g) \<in> set rs \<Longrightarrow> calm L s (g vs r s)" "\<And>h. ca = Some h \<Longrightarrow> calm L s (h r s)" "server_ok L s"
  shows "calm L s (mux_ServeHTTP rs ca r s)"
proof (cases "mux_route rs ca (hq_Method r) (hq_Path r)")
  case (Run h)
  then have "find_route rs (hq_Method r) (url_segments (clean_url_path (hq_Path r))) = Some h \<or> ca = Some h"
    by (auto simp: mux_route_def Let_def split: if_splits option.splits)
  then show ?thesis using assms(1,2) Run find_route_elem by (fastforce simp: mux_ServeHTTP_def)
qed (use assms(3) in \<open>simp_all add: mux_ServeHTTP_def\<close>)

lemma NewHTTPHandler_calm: "server_ok L s \<Longrightarrow> calm L s (NewHTTPHandler L r s)"
  unfolding NewHTTPHandler_def
  by (rule mux_calm) (auto simp: api_routes_def handlers_calm)

section \<open>The two front ends give the same answers\<close>

text \<open>The CoAP code for a status of the HTTP handlers.\<close>

definition coap_status :: "nat \<Rightarrow> coap_code" where
  "coap_status n =
     (if n = 200 then Content else if n = 202 then Changed
      else if n = 400 then coap_BadRequest else if n = 404 then coap_NotFound
      else if n = 405 then coap_MethodNotAllowed else coap_InternalServerError)"

fun same_payload :: "codec \<Rightarrow> reply_body \<Rightarrow> err + content \<Rightarrow> bool" where
  "same_payload cd (Doc c) b \<longleftrightarrow> (\<exists>m. c = enc_manifest json_codec m \<and> b = Inr (enc_manifest cd m))"
| "same_payload cd (Octets d) b \<longleftrightarrow> b = Inr (Raw d)"
| "same_payload cd _ b \<longleftrightarrow> True"

text \<open>The same answer, and the same state but for the counters.\<close>

definition uncounted :: "('l, 'z) front_scheme \<Rightarrow> ('l, 'z) front_scheme" where
  "uncounted s = s\<lparr>fr_counts := None\<rparr>"

lemma uncounted_inc [simp]:
  "uncounted (ObserveHeartbeat a b s) = uncounted s" "uncounted (ObserveDeltaServe a b c s) = uncounted s"
  by (simp_all add: uncounted_def ObserveHeartbeat_def ObserveDeltaServe_def inc_def)

definition agree :: "codec \<Rightarrow> reply \<times> ('l, 'z) front_scheme \<Rightarrow> coap_resp \<times> ('l, 'z) front_scheme \<Rightarrow> bool" where
  "agree cd a b \<longleftrightarrow>
     cr_Code (fst b) = coap_status (rp_Status (fst a)) \<and> same_payload cd (rp_Body (fst a)) (cr_Body (fst b)) \<and>
     uncounted (snd a) = uncounted (snd b)"

lemmas agree_defs = agree_def coap_status_def respond_def writeJSON_def http_Error_def NotFound_def

lemma heartbeat_agree:
  assumes "Option.bind (limited maxHeartbeatBody (hq_Body r)) (dec_heartbeat json_codec) =
      (case cq_Body q of Inl e \<Rightarrow> None | Inr b \<Rightarrow> dec_heartbeat cd b)"
    and "cq_Method q = CoapPOST" "cq_Ctx q = hq_Ctx r"
  shows "agree cd (http_heartbeat L r s) (coap_heartbeat L cd q s)"
proof (cases "Option.bind (limited maxHeartbeatBody (hq_Body r)) (dec_heartbeat json_codec)")
  case None
  with assms(1) have "(case cq_Body q of Inl e \<Rightarrow> None | Inr b \<Rightarrow> dec_heartbeat cd b) = None" by simp
  with None assms(2) show ?thesis
    by (cases "cq_Body q") (simp_all add: http_heartbeat_def coap_heartbeat_def agree_defs)
next
  case (Some hb)
  with assms(1) obtain b where b: "cq_Body q = Inr b" "dec_heartbeat cd b = Some hb" by (cases "cq_Body q") auto
  obtain x s1 where "Build L (hq_Ctx r) hb s = (x, s1)" by fastforce
  with Some b assms(2,3) show ?thesis
    by (cases x) (auto simp: http_heartbeat_def coap_heartbeat_def agree_defs)
qed

lemma report_agree:
  assumes "Option.bind (limited maxReportBody (hq_Body r)) (dec_report json_codec) =
      (case cq_Body q of Inl e \<Rightarrow> None | Inr b \<Rightarrow> dec_report cd b)"
    and "cq_Method q = CoapPOST"
  shows "agree cd (http_report r s) (coap_report cd q s)"
proof (cases "Option.bind (limited maxReportBody (hq_Body r)) (dec_report json_codec)")
  case None
  with assms(1) have "(case cq_Body q of Inl e \<Rightarrow> None | Inr b \<Rightarrow> dec_report cd b) = None" by simp
  with None assms(2) show ?thesis
    by (cases "cq_Body q") (simp_all add: http_report_def coap_report_def agree_defs)
next
  case (Some rep)
  with assms(1) obtain b where b: "cq_Body q = Inr b" "dec_report cd b = Some rep" by (cases "cq_Body q") auto
  with Some assms(2) show ?thesis
    by (cases "rep_Validate (Some rep)") (simp_all add: http_report_def coap_report_def agree_defs)
qed

lemma delta_agree:
  assumes "hq_Range r = ''''" "cq_Method q = CoapGET"
  shows "agree cd (http_delta f t r s) (coap_delta f t q s)"
proof -
  obtain hot s1 where 1: "PeekHotDelta f t s = (hot, s1)" by fastforce
  obtain a s2 where 2: "GetDeltaBytes f t s1 = (a, s2)" by fastforce
  consider e where "a = Inl e" | "a = Inr None" | d where "a = Inr (Some d)" by (metis option.exhaust sum.exhaust)
  then show ?thesis
    using assms 1 2 by cases (simp_all add: http_delta_def coap_delta_def agree_defs serve_whole)
qed

lemma binary_agree:
  assumes "hq_Range r = ''''" "cq_Method q = CoapGET" "cq_Ctx q = hq_Ctx r"
  shows "agree cd (http_binary L h r s) (coap_binary L h q s)"
proof -
  obtain hot s1 where 1: "PeekHotBinary h s = (hot, s1)" by fastforce
  obtain a s2 where 2: "GetBinaryBytes L (hq_Ctx r) h s1 = (a, s2)" by fastforce
  consider e where "a = Inl e" | "a = Inr None" | d where "a = Inr (Some d)" by (metis option.exhaust sum.exhaust)
  then show ?thesis
    using assms 1 2 by cases (simp_all add: http_binary_def coap_binary_def agree_defs serve_whole)
qed

lemma refused_agree: "agree cd (http_Error 405 e, s) (respond coap_MethodNotAllowed c, s)"
  "agree cd (http_Error 405 e, s) (respond coap_MethodNotAllowed c, ObserveHeartbeat a b s)"
  "agree cd (NotFound, s) (respond coap_NotFound c, s)"
  by (simp_all add: agree_defs)

text \<open>A request of either protocol: the same path and context, a method both have, bodies that hold the
  same messages, and no range.\<close>

definition counterpart :: "codec \<Rightarrow> http_request \<Rightarrow> coap_request \<Rightarrow> bool" where
  "counterpart cd r q \<longleftrightarrow>
     (hq_Method r = ''GET'' \<and> cq_Method q = CoapGET \<or> hq_Method r = ''POST'' \<and> cq_Method q = CoapPOST) \<and>
     hq_Path r = cq_Path q \<and> clean_url_path (hq_Path r) = hq_Path r \<and> hq_Range r = '''' \<and> cq_Ctx q = hq_Ctx r \<and>
     Option.bind (limited maxHeartbeatBody (hq_Body r)) (dec_heartbeat json_codec) =
       (case cq_Body q of Inl e \<Rightarrow> None | Inr b \<Rightarrow> dec_heartbeat cd b) \<and>
     Option.bind (limited maxReportBody (hq_Body r)) (dec_report json_codec) =
       (case cq_Body q of Inl e \<Rightarrow> None | Inr b \<Rightarrow> dec_report cd b)"

lemma match_segs_simps:
  "match_segs [] ss = (if ss = [] then Some [] else None)"
  "match_segs (Lit l # ps) ss = (case ss of [] \<Rightarrow> None | x # xs \<Rightarrow> if l = x then match_segs ps xs else None)"
  "match_segs (Wild # ps) ss = (case ss of [] \<Rightarrow> None | x # xs \<Rightarrow> if x = '''' then None else map_option (Cons x) (match_segs ps xs))"
  by (cases ss; simp)+

lemma drop_paths:
  "drop (Suc 0) PathHeartbeat = ''heartbeat''" "drop (Suc 0) PathReport = ''report''" "drop (Suc 0) PathHealth = ''health''"
  "drop (Suc 0) PathDelta = ''delta''" "drop (Suc 0) PathBinary = ''binary''"
  by (simp_all add: PathHeartbeat_def PathReport_def PathHealth_def PathDelta_def PathBinary_def)

text \<open>A clean path is given back by its segments.\<close>

lemma path_clean_abs: "has_prefix p ''/'' \<Longrightarrow> has_prefix (path_clean p) ''/''"
  by (auto simp: path_clean_def render_def is_abs_def has_prefix_iff Let_def)

lemma clean_path_segments: "clean_url_path p = p \<Longrightarrow> p = CHR ''/'' # join_with CHR ''/'' (url_segments p)"
proof -
  assume c: "clean_url_path p = p"
  let ?q = "if has_prefix p ''/'' then p else CHR ''/'' # p"
  have "has_prefix ?q ''/''" by (simp add: has_prefix_iff)
  from path_clean_abs [OF this] have "has_prefix (clean_url_path p) ''/''" by (auto simp: clean_url_path_def has_prefix_iff Let_def)
  then obtain t where "p = CHR ''/'' # t" using c by (auto simp: has_prefix_iff)
  then show ?thesis by (simp add: url_segments_def)
qed

text \<open>Each path, seen by both routers.\<close>

lemma routed:
  "method_ok a b \<Longrightarrow> find_route ((a, ps, h) # rs) b ss = (case match_segs ps ss of Some vs \<Rightarrow> Some (h vs) | None \<Rightarrow> find_route rs b ss)"
  "\<not> method_ok a b \<Longrightarrow> find_route ((a, ps, h) # rs) b ss = find_route rs b ss"
  by (simp_all split: option.split)

lemma methods [simp]:
  "method_ok ''POST'' ''POST''" "\<not> method_ok ''POST'' ''GET''" "method_ok ''GET'' ''GET''" "\<not> method_ok ''GET'' ''POST''" "method_ok '''' ''''"
  by (simp_all add: method_ok_def)

lemma list_shapes:
  obtains "ss = []" | x where "ss = [x]" | x y where "ss = [x, y]" | x y z where "ss = [x, y, z]"
    | x y z u us where "ss = x # y # z # u # us"
  by (metis list.exhaust)

lemma path_shapes:
  assumes "ss \<noteq> [c]"
  shows "ss = [a] \<or> ss = [b] \<or> (\<exists>f t. ss = [d, f, t] \<and> f \<noteq> '''' \<and> t \<noteq> '''') \<or> (\<exists>h. ss = [e, h] \<and> h \<noteq> '''') \<or>
    match_segs [Lit a] ss = None \<and> match_segs [Lit b] ss = None \<and> match_segs [Lit c] ss = None \<and>
    match_segs [Lit d, Wild, Wild] ss = None \<and> match_segs [Lit e, Wild] ss = None"
  using assms by (cases ss rule: list_shapes) (auto simp: match_segs_simps)

lemma served_path_cases:
  assumes "ss \<noteq> [c]"
  obtains "ss = [a]" | "ss = [b]" | f t where "ss = [d, f, t]" "f \<noteq> ''''" "t \<noteq> ''''" | h where "ss = [e, h]" "h \<noteq> ''''"
    | "match_segs [Lit a] ss = None" "match_segs [Lit b] ss = None" "match_segs [Lit c] ss = None"
      "match_segs [Lit d, Wild, Wild] ss = None" "match_segs [Lit e, Wild] ss = None"
  using path_shapes [OF assms, of a b d e] by (elim disjE exE conjE) assumption+

section \<open>Properties\<close>

text \<open>A process on an empty store.\<close>

definition sample_front_process :: "nat front" where
  "sample_front_process = manifester.extend front_process (front.fields (Some NewMetrics) 0 (Some 0))"

definition sample_front :: "nat front" where
  "sample_front = snd (server_open no_statfs front_key sample_store_options front_registry front_config sample_front_process)"

lemma sample_front_open:
  "disk_good L sample_store_options sample_front_process"
  "server_open no_statfs front_key sample_store_options front_registry front_config sample_front_process = (None, sample_front)"
  "targets_ok sample_front"
proof -
  show "disk_good L sample_store_options sample_front_process"
    using front_open(1) [of L]
    by (simp add: disk_good_def snap_def sample_front_process_def front_process_def store.defs registry.defs manifester.defs)
  have "fst (server_open no_statfs front_key sample_store_options front_registry front_config sample_front_process) = None"
    by code_simp
  then show "server_open no_statfs front_key sample_store_options front_registry front_config sample_front_process = (None, sample_front)"
    by (simp add: sample_front_def prod_eq_iff)
  have "rg_artifacts sample_front = []" by code_simp
  then show "targets_ok sample_front" by (simp add: targets_ok_def)
qed

lemma sample_front_ok: "server_ok front_lib sample_front"
  by (rule server_open_ok(1) [OF front_lib_ok sample_front_open front_open(4,5)])

text \<open>C26. The two front ends give the same answers: for a path that both serve and the same message (or no
  body and no range), the CoAP handler answers with the code that corresponds to the HTTP status and with
  the same manifest or the same bytes, and leaves the same state, but for the labels of the counters. So
  what holds of a device's requests over one protocol holds over the other, errors and wrong methods
  included.\<close>

theorem front_ends_agree:
  assumes "counterpart cd r q" "hq_Path r \<noteq> PathHealth"
  shows "agree cd (NewHTTPHandler L r s) (NewCoAPRouter L cd q s)"
proof -
  define ss where "ss = url_segments (hq_Path r)"
  have p: "clean_url_path (hq_Path r) = hq_Path r" "cq_Path q = hq_Path r" "hq_Range r = ''''" "cq_Ctx q = hq_Ctx r"
    using assms(1) by (auto simp: counterpart_def)
  have nh: "ss \<noteq> [''health'']" using assms(2) clean_path_segments [OF p(1)] by (auto simp: PathHealth_def ss_def)
  have b: "Option.bind (limited maxHeartbeatBody (hq_Body r)) (dec_heartbeat json_codec) =
       (case cq_Body q of Inl e \<Rightarrow> None | Inr b \<Rightarrow> dec_heartbeat cd b)"
    "Option.bind (limited maxReportBody (hq_Body r)) (dec_report json_codec) =
       (case cq_Body q of Inl e \<Rightarrow> None | Inr b \<Rightarrow> dec_report cd b)"
    using assms(1) unfolding counterpart_def by blast+
  note agrees = heartbeat_agree [OF b(1) _ p(4)] report_agree [OF b(2)] delta_agree [OF p(3)] binary_agree [OF p(3) _ p(4)]
  note run = NewHTTPHandler_def NewCoAPRouter_def mux_ServeHTTP_def mux_route_def p(1,2) ss_def [symmetric]
    api_routes_def coap_routes_def path_known_def drop_paths
  have m: "hq_Method r = ''GET'' \<and> cq_Method q = CoapGET \<or> hq_Method r = ''POST'' \<and> cq_Method q = CoapPOST"
    using assms(1) by (auto simp: counterpart_def)
  show ?thesis
  proof (cases rule: served_path_cases [where a = "''heartbeat''" and b = "''report''" and d = "''delta''" and e = "''binary''", OF nh])
    case 1
    with m show ?thesis using agrees(1) [of L s] by (elim disjE) (simp_all add: run coap_heartbeat_def refused_agree)
  next
    case 2
    with m show ?thesis using agrees(2) [of s] by (elim disjE) (simp_all add: run coap_report_def refused_agree)
  next
    case (3 f t)
    with m show ?thesis using agrees(3) [of q cd f t s] by (elim disjE) (simp_all add: run coap_delta_def refused_agree)
  next
    case (4 h)
    with m show ?thesis using agrees(4) [of cd L h s] by (elim disjE) (simp_all add: run coap_binary_def refused_agree)
  next
    case 5
    then show ?thesis by (simp add: run refused_agree)
  qed
qed

definition sample_http :: http_request where
  "sample_http = \<lparr>hq_Method = ''POST'', hq_Path = ''/heartbeat'', hq_Query = [], hq_Auth = '''', hq_Range = '''',
     hq_Body = Json (heartbeat_to_json front_heartbeat), hq_Ctx = None\<rparr>"

definition sample_coap :: coap_request where
  "sample_coap = \<lparr>cq_Method = CoapPOST, cq_Path = ''/heartbeat'', cq_Body = Inr (Json (heartbeat_to_json front_heartbeat)), cq_Ctx = None\<rparr>"

theorem front_ends_agree_witness:
  "agree json_codec (NewHTTPHandler front_lib sample_http sample_front) (NewCoAPRouter front_lib json_codec sample_coap sample_front)"
proof -
  have "limited maxHeartbeatBody (hq_Body sample_http) = Some (hq_Body sample_http)"
    "limited maxReportBody (hq_Body sample_http) = Some (hq_Body sample_http)"
    "clean_url_path (hq_Path sample_http) = hq_Path sample_http" "hq_Path sample_http \<noteq> PathHealth"
    by code_simp+
  moreover from this have "counterpart json_codec sample_http sample_coap"
    by (simp add: counterpart_def sample_http_def sample_coap_def)
  ultimately show ?thesis by (intro front_ends_agree)
qed

end
