(* ===== verification/Logging.thy ===== *)
theory Logging
  imports Prelude
begin

text \<open>
  The log settings of both programs (\<open>pkg/server/logging.go\<close>, \<open>pkg/agent/logging.go\<close>): the names of the
  levels, and which settings a logger can be made from. The two packages hold the same code, so that
  neither needs the other; the lemmas show that they agree, and where the check of the agent's
  configuration is stricter. What a logger writes is \<open>log/slog\<close> and is left out.
\<close>

record logging_config =
  lg_Level :: string
  lg_Format :: string

definition LevelDebug :: int where "LevelDebug = -4"
definition LevelInfo :: int where "LevelInfo = 0"
definition LevelWarn :: int where "LevelWarn = 4"
definition LevelError :: int where "LevelError = 8"

datatype log_format = JSONHandler | TextHandler

section \<open>The server\<close>

definition parseLogLevel :: "string \<Rightarrow> int option" where
  "parseLogLevel s =
     (let t = to_lower (trim_space s)
      in if t = ''debug'' then Some LevelDebug
         else if t = ''info'' \<or> t = '''' then Some LevelInfo
         else if t = ''warn'' \<or> t = ''warning'' then Some LevelWarn
         else if t = ''error'' then Some LevelError
         else None)"

definition NewLogging :: "logging_config \<Rightarrow> err + int \<times> log_format" where
  "NewLogging cfg =
     (case parseLogLevel (lg_Level cfg) of
        None \<Rightarrow> Inl (Msg ''unknown log level'')
      | Some lvl \<Rightarrow>
          (let f = to_lower (trim_space (lg_Format cfg))
           in if f = ''json'' then Inr (lvl, JSONHandler)
              else if f = ''text'' \<or> f = '''' then Inr (lvl, TextHandler)
              else Inl (Msg ''unknown log format'')))"

section \<open>The agent\<close>

definition agent_parseLogLevel :: "string \<Rightarrow> int option" where
  "agent_parseLogLevel s =
     (let t = to_lower (trim_space s)
      in if t = ''debug'' then Some LevelDebug
         else if t = ''info'' \<or> t = '''' then Some LevelInfo
         else if t = ''warn'' \<or> t = ''warning'' then Some LevelWarn
         else if t = ''error'' then Some LevelError
         else None)"

definition NewLogger :: "logging_config \<Rightarrow> err + int \<times> log_format" where
  "NewLogger cfg =
     (case agent_parseLogLevel (lg_Level cfg) of
        None \<Rightarrow> Inl (Msg ''unknown log level'')
      | Some lvl \<Rightarrow>
          (let f = to_lower (trim_space (lg_Format cfg))
           in if f = ''json'' then Inr (lvl, JSONHandler)
              else if f = ''text'' \<or> f = '''' then Inr (lvl, TextHandler)
              else Inl (Msg ''unknown log format'')))"

definition isKnownLogLevel :: "string \<Rightarrow> bool" where
  "isKnownLogLevel s \<longleftrightarrow> to_lower (trim_space s) \<in> {''debug'', ''info'', ''warn'', ''warning'', ''error''}"

section \<open>Facts\<close>

lemma loggers_agree: "NewLogger cfg = NewLogging cfg"
  by (simp add: NewLogger_def NewLogging_def agent_parseLogLevel_def parseLogLevel_def)

lemma isKnownLogLevel_iff:
  "isKnownLogLevel s \<longleftrightarrow> agent_parseLogLevel s \<noteq> None \<and> to_lower (trim_space s) \<noteq> ''''"
  by (auto simp: isKnownLogLevel_def agent_parseLogLevel_def Let_def)

lemma NewLogging_ok:
  "parseLogLevel (lg_Level cfg) \<noteq> None \<Longrightarrow> to_lower (trim_space (lg_Format cfg)) \<in> {''json'', ''text'', ''''} \<Longrightarrow>
   \<exists>r. NewLogging cfg = Inr r"
  by (auto simp: NewLogging_def Let_def)

end
