(* ===== verification/Admin.thy ===== *)
theory Admin
  imports Handlers Logging Complex_Main
begin

text \<open>
  The admin endpoints of \<open>pkg/server/admin.go\<close>, the check of the bearer token in front of them, and the
  mux of \<open>cmd/update-server/main.go\<close> that puts the device endpoints behind them. The token bucket is
  \<open>golang.org/x/time/rate\<close>, so making one and taking from one are parameters; its state is part of the state
  of the process. The comparison of tokens is equality (that it takes the same time is not modelled). The
  order in which a map is walked is the order of the association list.
\<close>

section \<open>Dependencies\<close>

definition maxAdminBody :: nat where "maxAdminBody = push_bit 10 8"
definition maxLevelBody :: nat where "maxLevelBody = 256"

record 'l admin_deps =
  ad_Token :: string
  ad_Manifester :: bool
  ad_Retention :: "retention_options option"
  ad_Logging :: bool
  ad_RateLimitPerSec :: rat
  ad_RateLimitBurst :: int
  ad_NewLimiter :: "rat \<Rightarrow> int \<Rightarrow> 'l"
  ad_Allow :: "int \<Rightarrow> 'l \<Rightarrow> bool \<times> 'l"

text \<open>The part of \<open>RegisterAdminHandlers\<close> that makes the limiter.\<close>

definition install_limiter :: "'l admin_deps \<Rightarrow> ('l, 'z) front_scheme \<Rightarrow> ('l, 'z) front_scheme" where
  "install_limiter d s =
     s\<lparr>fr_limiter := (if 0 < ad_RateLimitPerSec d \<and> 0 < ad_RateLimitBurst d
                      then Some (ad_NewLimiter d (ad_RateLimitPerSec d) (ad_RateLimitBurst d)) else None)\<rparr>"

section \<open>Authentication\<close>

definition allow :: "'l admin_deps \<Rightarrow> ('l, 'z) front_scheme \<Rightarrow> bool \<times> ('l, 'z) front_scheme" where
  "allow d s =
     (case fr_limiter s of
        None \<Rightarrow> (True, s)
      | Some l \<Rightarrow> (case ad_Allow d (os_Now s) l of (ok, l) \<Rightarrow> (ok, s\<lparr>fr_limiter := Some l\<rparr>)))"

definition refuse_admin :: "'l admin_deps \<Rightarrow> ('l, 'z) front_scheme handler" where
  "refuse_admin d r s =
     (case allow d s of
        (False, s) \<Rightarrow>
          (http_Error 429 (Msg ''too many requests''), ObserveAdminRequest (hq_Path r) 429 (IncAdminRateLimited s))
      | (True, s) \<Rightarrow> (http_Error 401 (Msg ''unauthorized''), ObserveAdminRequest (hq_Path r) 401 s))"

definition bearerTokenMiddleware :: "'l admin_deps \<Rightarrow> ('l, 'z) front_scheme handler \<Rightarrow> ('l, 'z) front_scheme handler" where
  "bearerTokenMiddleware d nxt r s =
     (let auth = hq_Auth r; prefix = ''Bearer ''
      in if \<not> has_prefix auth prefix then refuse_admin d r s
         else if drop (length prefix) auth \<noteq> ad_Token d then refuse_admin d r s
         else nxt r s)"

section \<open>Bodies\<close>

definition json_space :: "char \<Rightarrow> bool" where
  "json_space c \<longleftrightarrow> byte_val c \<in> {9, 10, 13, 32}"

definition decodeOptionalJSON :: "nat \<Rightarrow> content \<Rightarrow> (string \<times> json) list option" where
  "decodeOptionalJSON limit c =
     (case limited limit c of
        None \<Rightarrow> None
      | Some (Json j) \<Rightarrow> struct_fields j
      | Some (Raw b) \<Rightarrow> if list_all json_space b then Some [] else None)"

definition decodeJSON :: "nat \<Rightarrow> content \<Rightarrow> (string \<times> json) list option" where
  "decodeJSON limit c = Option.bind (Option.bind (limited limit c) parse_json) struct_fields"

text \<open>\<open>writeJSON\<close> drops the error of an encoder: nothing is written when a time cannot be.\<close>

definition artifacts_doc :: "artifact list \<Rightarrow> json \<Rightarrow> reply" where
  "artifacts_doc arts j =
     (if list_all (\<lambda>a. time_in_range (a_UpdatedAt a)) arts then writeJSON 200 (Json j)
      else \<lparr>rp_Status = 200, rp_Body = NoBody\<rparr>)"

definition stats_to_json :: "retention_stats \<Rightarrow> json" where
  "stats_to_json st =
     JObj [(''DeltasDeleted'', JInt (DeltasDeleted st)), (''FullsDeleted'', JInt (FullsDeleted st)),
           (''BinariesDeleted'', JInt (BinariesDeleted st)), (''BytesReclaimed'', JInt (BytesReclaimed st)),
           (''Scanned'', JInt (Scanned st)), (''Duration'', JInt (Duration st))]"

section \<open>Endpoints\<close>

fun reload_loop ::
  "lib \<Rightarrow> artifact_key list \<Rightarrow> (string \<times> string) list \<Rightarrow> ('l, 'z) front_scheme \<Rightarrow>
   (err + (string \<times> string) list) \<times> ('l, 'z) front_scheme" where
  "reload_loop L [] acc s = (Inr acc, s)"
| "reload_loop L (key # ks) acc s =
     (case Republish L InvalidateArtifact key s of
        (Inl e, s) \<Rightarrow> (Inl e, s)
      | (Inr art, s) \<Rightarrow> reload_loop L ks (put (key_string key) (a_TargetHash art) acc) s)"

definition reload_targets :: "string \<Rightarrow> ('l, 'z) front_scheme \<Rightarrow> err + artifact_key list" where
  "reload_targets name s =
     (if name \<noteq> '''' then map_sum id (\<lambda>key. [key]) (ParseArtifactKey name)
      else Inr (map fst (WatchedSources s)))"

definition admin_status :: "err \<Rightarrow> nat" where
  "admin_status e = (if errors_Is e ErrArtifactNotFound then 404 else 500)"

definition admin_reload :: "lib \<Rightarrow> ('l, 'z) front_scheme handler" where
  "admin_reload L r s =
     (case Option.bind (decodeOptionalJSON maxAdminBody (hq_Body r)) (\<lambda>fs. get_str fs ''artifact'') of
        None \<Rightarrow> (http_Error 400 (Msg ''invalid body''), s)
      | Some name \<Rightarrow>
          (case reload_targets name s of
             Inl e \<Rightarrow> (http_Error 400 e, s)
           | Inr targets \<Rightarrow>
               if targets = [] then (http_Error 404 (Msg ''no file-backed artifacts to reload''), s)
               else
                 (case reload_loop L targets [] s of
                    (Inl e, s) \<Rightarrow> (http_Error (admin_status e) (Wrap ''reload failed'' e), s)
                  | (Inr acc, s) \<Rightarrow>
                      (writeJSON 200 (Json (JObj [(''reloaded'', JObj (map (\<lambda>(k, h). (k, JStr h)) (sort_key fst acc)))])), s))))"

definition admin_artifacts :: "('l, 'z) front_scheme handler" where
  "admin_artifacts r s =
     (artifacts_doc (reg_List s)
        (JObj [(''artifacts'', JArr (map artifact_to_json (reg_List s))), (''default'', JStr (reg_Default s))]), s)"

definition admin_publish :: "lib \<Rightarrow> ('l, 'z) front_scheme handler" where
  "admin_publish L r s =
     (case Option.bind (decodeJSON maxAdminBody (hq_Body r))
             (\<lambda>fs. case (get_str fs ''name'', get_str fs ''os'', get_str fs ''arch'', get_str fs ''version'', get_str fs ''binary'') of
                (Some n, Some os, Some a, Some v, Some b) \<Rightarrow> Some (\<lparr>kName = n, kOS = os, kArch = a\<rparr>, v, b)
              | _ \<Rightarrow> None) of
        None \<Rightarrow> (http_Error 400 (Msg ''invalid body''), s)
      | Some (key, version, binary) \<Rightarrow>
          if binary = '''' then (http_Error 400 (Msg ''binary (path) is required''), s)
          else
            (case key_Validate key of
               Some e \<Rightarrow> (http_Error 400 e, s)
             | None \<Rightarrow>
                 (case PublishFile L InvalidateArtifact key version binary s of
                    (Inl e, s) \<Rightarrow>
                      (http_Error (if errors_Is e ENOENT then 400 else 500) (Wrap ''publish failed'' e), s)
                  | (Inr art, s) \<Rightarrow> (artifacts_doc [art] (artifact_to_json art), s))))"

definition admin_delete :: "('l, 'z) front_scheme handler" where
  "admin_delete r s =
     (case ParseArtifactKey (case map_of (hq_Query r) ''artifact'' of None \<Rightarrow> '''' | Some v \<Rightarrow> v) of
        Inl e \<Rightarrow> (http_Error 400 e, s)
      | Inr key \<Rightarrow>
          (case reg_Remove InvalidateArtifact key s of
             (Some e, s) \<Rightarrow> (http_Error (admin_status e) e, s)
           | (None, s) \<Rightarrow> (\<lparr>rp_Status = 204, rp_Body = NoBody\<rparr>, s)))"

definition admin_default :: "'l admin_deps \<Rightarrow> ('l, 'z) front_scheme handler" where
  "admin_default d r s =
     (case Option.bind (decodeJSON maxAdminBody (hq_Body r)) (\<lambda>fs. get_str fs ''artifact'') of
        None \<Rightarrow> (http_Error 400 (Msg ''invalid body''), s)
      | Some name \<Rightarrow>
          (case ParseArtifactKey name of
             Inl e \<Rightarrow> (http_Error 400 e, s)
           | Inr key \<Rightarrow>
               (case SetDefault key s of
                  (Some e, s) \<Rightarrow> (http_Error (admin_status e) e, s)
                | (None, s) \<Rightarrow>
                    (writeJSON 200 (Json (JObj [(''default'', JStr (key_string key))])),
                     if ad_Manifester d then Invalidate s else s))))"

definition admin_gc :: "'l admin_deps \<Rightarrow> ('l, 'z) front_scheme handler" where
  "admin_gc d r s =
     (case ad_Retention d of
        None \<Rightarrow> (http_Error 404 (Msg ''retention is not configured''), s)
      | Some ro \<Rightarrow>
          (case Sweep ro (hq_Ctx r) s of
             ((st, Some e), s) \<Rightarrow> (http_Error 500 (Wrap ''gc failed'' e), s)
           | ((st, None), s) \<Rightarrow> (writeJSON 200 (Json (stats_to_json st)), s)))"

definition admin_loglevel :: "'l admin_deps \<Rightarrow> ('l, 'z) front_scheme handler" where
  "admin_loglevel d r s =
     (case Option.bind (decodeJSON maxLevelBody (hq_Body r)) (\<lambda>fs. get_str fs ''level'') of
        None \<Rightarrow> (http_Error 400 (Msg ''invalid body''), s)
      | Some level \<Rightarrow>
          (case parseLogLevel level of
             None \<Rightarrow> (http_Error 400 (Msg ''unknown level''), s)
           | Some lvl \<Rightarrow>
               (writeJSON 200 (Json (JObj [(''level'', JStr level)])),
                if ad_Logging d then s\<lparr>fr_level := lvl\<rparr> else s)))"

section \<open>The mux of the server\<close>

definition admin_endpoints :: "'l admin_deps \<Rightarrow> lib \<Rightarrow> (string \<times> string \<times> ('l, 'z) front_scheme handler) list" where
  "admin_endpoints d L =
     [(''POST'', ''reload'', admin_reload L), (''GET'', ''artifacts'', admin_artifacts),
      (''POST'', ''artifacts'', admin_publish L), (''DELETE'', ''artifacts'', admin_delete),
      (''POST'', ''default'', admin_default d), (''POST'', ''gc'', admin_gc d), (''POST'', ''loglevel'', admin_loglevel d)]"

definition RegisterAdminHandlers :: "'l admin_deps \<Rightarrow> lib \<Rightarrow> ('l, 'z) front_scheme handler routes" where
  "RegisterAdminHandlers d L =
     map (\<lambda>(m, name, h). (m, [Lit ''admin'', Lit name], \<lambda>vs. bearerTokenMiddleware d h)) (admin_endpoints d L)"

definition rootMux :: "'l admin_deps \<Rightarrow> lib \<Rightarrow> ('l, 'z) front_scheme handler" where
  "rootMux d L = http_serve (mux_ServeHTTP (RegisterAdminHandlers d L) (Some (NewHTTPHandler L)))"

section \<open>Refused requests\<close>

text \<open>Without the token nothing happens but that a counter and the limiter move.\<close>

definition unguarded :: "('l, 'z) front_scheme \<Rightarrow> ('l, 'z) front_scheme" where
  "unguarded s = s\<lparr>fr_counts := None, fr_limiter := None\<rparr>"

lemma refused_fields:
  "unguarded t = unguarded s \<Longrightarrow> rg_artifacts t = rg_artifacts s \<and> rg_default t = rg_default s \<and> fr_level t = fr_level s"
proof -
  assume e: "unguarded t = unguarded s"
  show ?thesis
    using arg_cong [OF e, of rg_artifacts] arg_cong [OF e, of rg_default] arg_cong [OF e, of fr_level] by (simp add: unguarded_def)
qed

lemma visible_fields:
  "visible t = visible s \<Longrightarrow> rg_artifacts t = rg_artifacts s \<and> rg_default t = rg_default s \<and> fr_level t = fr_level s"
  by (simp add: visible_def)

lemma refuse_admin_only:
  "unguarded (snd (refuse_admin d r s)) = unguarded s"
  "rp_Status (fst (refuse_admin d r s)) \<in> {401, 429}"
proof -
  obtain ok s1 where 1: "allow d s = (ok, s1)" by fastforce
  then have s1: "unguarded s1 = unguarded s"
    by (auto simp: allow_def unguarded_def split: option.splits prod.splits)
  have inc: "unguarded (inc k t) = unguarded t" for k and t :: "('a, 'b) front_scheme"
    by (simp add: unguarded_def inc_def)
  show "unguarded (snd (refuse_admin d r s)) = unguarded s"
    by (cases ok) (simp_all add: refuse_admin_def 1 s1 inc ObserveAdminRequest_def IncAdminRateLimited_def)
  show "rp_Status (fst (refuse_admin d r s)) \<in> {401, 429}"
    by (cases ok) (simp_all add: refuse_admin_def 1 http_Error_def)
qed

lemma bearer_cases:
  "hq_Auth r = ''Bearer '' @ ad_Token d \<Longrightarrow> bearerTokenMiddleware d h r s = h r s"
  "hq_Auth r \<noteq> ''Bearer '' @ ad_Token d \<Longrightarrow> bearerTokenMiddleware d h r s = refuse_admin d r s"
proof -
  have t: "has_prefix a p \<and> drop (length p) a = t \<longleftrightarrow> a = p @ t" for a p t
    by (auto simp: has_prefix_iff)
  note t = t [of "hq_Auth r" "''Bearer ''" "ad_Token d"]
  show "hq_Auth r = ''Bearer '' @ ad_Token d \<Longrightarrow> bearerTokenMiddleware d h r s = h r s"
    using t by (simp only: bearerTokenMiddleware_def Let_def simp_thms if_False if_True)
  show "hq_Auth r \<noteq> ''Bearer '' @ ad_Token d \<Longrightarrow> bearerTokenMiddleware d h r s = refuse_admin d r s"
    using t by (simp only: bearerTokenMiddleware_def Let_def split: if_split) blast
qed

section \<open>Accepted requests are runs of the server\<close>

text \<open>Every admin operation is made of steps of the server, but for the log level, which no step reads.\<close>

lemma step_run: "server_step L s (snd p) \<Longrightarrow> p = (x, s') \<Longrightarrow> server_run L s s'"
  by auto

lemma reload_loop_run: "server_run L s (snd (reload_loop L ks acc s))"
proof (induction ks arbitrary: acc s)
  case (Cons k ks)
  obtain a s1 where 1: "Republish L InvalidateArtifact k s = (a, s1)" by fastforce
  have step: "server_run L s s1" using server_step.republish [of L s k] by (simp add: 1 r_into_rtranclp)
  show ?case
  proof (cases a)
    case (Inr art)
    have "server_run L s1 (snd (reload_loop L ks (put (key_string k) (a_TargetHash art) acc) s1))" by (rule Cons.IH)
    with step Inr 1 show ?thesis by simp
  qed (use step 1 in simp)
qed simp

lemma admin_run:
  "server_run L s (snd (admin_reload L r s))" "server_run L s (snd (admin_artifacts r s))"
  "server_run L s (snd (admin_publish L r s))" "server_run L s (snd (admin_delete r s))"
  "server_run L s (snd (admin_default d r s))" "server_run L s (snd (admin_gc d r s))"
proof -
  show "server_run L s (snd (admin_reload L r s))"
  proof -
    have "server_run L s s'" if "reload_loop L ks [] s = (x, s')" for ks x s'
      using reload_loop_run [of L s ks "[]"] that by simp
    then show ?thesis by (auto simp: admin_reload_def split: option.split sum.split prod.split)
  qed
  show "server_run L s (snd (admin_artifacts r s))" by (simp add: admin_artifacts_def)

  have "server_run L s s'" if "PublishFile L InvalidateArtifact key v b s = (x, s')" for key v b x s'
    by (rule step_run [OF server_step.publish_file that])
  then show "server_run L s (snd (admin_publish L r s))"
    by (auto simp: admin_publish_def split: option.split sum.split prod.split)
  have "server_run L s s'" if "reg_Remove InvalidateArtifact key s = (x, s')" for key x s'
    by (rule step_run [OF server_step.remove that])
  then show "server_run L s (snd (admin_delete r s))"
    by (auto simp: admin_delete_def split: option.split sum.split prod.split)
  have "server_run L s s' \<and> server_run L s (Invalidate s')" if "SetDefault key s = (x, s')" for key x s'
    using step_run [OF server_step.set_default that] server_step.invalidate [of L s'] by (meson rtranclp.rtrancl_into_rtrancl)
  then show "server_run L s (snd (admin_default d r s))"
    by (auto simp: admin_default_def split: option.split sum.split prod.split)
  have "server_run L s s'" if "Sweep ro c s = (x, s')" for ro c x s'
    by (rule step_run [OF server_step.sweep that])
  then show "server_run L s (snd (admin_gc d r s))"
    by (auto simp: admin_gc_def split: option.split prod.split)
qed

text \<open>The endpoints of the mux.\<close>

definition admin_names :: "(string \<times> string) list" where
  "admin_names =
     [(''POST'', ''reload''), (''GET'', ''artifacts''), (''POST'', ''artifacts''), (''DELETE'', ''artifacts''),
      (''POST'', ''default''), (''POST'', ''gc''), (''POST'', ''loglevel'')]"

text \<open>A request that names an admin endpoint.\<close>

definition admin_request :: "http_request \<Rightarrow> bool" where
  "admin_request r \<longleftrightarrow> list_ex (\<lambda>(m, name). hq_Method r = m \<and> hq_Path r = ''/admin/'' @ name) admin_names"

lemma admin_endpoint_names: "(m, name, h) \<in> set (admin_endpoints d L) \<Longrightarrow> (m, name) \<in> set admin_names"
  by (auto simp: admin_endpoints_def admin_names_def)

lemma admin_path_clean: "(m, name) \<in> set admin_names \<Longrightarrow>
  clean_url_path (''/admin/'' @ name) = ''/admin/'' @ name \<and> url_segments (''/admin/'' @ name) = [''admin'', name]"
proof -
  have "list_all (\<lambda>(m, name). clean_url_path (''/admin/'' @ name) = ''/admin/'' @ name \<and>
      url_segments (''/admin/'' @ name) = [''admin'', name]) admin_names" by code_simp
  then show "(m, name) \<in> set admin_names \<Longrightarrow> ?thesis" by (fastforce simp: list_all_iff)
qed

lemma admin_find:
  "find_route (RegisterAdminHandlers d L) m ss = Some h \<Longrightarrow>
   \<exists>pm name g. (pm, name, g) \<in> set (admin_endpoints d L) \<and> h = bearerTokenMiddleware d g"
  using find_route_elem [of "RegisterAdminHandlers d L" m ss h] by (fastforce simp: RegisterAdminHandlers_def)

lemma find_route_None:
  "find_route rs m ss = None \<Longrightarrow> (pm, ps, h) \<in> set rs \<Longrightarrow> match_segs ps ss = Some vs \<Longrightarrow> \<not> method_ok pm m"
  by (induction rs m ss rule: find_route.induct) (auto split: option.splits if_splits)

lemma admin_found:
  assumes "(m, name) \<in> set admin_names"
  shows "find_route (RegisterAdminHandlers d L :: ('l, 'z) front_scheme handler routes) m [''admin'', name] \<noteq> None"
proof
  assume none: "find_route (RegisterAdminHandlers d L :: ('l, 'z) front_scheme handler routes) m [''admin'', name] = None"
  let ?es = "admin_endpoints d L :: (string \<times> string \<times> ('l, 'z) front_scheme handler) list"
  have "map (\<lambda>(m, name, h). (m, name)) ?es = admin_names"
    by (simp add: admin_names_def admin_endpoints_def)
  then have "(m, name) \<in> (\<lambda>(m, name, h). (m, name)) ` set ?es" using assms by (metis set_map)
  then obtain g where "(m, name, g) \<in> set ?es" by auto
  then have "(m, [Lit ''admin'', Lit name], \<lambda>vs. bearerTokenMiddleware d g) \<in> set (RegisterAdminHandlers d L)"
    by (force simp: RegisterAdminHandlers_def)
  from find_route_None [OF none this] show False by (simp add: method_ok_def)
qed

text \<open>What the mux of the server runs, and the state after it.\<close>

lemma rootMux_state:
  fixes s :: "('l, 'z) front_scheme"
  shows "snd (rootMux d L r s) = s \<or>
   (\<exists>pm name g. (pm, name, g) \<in> set (admin_endpoints d L) \<and> snd (rootMux d L r s) = snd (bearerTokenMiddleware d g r s)) \<or>
   snd (rootMux d L r s) = snd (NewHTTPHandler L r s)"
proof -
  let ?route = "mux_route (RegisterAdminHandlers d L) (Some (NewHTTPHandler L)) (hq_Method r) (hq_Path r) :: ('l, 'z) front_scheme handler routed"
  have "h = NewHTTPHandler L \<or> (\<exists>pm name g. (pm, name, g) \<in> set (admin_endpoints d L) \<and> h = bearerTokenMiddleware d g)"
    if "?route = Run h" for h
  proof -
    have "find_route (RegisterAdminHandlers d L) (hq_Method r) (url_segments (clean_url_path (hq_Path r))) = Some h \<or> h = NewHTTPHandler L"
      using that by (auto simp: mux_route_def Let_def split: if_splits option.splits)
    then show ?thesis using admin_find by blast
  qed
  moreover have "snd (rootMux d L r s) = snd (mux_ServeHTTP (RegisterAdminHandlers d L) (Some (NewHTTPHandler L)) r s)"
    by (auto simp: rootMux_def http_serve_def split: prod.split)
  ultimately show ?thesis by (cases ?route) (auto simp: mux_ServeHTTP_def)
qed

lemma rootMux_admin:
  fixes s :: "('l, 'z) front_scheme"
  assumes "admin_request r"
  shows "\<exists>g. fst (rootMux d L r s) = fst (bearerTokenMiddleware d g r s) \<and> snd (rootMux d L r s) = snd (bearerTokenMiddleware d g r s)"
proof -
  obtain m name where n: "(m, name) \<in> set admin_names" "hq_Method r = m" "hq_Path r = ''/admin/'' @ name"
    using assms by (auto simp: admin_request_def list_ex_iff)
  then have "m \<noteq> ''HEAD''" by (auto simp: admin_names_def)
  note p = admin_path_clean [OF n(1)]
  obtain h :: "('l, 'z) front_scheme handler"
    where h: "find_route (RegisterAdminHandlers d L) m [''admin'', name] = Some h" using admin_found [OF n(1)] by blast
  from admin_find [OF this] obtain g where g: "h = bearerTokenMiddleware d g" by blast
  have "mux_ServeHTTP (RegisterAdminHandlers d L) (Some (NewHTTPHandler L)) r s = h r s"
    using h p n(2,3) by (simp add: mux_ServeHTTP_def mux_route_def Let_def)
  with g n(2) \<open>m \<noteq> ''HEAD''\<close> show ?thesis
    by (intro exI [of _ g]) (simp add: rootMux_def http_serve_def split: prod.split)
qed

lemma kept_limiter: "kept s' = kept s \<Longrightarrow> fr_limiter s' = fr_limiter s"
  by (cases s, cases s') (simp add: kept_def front.defs manifester.defs)

text \<open>An accepted admin request keeps the server's promises, its key and settings, and what the process
  keeps beside it, but for the log level.\<close>

definition tuned :: "'z manifester_scheme \<Rightarrow> bytes \<times> int \<times> int \<times> bool" where
  "tuned s = (mf_priv s, mf_chunkSize s, mf_retryAfter s, mf_allowFull s)"

lemma tuned_simps [simp]:
  "tuned (s\<lparr>fr_counts := m\<rparr>) = tuned s" "tuned (s\<lparr>fr_level := l\<rparr>) = tuned s" "tuned (s\<lparr>fr_limiter := a\<rparr>) = tuned s"
  "tuned (unguarded s) = tuned s" "tuned (uncounted s) = tuned s"
  by (simp_all add: tuned_def unguarded_def uncounted_def)

lemma tuned_kept: "kept s' = kept s \<Longrightarrow> tuned s' = tuned s"
  by (simp add: kept_def tuned_def)

lemma tuned_visible: "visible s' = visible s \<Longrightarrow> tuned s' = tuned s"
  by (simp add: visible_def tuned_def)

lemma admin_handler_ok:
  assumes "server_ok L s" "(pm, name, g) \<in> set (admin_endpoints d L)"
  shows "server_ok L (snd (g r s)) \<and> fr_limiter (snd (g r s)) = fr_limiter s \<and> tuned (snd (g r s)) = tuned s"
proof -
  have run: "server_ok L s' \<and> fr_limiter s' = fr_limiter s \<and> tuned s' = tuned s" if "server_run L s s'" for s'
    using server_run_ok [OF that assms(1)] kept_limiter tuned_kept server_run_kept [OF that assms(1)] by blast
  have "server_ok L (snd (admin_loglevel d r s)) \<and> fr_limiter (snd (admin_loglevel d r s)) = fr_limiter s \<and>
      tuned (snd (admin_loglevel d r s)) = tuned s"
    using assms(1) front_eq_ok [OF front_eq_updates(2)]
    by (auto simp: admin_loglevel_def split: option.split)
  moreover have "g \<in> {admin_reload L, admin_artifacts, admin_publish L, admin_delete, admin_default d, admin_gc d, admin_loglevel d}"
    using assms(2) by (auto simp: admin_endpoints_def)
  ultimately show ?thesis using run [OF admin_run(1)] run [OF admin_run(2)] run [OF admin_run(3)] run [OF admin_run(4)]
      run [OF admin_run(5)] run [OF admin_run(6)] by blast
qed

lemma refuse_admin_ok:
  assumes "server_ok L s"
  shows "server_ok L (snd (refuse_admin d r s))"
proof -
  have "server_ok L (snd (allow d s))" using assms front_eq_ok [OF front_eq_updates(3)]
    by (auto simp: allow_def split: option.split prod.split)
  then show ?thesis by (auto simp: refuse_admin_def split: prod.split bool.split)
qed

lemma rootMux_ok: "server_ok L s \<Longrightarrow> server_ok L (snd (rootMux d L r s)) \<and> tuned (snd (rootMux d L r s)) = tuned s"
proof -
  assume s: "server_ok L s"
  have refuse: "tuned (snd (refuse_admin d r s)) = tuned s"
    using refuse_admin_only(1) [of d r s] tuned_simps(4) by metis
  have "server_ok L (snd (bearerTokenMiddleware d g r s)) \<and> tuned (snd (bearerTokenMiddleware d g r s)) = tuned s"
    if "(pm, name, g) \<in> set (admin_endpoints d L)" for pm name g
    using admin_handler_ok [OF s that] refuse_admin_ok [OF s] refuse bearer_cases [of r d g s]
    by (cases "hq_Auth r = ''Bearer '' @ ad_Token d") auto
  moreover have "server_ok L (snd (NewHTTPHandler L r s))" "tuned (snd (NewHTTPHandler L r s)) = tuned s"
    using NewHTTPHandler_calm [OF s] tuned_visible unfolding calm_def by blast+
  ultimately show ?thesis using rootMux_state [of d L r s] s by metis
qed

section \<open>Properties\<close>

text \<open>A process on an empty store, with a limiter that has no token left.\<close>

definition sample_admin :: "nat admin_deps" where
  "sample_admin = \<lparr>ad_Token = ''0123456789abcdef0123456789abcdef'', ad_Manifester = True, ad_Retention = None, ad_Logging = True,
     ad_RateLimitPerSec = 5, ad_RateLimitBurst = 1, ad_NewLimiter = \<lambda>rate burst. nat burst, ad_Allow = \<lambda>now n. (0 < n, n - 1)\<rparr>"

text \<open>C5. The admin endpoints are closed to everybody without the token: a request whose Authorization header is
  not the exact bearer token leaves the registry, the default, the key, the settings and the log level as
  they are, whatever its path; if it names an admin endpoint it is refused with 401 or 429, and nothing in
  the whole process moves but a counter and the limiter. A request with the token never touches the limiter,
  so it is never slowed down by the failures of others. Either way the server keeps all its promises.\<close>

theorem admin_needs_token:
  assumes "server_ok L s" "rootMux d L r s = (rep, s')"
  shows "server_ok L s' \<and>
    (if hq_Auth r = ''Bearer '' @ ad_Token d then fr_limiter s' = fr_limiter s
     else rg_artifacts s' = rg_artifacts s \<and> rg_default s' = rg_default s \<and> tuned s' = tuned s \<and> fr_level s' = fr_level s \<and>
       (admin_request r \<longrightarrow> rp_Status rep \<in> {401, 429} \<and> unguarded s' = unguarded s))"
proof (cases "hq_Auth r = ''Bearer '' @ ad_Token d")
  case True
  have "fr_limiter (snd (NewHTTPHandler L r s)) = fr_limiter s"
    using NewHTTPHandler_calm [OF assms(1), of r] by (simp add: calm_def visible_def)
  then have "fr_limiter s' = fr_limiter s"
    using rootMux_state [of d L r s] admin_handler_ok [OF assms(1)] bearer_cases(1) [OF True] assms(2) by (metis snd_conv)
  with True rootMux_ok [OF assms(1), of d r] assms(2) show ?thesis by simp
next
  case False
  have refused: "bearerTokenMiddleware d g r s = refuse_admin d r s" for g by (rule bearer_cases(2) [OF False])
  have "visible (snd (NewHTTPHandler L r s)) = visible s" using NewHTTPHandler_calm [OF assms(1)] by (simp add: calm_def)
  note calm = visible_fields [OF this] and refuse = refused_fields [OF refuse_admin_only(1), of d r s]
  have "s' = s \<or> s' = snd (refuse_admin d r s) \<or> s' = snd (NewHTTPHandler L r s)"
    using rootMux_state [of d L r s] assms(2) unfolding refused by auto
  then have "rg_artifacts s' = rg_artifacts s \<and> rg_default s' = rg_default s \<and> fr_level s' = fr_level s"
    using calm refuse by (elim disjE) simp_all
  moreover have "rp_Status rep \<in> {401, 429} \<and> unguarded s' = unguarded s" if "admin_request r"
    using rootMux_admin [OF that, of d L s] refused refuse_admin_only [of d r s] assms(2) by auto
  ultimately show ?thesis using False rootMux_ok [OF assms(1), of d r] assms(2) by simp
qed

definition sample_intruder :: http_request where
  "sample_intruder = \<lparr>hq_Method = ''POST'', hq_Path = ''/admin/default'', hq_Query = [], hq_Auth = ''Bearer guess'', hq_Range = '''',
     hq_Body = Json (JObj [(''artifact'', JStr ''app'')]), hq_Ctx = None\<rparr>"

theorem admin_needs_token_witness:
  "rp_Status (fst (rootMux sample_admin front_lib sample_intruder sample_front)) \<in> {401, 429} \<and>
   unguarded (snd (rootMux sample_admin front_lib sample_intruder sample_front)) = unguarded sample_front"
proof -
  have "admin_request sample_intruder" "hq_Auth sample_intruder \<noteq> ''Bearer '' @ ad_Token sample_admin" by code_simp+
  then show ?thesis
    using admin_needs_token [OF sample_front_ok, of sample_admin sample_intruder] by (metis prod.collapse)
qed

end
