(* ===== verification/Front.thy ===== *)
theory Front
  imports Admin
begin

text \<open>
  The server as a process, and the agent that talks to it. A run of the process interleaves requests over
  HTTP and CoAP, of devices and of operators, with the steps the server makes by itself (publications by
  the watchers, sweeps, delta generations, the clock), in any order. Seen from the agent the process is a
  network (\<open>server_net\<close>), so that the agent's HTTP client and transport, as modelled, can be run against
  the server's handlers, as modelled. The lemmas show that every run keeps the promises of the server, and
  what the agent's client and transport get from it.
\<close>

section \<open>Runs of the process\<close>

lemma uncounted_ok: "uncounted t = uncounted s \<Longrightarrow> server_ok L s \<Longrightarrow> server_ok L t \<and> tuned t = tuned s"
proof -
  assume e: "uncounted t = uncounted s" and s: "server_ok L s"
  have "(uncounted t)\<lparr>fr_counts := fr_counts t\<rparr> = (uncounted s)\<lparr>fr_counts := fr_counts t\<rparr>" by (simp only: e)
  then have "t = s\<lparr>fr_counts := fr_counts t\<rparr>" by (simp add: uncounted_def)
  then show ?thesis using front_eq_ok [OF front_eq_updates(1) s] tuned_simps(1) by metis
qed

lemma calm_ok: "calm L s f \<Longrightarrow> server_ok L (snd f) \<and> tuned (snd f) = tuned s"
  using tuned_visible by (auto simp: calm_def)

lemma coap_heartbeat_ok: "server_ok L s \<Longrightarrow> server_ok L (snd (coap_heartbeat L cd q s)) \<and> tuned (snd (coap_heartbeat L cd q s)) = tuned s"
proof -
  assume s: "server_ok L s"
  have inc: "server_ok L t \<Longrightarrow> server_ok L (ObserveHeartbeat a b t) \<and> tuned (ObserveHeartbeat a b t) = tuned t" for a b and t :: "('a, 'b) front_scheme"
    using uncounted_ok [of "ObserveHeartbeat a b t" t L] by simp
  have build: "server_ok L s' \<and> tuned s' = tuned s" if "Build L c hb s = (x, s')" for c hb x s'
    using calm_ok [OF Build_calm [OF s that]] by simp
  show ?thesis
    using s inc build by (auto simp: coap_heartbeat_def split: sum.split option.split prod.split)
qed

lemma NewCoAPRouter_ok:
  assumes "server_ok L s"
  shows "server_ok L (snd (NewCoAPRouter L cd q s)) \<and> tuned (snd (NewCoAPRouter L cd q s)) = tuned s"
proof -
  define r where "r = \<lparr>hq_Method = ''GET'', hq_Path = '''', hq_Query = [], hq_Auth = '''', hq_Range = '''', hq_Body = Raw '''', hq_Ctx = cq_Ctx q\<rparr>"
  have r: "hq_Range r = ''''" "hq_Ctx r = cq_Ctx q" by (simp_all add: r_def)
  have delta: "server_ok L (snd (coap_delta f t q s)) \<and> tuned (snd (coap_delta f t q s)) = tuned s" for f t
  proof (cases "cq_Method q = CoapGET")
    case True
    have "uncounted (snd (coap_delta f t q s)) = uncounted (snd (http_delta f t r s))"
      using delta_agree [OF r(1) True, of json_codec f t s] by (simp add: agree_def)
    from uncounted_ok [OF this] calm_ok [OF http_delta_calm [OF assms]] show ?thesis by metis
  qed (use assms in \<open>simp add: coap_delta_def\<close>)
  have binary: "server_ok L (snd (coap_binary L h q s)) \<and> tuned (snd (coap_binary L h q s)) = tuned s" for h
  proof (cases "cq_Method q = CoapGET")
    case True
    have "uncounted (snd (coap_binary L h q s)) = uncounted (snd (http_binary L h r s))"
      using binary_agree [OF r(1) True r(2) [symmetric], of json_codec L h s] by (simp add: agree_def)
    from uncounted_ok [OF this] calm_ok [OF http_binary_calm [OF assms]] show ?thesis by metis
  qed (use assms in \<open>simp add: coap_binary_def\<close>)
  have report: "snd (coap_report cd q s) = s" by (auto simp: coap_report_def split: sum.split option.split)
  have "h \<in> {coap_heartbeat L cd, coap_report cd} \<or> (\<exists>f t. h = coap_delta f t) \<or> (\<exists>x. h = coap_binary L x)"
    if "find_route (coap_routes L cd) m ss = Some h" for m ss and h :: "('a, 'b) front_scheme coap_h"
    using find_route_elem [OF that] by (auto simp: coap_routes_def)
  then have "server_ok L (snd (h q s)) \<and> tuned (snd (h q s)) = tuned s"
    if "find_route (coap_routes L cd) m ss = Some h" for m ss and h :: "('a, 'b) front_scheme coap_h"
    using that assms delta binary report coap_heartbeat_ok [OF assms, of cd q] by fastforce
  then show ?thesis using assms by (auto simp: NewCoAPRouter_def split: option.split)
qed

inductive front_step :: "'l admin_deps \<Rightarrow> lib \<Rightarrow> codec \<Rightarrow> ('l, 'z) front_scheme \<Rightarrow> ('l, 'z) front_scheme \<Rightarrow> bool"
  for d L cd where
  http: "front_step d L cd s (snd (rootMux d L r s))"
| coap: "front_step d L cd s (snd (NewCoAPRouter L cd q s))"
| alone: "server_step L s s' \<Longrightarrow> front_step d L cd s s'"

inductive_cases front_stepE: "front_step d L cd s s'"

abbreviation front_run :: "'l admin_deps \<Rightarrow> lib \<Rightarrow> codec \<Rightarrow> ('l, 'z) front_scheme \<Rightarrow> ('l, 'z) front_scheme \<Rightarrow> bool" where
  "front_run d L cd \<equiv> (front_step d L cd)\<^sup>*\<^sup>*"

lemma front_step_ok: "front_step d L cd s s' \<Longrightarrow> server_ok L s \<Longrightarrow> server_ok L s' \<and> tuned s' = tuned s"
proof (induction rule: front_step.induct)
  case (alone s s')
  then show ?case using server_step_ok server_step_kept tuned_kept by blast
qed (use rootMux_ok NewCoAPRouter_ok in blast)+

lemma front_run_ok: "front_run d L cd s s' \<Longrightarrow> server_ok L s \<Longrightarrow> server_ok L s' \<and> tuned s' = tuned s"
  by (induction rule: rtranclp_induct) (use front_step_ok in metis)+

section \<open>The server as the agent's network\<close>

text \<open>The text of an error and the framing of several ranges are left out. The server's own context of a
  request is never cancelled; a call takes the time \<open>lag\<close>.\<close>

definition reply_chunks :: "reply_body \<Rightarrow> content list" where
  "reply_chunks b =
     (case b of NoBody \<Rightarrow> [] | ErrorText e \<Rightarrow> [] | Doc c \<Rightarrow> [c] | Octets d \<Rightarrow> [Raw d]
      | Parts ps \<Rightarrow> map (\<lambda>(start, d). Raw d) ps)"

definition to_request :: "http_req \<Rightarrow> url \<Rightarrow> http_request" where
  "to_request q u =
     \<lparr>hq_Method = rq_Method q, hq_Path = u_Path u, hq_Query = [], hq_Auth = '''', hq_Range = range_header (rq_Range q),
      hq_Body = rq_Body q, hq_Ctx = None\<rparr>"

definition serve_http :: "'l admin_deps \<Rightarrow> lib \<Rightarrow> nat \<Rightarrow> http_req \<Rightarrow> (('l, 'z) front_scheme, err + http_resp) remote" where
  "serve_http d L lag q z =
     (case url_Parse (rq_URL q) of
        Inl e \<Rightarrow> (Inl e, lag, z)
      | Inr u \<Rightarrow>
          (case rootMux d L (to_request q u) z of
             (rep, z) \<Rightarrow> (Inr \<lparr>rs_Status = rp_Status rep, rs_Body = (reply_chunks (rp_Body rep), None)\<rparr>, lag, z)))"

definition serve_coap ::
  "lib \<Rightarrow> codec \<Rightarrow> nat \<Rightarrow> coap_method \<Rightarrow> string \<Rightarrow> content \<Rightarrow> (('l, 'z) front_scheme, err + coap_resp) remote" where
  "serve_coap L cd lag meth path body z =
     (case NewCoAPRouter L cd \<lparr>cq_Method = meth, cq_Path = path, cq_Body = Inr body, cq_Ctx = None\<rparr> z of
        (resp, z) \<Rightarrow> (Inr resp, lag, z))"

definition server_net :: "'l admin_deps \<Rightarrow> lib \<Rightarrow> codec \<Rightarrow> nat \<Rightarrow> ('l, 'z) front_scheme net" where
  "server_net d L cd lag =
     \<lparr>http_Do = (\<lambda>c q. serve_http d L lag q),
      udp_Dial = (\<lambda>host opts z. (None, lag, z)),
      coap_Get = (\<lambda>c host path. serve_coap L cd lag CoapGET path (Raw '''')),
      coap_Post = (\<lambda>c host path body. serve_coap L cd lag CoapPOST path body)\<rparr>"

section \<open>URLs of the server\<close>

definition url_char :: "char \<Rightarrow> bool" where
  "url_char c \<longleftrightarrow> is_alpha c \<or> is_digit c \<or> c = CHR ''.'' \<or> c = CHR ''-'' \<or> c = CHR '':''"

text \<open>The base URLs considered: a host and perhaps a port.\<close>

definition base_ok :: "string \<Rightarrow> bool" where
  "base_ok base \<longleftrightarrow> (\<exists>h. base = ''http://'' @ h \<and> h \<noteq> '''' \<and> list_all url_char h \<and> valid_port h)"

definition path_char :: "char \<Rightarrow> bool" where
  "path_char c \<longleftrightarrow> is_alpha c \<or> is_digit c \<or> c = CHR ''/''"

lemma url_char_plain: "url_char c \<Longrightarrow> c \<noteq> CHR ''/'' \<and> c \<notin> {CHR 0x23, CHR ''?'', CHR ''@''} \<and> 32 \<le> byte_val c \<and> byte_val c \<noteq> 127"
  by (auto simp: url_char_def is_alpha_def is_lower_def is_upper_def is_digit_def less_eq_char_def)

lemma path_char_plain: "path_char c \<Longrightarrow> c \<notin> {CHR 0x23, CHR ''?'', CHR ''@'', CHR '':''} \<and> 32 \<le> byte_val c \<and> byte_val c \<noteq> 127"
  by (auto simp: path_char_def is_alpha_def is_lower_def is_upper_def is_digit_def less_eq_char_def)

lemma before_fresh: "c \<notin> set s \<Longrightarrow> before c s = s"
  by (auto simp: before_def takeWhile_eq_all_conv)

lemma scan_http: "scan_scheme True '''' (''http:'' @ r) = Some (''http'', r)"
  by (simp add: is_alpha_def is_lower_def is_upper_def less_eq_char_def is_digit_def)

lemma url_Parse_base:
  assumes "h \<noteq> ''''" "list_all url_char h" "valid_port h" "list_all path_char p" "has_prefix p ''/''"
  shows "url_Parse (''http://'' @ h @ p) = Inr \<lparr>u_Scheme = ''http'', u_Host = h, u_Path = p\<rparr>"
proof -
  have hc: "c \<noteq> CHR ''/'' \<and> c \<notin> {CHR 0x23, CHR ''?'', CHR ''@''} \<and> 32 \<le> byte_val c \<and> byte_val c \<noteq> 127" if "c \<in> set h" for c
    using that assms(2) url_char_plain by (auto simp: list_all_iff)
  have pc: "c \<notin> {CHR 0x23, CHR ''?'', CHR ''@'', CHR '':''} \<and> 32 \<le> byte_val c \<and> byte_val c \<noteq> 127" if "c \<in> set p" for c
    using that assms(4) path_char_plain by (auto simp: list_all_iff)
  let ?rest = "''//'' @ h @ p"
  let ?raw = "''http:'' @ ?rest"
  have plain: "c \<notin> {CHR 0x23, CHR ''?''} \<and> 32 \<le> byte_val c \<and> byte_val c \<noteq> 127" if "c \<in> set ?raw" for c
  proof -
    have "c \<in> set ''http://'' \<or> c \<in> set h \<or> c \<in> set p" using that by auto
    then show ?thesis using hc pc by auto
  qed
  have 1: "before (CHR 0x23) ?raw = ?raw" using plain by (intro before_fresh) blast
  have 2: "\<not> list_ex (\<lambda>c. byte_val c < 32 \<or> byte_val c = 127) ?raw" using plain by (fastforce simp: list_ex_iff)
  have "CHR ''?'' \<notin> set ?raw" using plain by blast
  then have 3: "before (CHR ''?'') ?rest = ?rest" by (intro before_fresh) simp
  obtain p' where p': "p = CHR ''/'' # p'" using assms(5) by (auto simp: has_prefix_iff)
  have 4: "before (CHR ''/'') (h @ p) = h" using hc by (auto simp: before_def p' takeWhile_tail takeWhile_append2)
  have "CHR ''@'' \<notin> set h" using hc by blast
  then have 5: "after_at h = h" by (simp add: after_at_def split_on_fresh)
  have low: "to_lower ''http'' = ''http''" by code_simp
  have "has_prefix ?rest ''/''" "has_prefix ?rest ''//''" by (simp_all add: has_prefix_def)
  with 1 2 3 4 5 low assms(3) scan_http [of ?rest] show ?thesis
    by (simp add: url_Parse_def Let_def del: scan_scheme.simps)
qed

text \<open>A base URL in full, and the paths of the protocol.\<close>

lemma base_parts:
  assumes "base_ok base" "list_all path_char p" "has_prefix p ''/''"
  obtains h where "url_Parse (base @ p) = Inr \<lparr>u_Scheme = ''http'', u_Host = h, u_Path = p\<rparr>"
proof -
  obtain h where h: "base = ''http://'' @ h" "h \<noteq> ''''" "list_all url_char h" "valid_port h"
    using assms(1) by (auto simp: base_ok_def)
  show ?thesis using that [of h] url_Parse_base [OF h(2-4) assms(2,3)] by (simp add: h(1))
qed

lemma base_trim: "base_ok base \<Longrightarrow> trim_right_slash base = base"
proof -
  assume "base_ok base"
  then obtain h where h: "base = ''http://'' @ h" "h \<noteq> ''''" "list_all url_char h" by (auto simp: base_ok_def)
  then obtain g c where g: "h = g @ [c]" "url_char c" by (cases h rule: rev_cases) auto
  then have "c \<noteq> CHR ''/''" using url_char_plain by blast
  then show ?thesis by (simp add: h(1) g(1) trim_right_slash_def)
qed

lemma hash_path_chars: "IsValidHash f \<Longrightarrow> list_all path_char f"
proof -
  have "path_char c" if "is_lower_hex c" for c
    using that by (auto simp: is_lower_hex_def path_char_def is_alpha_def is_lower_def is_digit_def less_eq_char_def)
  then show "IsValidHash f \<Longrightarrow> ?thesis" by (auto simp: IsValidHash_iff list_all_iff)
qed

lemma hash_seg: "IsValidHash f \<Longrightarrow> path_seg f"
  using IsValidHash_chars [of f] IsValidHash_length [of f] by (auto simp: path_seg_def)

lemma literal_chars: "list_all path_char ''/delta/''" "list_all path_char ''/binary/''" "list_all path_char PathHeartbeat"
  by code_simp+

lemma clean_two: "path_seg a \<Longrightarrow> path_seg b \<Longrightarrow> path_clean (CHR ''/'' # a @ CHR ''/'' # b) = CHR ''/'' # a @ CHR ''/'' # b"
  using clean_render(1) [of True "[b, a]"] by (simp add: render_def path_seg_def)

lemma clean_three:
  "path_seg a \<Longrightarrow> path_seg b \<Longrightarrow> path_seg c \<Longrightarrow>
   path_clean (CHR ''/'' # a @ CHR ''/'' # b @ CHR ''/'' # c) = CHR ''/'' # a @ CHR ''/'' # b @ CHR ''/'' # c"
  using clean_render(1) [of True "[c, b, a]"] by (simp add: render_def path_seg_def)

text \<open>The endpoint of a manifest: the path of a delta or of a whole binary.\<close>

definition endpoint :: "string \<Rightarrow> string list \<Rightarrow> bool" where
  "endpoint p ss \<longleftrightarrow>
     (\<exists>f t. IsValidHash f \<and> IsValidHash t \<and> p = protocol_DeltaPath f t \<and> ss = [''delta'', f, t]) \<or>
     (\<exists>h. IsValidHash h \<and> p = protocol_BinaryPath h \<and> ss = [''binary'', h])"

lemma endpoint_facts:
  assumes "endpoint p ss"
  shows "has_prefix p ''/''" "\<not> has_prefix p ''//''" "list_all path_char p" "path_clean p = p"
    "clean_url_path p = p" "url_segments p = ss"
proof -
  have lit: "path_seg ''delta''" "path_seg ''binary''" by (simp_all add: path_seg_def)
  have last: "last (xs @ CHR ''/'' # h) \<noteq> CHR ''/''" if "IsValidHash h" for xs h
  proof -
    have "h \<noteq> ''''" "CHR ''/'' \<notin> set h" using IsValidHash_chars [OF that] by auto
    then have "last h \<noteq> CHR ''/''" using last_in_set [of h] by metis
    with \<open>h \<noteq> ''''\<close> show ?thesis by simp
  qed
  have slash: "CHR ''/'' \<notin> set ''delta''" "CHR ''/'' \<notin> set ''binary''" by simp_all
  from assms consider f t where "IsValidHash f" "IsValidHash t" "p = CHR ''/'' # ''delta'' @ CHR ''/'' # f @ CHR ''/'' # t" "ss = [''delta'', f, t]"
    | h where "IsValidHash h" "p = CHR ''/'' # ''binary'' @ CHR ''/'' # h" "ss = [''binary'', h]"
    by (auto simp: endpoint_def protocol_DeltaPath_def protocol_BinaryPath_def PathDelta_def PathBinary_def)
  then have all: "has_prefix p ''/'' \<and> \<not> has_prefix p ''//'' \<and> list_all path_char p \<and> path_clean p = p \<and>
    last p \<noteq> CHR ''/'' \<and> url_segments p = ss"
  proof cases
    case 1
    have "path_clean p = p" unfolding 1(3) using 1(1,2) lit(1) hash_seg by (intro clean_three) auto
    moreover have "last p \<noteq> CHR ''/''" using last [OF 1(2), of "CHR ''/'' # ''delta'' @ CHR ''/'' # f"] by (simp add: 1(3))
    moreover have "list_all path_char p" using literal_chars(1) hash_path_chars 1(1,2) by (simp add: 1(3))
    moreover have "url_segments p = ss"
      using IsValidHash_chars(1) 1 slash(1) split_on_append [of "CHR ''/''" "''delta''"] split_on_append [of "CHR ''/''" f t]
      by (simp add: url_segments_def split_on_fresh)
    ultimately show ?thesis by (simp add: 1(3) has_prefix_def)
  next
    case 2
    have "path_clean p = p" unfolding 2(2) using 2(1) lit(2) hash_seg by (intro clean_two) auto
    moreover have "last p \<noteq> CHR ''/''" using last [OF 2(1), of "CHR ''/'' # ''binary''"] by (simp add: 2(2))
    moreover have "list_all path_char p" using literal_chars(2) hash_path_chars 2(1) by (simp add: 2(2))
    moreover have "url_segments p = ss"
      using IsValidHash_chars(1) 2 slash(2) split_on_append [of "CHR ''/''" "''binary''"] by (simp add: url_segments_def split_on_fresh)
    ultimately show ?thesis by (simp add: 2(2) has_prefix_def)
  qed
  then show "has_prefix p ''/''" "\<not> has_prefix p ''//''" "list_all path_char p" "path_clean p = p" "url_segments p = ss"
    by blast+
  show "clean_url_path p = p" using all by (simp add: clean_url_path_def Let_def)
qed

lemma endpoint_URL:
  assumes "base_ok base" "endpoint p ss"
  shows "c_DeltaURL (NewHTTPClient net cd base) p = base @ p"
proof -
  note e = endpoint_facts [OF assms(2)]
  obtain p' where p': "p = CHR ''/'' # p'" using e(1) by (auto simp: has_prefix_iff)
  have c: "c \<notin> {CHR 0x23, CHR ''?'', CHR ''@'', CHR '':''} \<and> 32 \<le> byte_val c \<and> byte_val c \<noteq> 127" if "c \<in> set p" for c
    using that e(3) path_char_plain by (auto simp: list_all_iff)
  have "CHR 0x23 \<notin> set p" "CHR ''?'' \<notin> set p" using c by blast+
  then have b: "before (CHR 0x23) p = p" "before (CHR ''?'') p = p" by (simp_all add: before_fresh)
  have ctl: "\<not> list_ex (\<lambda>c. byte_val c < 32 \<or> byte_val c = 127) p" using c by (fastforce simp: list_ex_iff)
  have "scan_scheme True '''' p = Some ('''', p)"
    by (simp add: p' is_alpha_def is_lower_def is_upper_def is_digit_def less_eq_char_def)
  moreover have "to_lower '''' = ''''" by code_simp
  ultimately have "url_Parse p = Inr \<lparr>u_Scheme = '''', u_Host = '''', u_Path = p\<rparr>"
    using b ctl e(1,2) by (simp add: url_Parse_def)
  then show ?thesis
    using e(1,4) base_trim [OF assms(1)] p'
    by (simp add: NewHTTPClient_def Let_def HTTP_DeltaURL_def join_endpoint_def url_IsAbs_def)
qed

section \<open>What the agent gets\<close>

text \<open>A manifest that is read from JSON is the one that was written, whatever its numbers.\<close>

lemma get_int_omit: "to_lower n = k \<Longrightarrow> get_int (omit_int n i) k = (if int64 i then Some i else None)"
  by (simp add: get_int_def jfields int64_def)

lemma manifest_read: "dec_manifest json_codec (enc_manifest json_codec m) = Some m' \<Longrightarrow> m' = m"
  by (auto simp: json_codec_def manifest_to_json_def manifest_of_json_def get_append get_same(1,3) get_int_omit
      jfield_other jfield_append_None lower_tags split: if_splits)

text \<open>The way of a request through the two muxes.\<close>

lemma rootMux_api:
  fixes s :: "('l, 'z) front_scheme"
  assumes "clean_url_path (hq_Path r) = hq_Path r" "url_segments (hq_Path r) = x # ss" "x \<noteq> ''admin''"
  shows "rootMux d L r s = http_serve (NewHTTPHandler L) r s"
proof -
  have "find_route (RegisterAdminHandlers d L :: ('l, 'z) front_scheme handler routes) m (x # ss) = None" for m
    using assms(3) by (simp add: RegisterAdminHandlers_def admin_endpoints_def)
  with assms(1,2) show ?thesis by (simp add: rootMux_def http_serve_def mux_ServeHTTP_def mux_route_def Let_def)
qed

lemma rootMux_heartbeat:
  "hq_Method r = ''POST'' \<Longrightarrow> hq_Path r = PathHeartbeat \<Longrightarrow> rootMux d L r s = http_heartbeat L r s"
proof -
  assume r: "hq_Method r = ''POST''" "hq_Path r = PathHeartbeat"
  have p: "clean_url_path PathHeartbeat = PathHeartbeat" "url_segments PathHeartbeat = [''heartbeat'']" by code_simp+
  have "NewHTTPHandler L r s = http_heartbeat L r s"
    using r p by (simp add: NewHTTPHandler_def mux_ServeHTTP_def mux_route_def api_routes_def drop_paths routed)
  with rootMux_api [of r "''heartbeat''" "[]" d L s] r p show ?thesis by (simp add: http_serve_def split: prod.split)
qed

lemma rootMux_endpoint:
  assumes "hq_Method r = ''GET''" "hq_Path r = p" "endpoint p ss"
  shows "rootMux d L r s = (case ss of [a, f, t] \<Rightarrow> http_delta f t r s | [a, h] \<Rightarrow> http_binary L h r s | _ \<Rightarrow> (NotFound, s))"
proof -
  note e = endpoint_facts [OF assms(3)]
  have "NewHTTPHandler L r s = (case ss of [a, f, t] \<Rightarrow> http_delta f t r s | [a, h] \<Rightarrow> http_binary L h r s | _ \<Rightarrow> (NotFound, s))"
    using assms e(5,6) IsValidHash_chars(5)
    by (auto simp: endpoint_def NewHTTPHandler_def mux_ServeHTTP_def mux_route_def api_routes_def drop_paths routed)
  moreover obtain x xs where "ss = x # xs" "x \<noteq> ''admin''" using assms(3) by (auto simp: endpoint_def)
  ultimately show ?thesis
    using rootMux_api [of r x xs d L s] assms(1,2) e(5,6) by (simp add: http_serve_def split: prod.split)
qed

lemma heartbeat_wire:
  assumes "base_ok base" "heartbeat_fits hb"
    and "c_Heartbeat (NewHTTPClient (server_net d L cd lag) json_codec base) c (Some hb) w = (Inr resp, w')"
  shows "front_step d L cd (os.more w) (os.more w') \<and> (\<exists>z. Build L None hb (os.more w) = (Inr resp, z))"
proof -
  obtain h where u: "url_Parse (base @ PathHeartbeat) = Inr \<lparr>u_Scheme = ''http'', u_Host = h, u_Path = PathHeartbeat\<rparr>"
    using base_parts [OF assms(1) literal_chars(3)] by (auto simp: PathHeartbeat_def has_prefix_def)
  let ?body = "enc_heartbeat json_codec hb"
  define r where "r = to_request (http_post (base @ PathHeartbeat) ?body) \<lparr>u_Scheme = ''http'', u_Host = h, u_Path = PathHeartbeat\<rparr>"
  have r: "hq_Method r = ''POST''" "hq_Path r = PathHeartbeat" "hq_Body r = ?body" "hq_Ctx r = None"
    by (simp_all add: r_def to_request_def http_post_def)
  obtain rep z where 1: "http_heartbeat L r (os.more w) = (rep, z)" by fastforce
  then have root: "rootMux d L r (os.more w) = (rep, z)" using rootMux_heartbeat [OF r(1,2), of d L "os.more w"] by simp
  have got: "rp_Status rep div 100 = 2" "dec_manifest json_codec (joined (reply_chunks (rp_Body rep))) = Some resp" "os.more w' = z"
    using assms(3) u root
    by (auto simp: NewHTTPClient_def Let_def base_trim [OF assms(1)] HTTP_Heartbeat_def server_net_def serve_http_def
        remote_call_def r_def http_post_def split: if_splits option.splits)
  have "dec_heartbeat json_codec ?body = Some hb" by (rule json.heartbeat_back [OF assms(2)])
  then obtain m z' where m: "Build L None hb (os.more w) = (Inr m, z')" "rep = writeJSON 200 (enc_manifest json_codec m)"
    using 1 got(1) r(3,4)
    by (auto simp: http_heartbeat_def limited_def http_Error_def split: if_splits sum.splits prod.splits)
  then have "resp = m" using got(2) manifest_read by (simp add: writeJSON_def reply_chunks_def)
  moreover have "front_step d L cd (os.more w) (os.more w')" using front_step.http [of d L cd "os.more w" r] root got(3) by simp
  ultimately show ?thesis using m(1) by blast
qed

text \<open>A payload behind an endpoint.\<close>

definition payload_at :: "lib \<Rightarrow> string \<Rightarrow> bytes \<Rightarrow> bool" where
  "payload_at L p d \<longleftrightarrow>
     (\<exists>f t. p = protocol_DeltaPath f t \<and> delta_for L f t d) \<or> (\<exists>h. p = protocol_BinaryPath h \<and> full_for L h d)"

lemma fetch_wire:
  assumes "base_ok base" "endpoint p ss" "0 \<le> off" "int64 off" "server_ok L (os.more w)"
    and "HTTP_FetchRange (server_net d L cd lag) c (base @ p) off w = (Inr ((chunks, e), eff), w')"
  shows "front_step d L cd (os.more w) (os.more w') \<and> e = None \<and>
    (\<exists>pay. payload_at L p pay \<and> (eff = 0 \<or> eff = off) \<and> eff \<le> int (length pay) \<and> chunks = [Raw (drop (nat eff) pay)])"
proof -
  note ep = endpoint_facts [OF assms(2)]
  obtain h where u: "url_Parse (base @ p) = Inr \<lparr>u_Scheme = ''http'', u_Host = h, u_Path = p\<rparr>"
    using base_parts [OF assms(1) ep(3,1)] by blast
  define q where "q = \<lparr>rq_Method = ''GET'', rq_URL = base @ p, rq_Range = (if 0 < off then Some off else None),
    rq_ContentType = '''', rq_Body = Raw []\<rparr>"
  define r where "r = to_request q \<lparr>u_Scheme = ''http'', u_Host = h, u_Path = p\<rparr>"
  have r: "hq_Method r = ''GET''" "hq_Path r = p" "hq_Range r = range_header (if 0 < off then Some off else None)"
    by (simp_all add: r_def to_request_def q_def)
  obtain rep z where root: "rootMux d L r (os.more w) = (rep, z)" by fastforce
  have got: "rp_Status rep = 206 \<and> eff = off \<or> rp_Status rep = 200 \<and> eff = 0" "chunks = reply_chunks (rp_Body rep)" "e = None" "os.more w' = z"
    using assms(6) u root
    by (auto simp: HTTP_FetchRange_def Let_def server_net_def serve_http_def remote_call_def r_def q_def split: if_splits)
  have "\<exists>pay. payload_at L p pay \<and> rep = serve_content (hq_Range r) pay"
    using assms(2) unfolding endpoint_def
  proof (elim disjE exE conjE)
    fix f t assume x: "p = protocol_DeltaPath f t" "ss = [''delta'', f, t]"
    have "http_delta f t r (os.more w) = (rep, z)" using rootMux_endpoint [OF r(1,2) assms(2), of d L "os.more w"] root x(2) by simp
    from http_delta_serves [OF assms(5) this] got(1) x(1) show ?thesis by (auto simp: payload_at_def)
  next
    fix h assume x: "p = protocol_BinaryPath h" "ss = [''binary'', h]"
    have "http_binary L h r (os.more w) = (rep, z)" using rootMux_endpoint [OF r(1,2) assms(2), of d L "os.more w"] root x(2) by simp
    from http_binary_serves [OF assms(5) this] got(1) x(1) show ?thesis by (auto simp: payload_at_def)
  qed
  then obtain pay where pay: "payload_at L p pay" "rep = serve_content (hq_Range r) pay" by blast
  have "(eff = 0 \<or> eff = off) \<and> eff \<le> int (length pay) \<and> chunks = [Raw (drop (nat eff) pay)]"
  proof (cases "0 < off")
    case True
    then show ?thesis using got pay(2) serve_resume [OF True assms(4), of pay] r(3)
      by (auto simp: http_Error_def reply_chunks_def split: if_splits)
  next
    case False
    then show ?thesis using got pay(2) assms(3) r(3) serve_whole [of pay] by (auto simp: reply_chunks_def range_header_def)
  qed
  moreover have "front_step d L cd (os.more w) (os.more w')" using front_step.http [of d L cd "os.more w" r] root got(4) by simp
  ultimately show ?thesis using pay(1) got(3) by blast
qed

section \<open>Properties\<close>



text \<open>An answer of the manifester, for the key and the settings the server was started with.\<close>

lemma answers_trusted:
  assumes "answers L hb a s1 resp" "lib_ok L" "mf_priv s1 = priv"
  shows "resp = no_update (key_string (a_Key a)) \<and> (hbVersionHash hb = a_TargetHash a \<or> \<not> mf_allowFull s1) \<or>
    resp = retry_response a (mf_retryAfter s1) \<and> IsValidHash (hbVersionHash hb) \<or>
    TargetVersion resp = a_Version a \<and> TargetHash resp = a_TargetHash a \<and>
    verify_manifest L (lib_Public L priv) resp = None \<and> transfer_ok L (hbVersionHash hb) resp"
proof -
  have "TargetVersion resp = a_Version a \<and> TargetHash resp = a_TargetHash a \<and>
      verify_manifest L (lib_Public L priv) resp = None \<and> transfer_ok L (hbVersionHash hb) resp"
    if "manifest_for L s1 (key_string (a_Key a)) (a_Version a) (a_TargetHash a) src d resp" "src = '''' \<or> src = hbVersionHash hb" for src d
    using manifest_for_verifies [OF that(1) assms(2)] manifest_for_transfer [OF that(1) assms(2) that(2)] that(1)
    unfolding assms(3) manifest_for_def by blast
  with assms(1) show ?thesis unfolding answers_def by (auto split: if_splits)
qed

text \<open>C17. The heartbeat of the agent, end to end: when the agent's HTTP client, run against the server's
  handlers after any run of the process, returns a manifest, then no byte of meaning was lost on the way
  through the request, the muxes, the body limit and both JSON codecs: the manifest is the server's answer
  for the artifact the heartbeat names as it is at that moment, it is one of the three answers (nothing to
  do, a wait, a signed manifest of the current target), and a signed one passes the agent's own check and
  has a transfer that gives the target. The state the server is left in is again one of a run.\<close>

theorem agent_hears_the_server:
  assumes "lib_ok L" "disk_good L so v" "server_open statfs priv so ro mc v = (None, s)" "targets_ok s"
    and "\<not> is_tmp (ro_StatePath ro)" "\<not> store_path so (ro_StatePath ro)" "front_run d L cd s (os.more w)"
    and "base_ok base" "heartbeat_fits hb"
    and "c_Heartbeat (NewHTTPClient (server_net d L cd lag) json_codec base) c (Some hb) w = (Inr resp, w')"
  shows "front_run d L cd s (os.more w') \<and>
    (\<exists>a. Resolve (hbArtifact hb) (os.more w) = Inr a \<and>
      (resp = no_update (key_string (a_Key a)) \<and> (hbVersionHash hb = a_TargetHash a \<or> \<not> mc_AllowFullDownload mc) \<or>
       resp = retry_response a (mf_retryAfter s) \<and> IsValidHash (hbVersionHash hb) \<or>
       TargetVersion resp = a_Version a \<and> TargetHash resp = a_TargetHash a \<and>
       verify_manifest L (lib_Public L priv) resp = None \<and> transfer_ok L (hbVersionHash hb) resp))"
proof -
  note s = server_open_ok [OF assms(1-6)]
  have z: "server_ok L (os.more w)" "tuned (os.more w) = tuned s" using front_run_ok [OF assms(7) s(1)] by blast+
  have m: "mf_priv (os.more w) = priv" "mf_retryAfter (os.more w) = mf_retryAfter s" "mf_allowFull (os.more w) = mc_AllowFullDownload mc"
    using z(2) s(2,3) by (simp_all add: tuned_def)
  obtain z' where step: "front_step d L cd (os.more w) (os.more w')" and b: "Build L None hb (os.more w) = (Inr resp, z')"
    using heartbeat_wire [OF assms(8-10)] by blast
  obtain a where a: "Resolve (hbArtifact hb) (os.more w) = Inr a" "answers L hb a (os.more w) resp"
    using Build_server [OF b z(1)] by blast
  have "front_run d L cd s (os.more w')" by (rule rtranclp.rtrancl_into_rtrancl [OF assms(7) step])
  moreover note a(1) answers_trusted [OF a(2) assms(1) m(1), unfolded m(2,3)]
  ultimately show ?thesis by (intro conjI exI [of _ a])
qed

text \<open>The store of the sample process with one published artifact, and an agent that cannot name its version.\<close>

definition sample_serving :: "nat front" where
  "sample_serving = snd (PublishBytes front_lib InvalidateArtifact sample_key ''1.0'' ''old'' sample_front)"

definition sample_reader :: "nat front os_scheme" where
  "sample_reader = \<lparr>files = [], undo = [], faults = [], clock = 100, rand = [], hist = [], \<dots> = sample_serving\<rparr>"

definition sample_net_front :: "nat front net" where
  "sample_net_front = server_net sample_admin front_lib json_codec 0"

lemma sample_serving_run: "front_run sample_admin front_lib json_codec sample_front (os.more sample_reader)"
  by (simp add: sample_reader_def sample_serving_def) (intro r_into_rtranclp front_step.alone server_step.publish_bytes)

lemma sample_heard:
  "(case fst (c_Heartbeat (NewHTTPClient sample_net_front json_codec ''http://h'') None (Some lost_heartbeat) sample_reader) of
      Inr m \<Rightarrow> Some (UpdateAvailable m, TargetVersion m, RetryAfter m, BinaryEndpoint m \<noteq> '''') | Inl e \<Rightarrow> None) =
   Some (True, ''1.0'', 0, True)"
  by code_simp

theorem agent_hears_the_server_witness:
  "\<exists>m. fst (c_Heartbeat (NewHTTPClient sample_net_front json_codec ''http://h'') None (Some lost_heartbeat) sample_reader) = Inr m \<and>
     TargetVersion m = ''1.0'' \<and> verify_manifest front_lib (lib_Public front_lib front_key) m = None"
proof -
  let ?c = "c_Heartbeat (NewHTTPClient sample_net_front json_codec ''http://h'') None (Some lost_heartbeat) sample_reader"
  obtain r w' where r: "?c = (r, w')" by fastforce
  with sample_heard obtain m where m: "r = Inr m" "UpdateAvailable m" "TargetVersion m = ''1.0''" "RetryAfter m = 0"
    by (auto split: sum.splits)
  have "base_ok ''http://h''" unfolding base_ok_def
    by (intro exI [of _ "''h''"] conjI) (simp, simp, code_simp, code_simp)
  moreover have "heartbeat_fits lost_heartbeat" by code_simp
  moreover have "mf_retryAfter sample_front = 30" by code_simp
  ultimately show ?thesis
    using agent_hears_the_server [OF front_lib_ok sample_front_open front_open(4,5) sample_serving_run _ _
        r [unfolded sample_net_front_def m(1)]] m r no_update_fields retry_fields
    by (metis fst_conv zero_neq_numeral)
qed

text \<open>C18. The download of the agent, end to end: whatever the agent's HTTP transport gets from the server's
  handlers after any run of the process, for the URL its client makes of the endpoint of a manifest and for
  any offset it resumes at, is honest: the payload behind the endpoint (a delta from and to the digests in
  the path, or the compressed binary with the digest), from the offset the transport reports, in full, and
  that offset is the one asked for or zero. An offset at or past the end is refused, never answered with
  other bytes.\<close>

theorem agent_downloads_honestly:
  assumes "lib_ok L" "disk_good L so v" "server_open statfs priv so ro mc v = (None, s)" "targets_ok s"
    and "\<not> is_tmp (ro_StatePath ro)" "\<not> store_path so (ro_StatePath ro)" "front_run d L cd s (os.more w)"
    and "base_ok base" "endpoint p ss" "0 \<le> off" "int64 off" "net = server_net d L cd lag"
    and "t_FetchRange (HTTPTransport net) c (c_DeltaURL (NewHTTPClient net json_codec base) p) off w = (Inr ((chunks, e), eff), w')"
  shows "front_run d L cd s (os.more w') \<and> e = None \<and>
    (\<exists>pay. payload_at L p pay \<and> (eff = 0 \<or> eff = off) \<and> eff \<le> int (length pay) \<and> chunks = [Raw (drop (nat eff) pay)])"
proof -
  have z: "server_ok L (os.more w)" using front_run_ok [OF assms(7) server_open_ok(1) [OF assms(1-6)]] by blast
  have "HTTP_FetchRange (server_net d L cd lag) c (base @ p) off w = (Inr ((chunks, e), eff), w')"
    using assms(12,13) endpoint_URL [OF assms(8,9), of net json_codec] by (simp add: HTTPTransport_def)
  note f = fetch_wire [OF assms(8-11) z this]
  have "front_run d L cd s (os.more w')" by (rule rtranclp.rtrancl_into_rtrancl [OF assms(7)]) (use f in blast)
  with f show ?thesis by blast
qed

definition sample_endpoint :: string where
  "sample_endpoint = protocol_BinaryPath (sha256HexBytes front_lib ''old'')"

lemma sample_fetched:
  "(case fst (t_FetchRange (HTTPTransport sample_net_front) None
        (c_DeltaURL (NewHTTPClient sample_net_front json_codec ''http://h'') sample_endpoint) 1 sample_reader) of
      Inr ((chunks, e), eff) \<Rightarrow> Some (length chunks, eff) | Inl e \<Rightarrow> None) = Some (1, 1)"
  by code_simp

theorem agent_downloads_honestly_witness:
  "\<exists>pay. payload_at front_lib sample_endpoint pay \<and>
     fst (t_FetchRange (HTTPTransport sample_net_front) None
        (c_DeltaURL (NewHTTPClient sample_net_front json_codec ''http://h'') sample_endpoint) 1 sample_reader) =
     Inr (([Raw (drop 1 pay)], None), 1)"
proof -
  let ?t = "t_FetchRange (HTTPTransport sample_net_front) None
        (c_DeltaURL (NewHTTPClient sample_net_front json_codec ''http://h'') sample_endpoint) 1 sample_reader"
  obtain r w' where r: "?t = (r, w')" by fastforce
  with sample_fetched obtain chunks e where e: "r = Inr ((chunks, e), 1)" by (auto split: sum.splits)
  have "base_ok ''http://h''" unfolding base_ok_def
    by (intro exI [of _ "''h''"] conjI) (simp, simp, code_simp, code_simp)
  moreover have "IsValidHash (sha256HexBytes front_lib ''old'')" by code_simp
  then have "endpoint sample_endpoint [''binary'', sha256HexBytes front_lib ''old'']"
    by (auto simp: endpoint_def sample_endpoint_def)
  moreover have "int64 1" by code_simp
  ultimately show ?thesis
    using agent_downloads_honestly [OF front_lib_ok sample_front_open front_open(4,5) sample_serving_run _ _ _ _
        sample_net_front_def r [unfolded e]] r e by auto
qed

end
