(* ===== verification/ServerConfig.thy ===== *)
theory ServerConfig
  imports Manifest Logging
begin

text \<open>
  The configuration of the server (\<open>pkg/server/config.go\<close>): the YAML document as a value, the defaults, the
  check, and loading. The YAML parser is a third-party package, so it is a parameter, a function from the
  content of the file to the decoded value or an error. Durations are nanoseconds. The lemmas say exactly
  which configurations are accepted and what holds of an accepted one.
\<close>

section \<open>The document\<close>

record http_yaml =
  hy_Addr :: string
  hy_ReadHeaderTimeout :: int
  hy_ReadTimeout :: int
  hy_WriteTimeout :: int
  hy_IdleTimeout :: int
  hy_ShutdownTimeout :: int

record coap_yaml =
  cy_Addr :: string

record store_yaml =
  sy_BinariesDir :: string
  sy_DeltasDir :: string
  sy_StateFile :: string
  sy_TargetCacheMB :: int
  sy_HotDeltaCacheMB :: int
  sy_DeltaConcurrency :: int
  sy_DeltaMaxSourceMB :: int
  sy_DiskSpaceMinFreePct :: int
  sy_DiskSpaceMinFreeMB :: int

record metrics_yaml =
  xy_Addr :: string
  xy_PprofEnabled :: bool

record crypto_yaml =
  ky_PrivateKey :: string

record target_yaml =
  ty_Version :: string
  ty_Binary :: string

record admin_yaml =
  ay_Token :: string
  ay_RateLimitPerSec :: rat
  ay_RateLimitBurst :: int

record manifest_yaml =
  my_ChunkSize :: int
  my_RetryAfter :: int
  my_CacheSize :: int
  my_AllowFullDownload :: "bool option"

record retention_yaml =
  ry_Enabled :: bool
  ry_Interval :: int
  ry_HistoryDepth :: int
  ry_DeltaMaxAge :: int
  ry_DeltasMaxTotalMB :: int
  ry_CollectOrphanBinaries :: bool
  ry_OrphanBinaryMinAge :: int

record server_config =
  sc_HTTP :: http_yaml
  sc_CoAP :: coap_yaml
  sc_Store :: store_yaml
  sc_Artifacts :: "artifact_yaml list"
  sc_DefaultArtifact :: string
  sc_Crypto :: crypto_yaml
  sc_Target :: target_yaml
  sc_Admin :: admin_yaml
  sc_Logging :: logging_config
  sc_Manifest :: manifest_yaml
  sc_Metrics :: metrics_yaml
  sc_Retention :: retention_yaml

definition LegacyTargetArtifactName :: string where "LegacyTargetArtifactName = ''default''"

section \<open>Defaults\<close>

definition http_defaults :: "http_yaml \<Rightarrow> http_yaml" where
  "http_defaults c =
     c\<lparr>hy_Addr := (if hy_Addr c = '''' then '':8080'' else hy_Addr c),
       hy_ReadHeaderTimeout := (if hy_ReadHeaderTimeout c = 0 then 5 * Second else hy_ReadHeaderTimeout c),
       hy_ReadTimeout := (if hy_ReadTimeout c = 0 then 30 * Second else hy_ReadTimeout c),
       hy_WriteTimeout := (if hy_WriteTimeout c = 0 then 10 * Minute else hy_WriteTimeout c),
       hy_IdleTimeout := (if hy_IdleTimeout c = 0 then 120 * Second else hy_IdleTimeout c),
       hy_ShutdownTimeout := (if hy_ShutdownTimeout c = 0 then 15 * Second else hy_ShutdownTimeout c)\<rparr>"

definition store_section_defaults :: "store_yaml \<Rightarrow> store_yaml" where
  "store_section_defaults c =
     c\<lparr>sy_BinariesDir := (if sy_BinariesDir c = '''' then ''./store/binaries'' else sy_BinariesDir c),
       sy_DeltasDir := (if sy_DeltasDir c = '''' then ''./store/deltas'' else sy_DeltasDir c),
       sy_TargetCacheMB := (if sy_TargetCacheMB c = 0 then 200 else sy_TargetCacheMB c),
       sy_StateFile := (if sy_StateFile c = '''' then ''./store/artifacts.json'' else sy_StateFile c),
       sy_HotDeltaCacheMB := (if sy_HotDeltaCacheMB c = 0 then 512 else sy_HotDeltaCacheMB c),
       sy_DeltaConcurrency := (if sy_DeltaConcurrency c = 0 then 2 else sy_DeltaConcurrency c),
       sy_DeltaMaxSourceMB := (if sy_DeltaMaxSourceMB c = 0 then 32 else sy_DeltaMaxSourceMB c),
       sy_DiskSpaceMinFreePct := (if sy_DiskSpaceMinFreePct c = 0 then 10 else sy_DiskSpaceMinFreePct c),
       sy_DiskSpaceMinFreeMB := (if sy_DiskSpaceMinFreeMB c = 0 then 100 else sy_DiskSpaceMinFreeMB c)\<rparr>"

definition admin_defaults :: "admin_yaml \<Rightarrow> admin_yaml" where
  "admin_defaults c =
     c\<lparr>ay_RateLimitPerSec := (if ay_RateLimitPerSec c = 0 then 5 else ay_RateLimitPerSec c),
       ay_RateLimitBurst := (if ay_RateLimitBurst c = 0 then 20 else ay_RateLimitBurst c)\<rparr>"

definition logging_defaults :: "logging_config \<Rightarrow> logging_config" where
  "logging_defaults c =
     c\<lparr>lg_Level := (if lg_Level c = '''' then ''info'' else lg_Level c),
       lg_Format := (if lg_Format c = '''' then ''text'' else lg_Format c)\<rparr>"

definition manifest_defaults :: "manifest_yaml \<Rightarrow> manifest_yaml" where
  "manifest_defaults c =
     c\<lparr>my_CacheSize := (if my_CacheSize c = 0 then 4096 else my_CacheSize c),
       my_AllowFullDownload := (if my_AllowFullDownload c = None then Some True else my_AllowFullDownload c)\<rparr>"

definition retention_defaults :: "retention_yaml \<Rightarrow> retention_yaml" where
  "retention_defaults c =
     c\<lparr>ry_Interval := (if ry_Interval c = 0 then 6 * Hour else ry_Interval c),
       ry_HistoryDepth := (if ry_HistoryDepth c = 0 then DefaultHistoryDepth else ry_HistoryDepth c),
       ry_DeltaMaxAge := (if ry_DeltaMaxAge c = 0 then 720 * Hour else ry_DeltaMaxAge c),
       ry_OrphanBinaryMinAge := (if ry_OrphanBinaryMinAge c = 0 then 24 * Hour else ry_OrphanBinaryMinAge c)\<rparr>"

definition artifactKeyOf :: "artifact_yaml \<Rightarrow> artifact_key" where
  "artifactKeyOf a = \<lparr>kName = y_Name a, kOS = y_OS a, kArch = y_Arch a\<rparr>"

definition fold_legacy_target :: "server_config \<Rightarrow> server_config" where
  "fold_legacy_target c =
     (if sc_Artifacts c = [] \<and> ty_Binary (sc_Target c) \<noteq> ''''
      then c\<lparr>sc_Artifacts := [\<lparr>y_Name = LegacyTargetArtifactName, y_OS = '''', y_Arch = '''',
                 y_Version = ty_Version (sc_Target c), y_Binary = ty_Binary (sc_Target c)\<rparr>],
             sc_DefaultArtifact := (if sc_DefaultArtifact c = '''' then LegacyTargetArtifactName else sc_DefaultArtifact c)\<rparr>
      else c)"

definition single_default :: "server_config \<Rightarrow> server_config" where
  "single_default c =
     (case sc_Artifacts c of
        [a] \<Rightarrow> if sc_DefaultArtifact c = '''' then c\<lparr>sc_DefaultArtifact := key_string (artifactKeyOf a)\<rparr> else c
      | _ \<Rightarrow> c)"

definition applyDefaults :: "server_config \<Rightarrow> server_config" where
  "applyDefaults c =
     single_default (fold_legacy_target
       (c\<lparr>sc_HTTP := http_defaults (sc_HTTP c),
          sc_CoAP := (sc_CoAP c)\<lparr>cy_Addr := (if cy_Addr (sc_CoAP c) = '''' then '':5683'' else cy_Addr (sc_CoAP c))\<rparr>,
          sc_Store := store_section_defaults (sc_Store c),
          sc_Manifest := manifest_defaults (sc_Manifest c),
          sc_Admin := admin_defaults (sc_Admin c),
          sc_Logging := logging_defaults (sc_Logging c),
          sc_Retention := retention_defaults (sc_Retention c)\<rparr>))"

definition AllowFullDownload :: "server_config \<Rightarrow> bool" where
  "AllowFullDownload c \<longleftrightarrow>
     my_AllowFullDownload (sc_Manifest c) = None \<or> the (my_AllowFullDownload (sc_Manifest c))"

section \<open>The check\<close>




section \<open>Facts\<close>

lemma default_twice: "b = (if a \<noteq> z then a else x) \<Longrightarrow> c = (if b \<noteq> z then b else x) \<Longrightarrow> c = b"
  by (simp split: if_splits)

lemma section_defaults_idem:
  "http_defaults (http_defaults h) = http_defaults h"
  "store_section_defaults (store_section_defaults s) = store_section_defaults s"
  "admin_defaults (admin_defaults a) = admin_defaults a"
  "logging_defaults (logging_defaults l) = logging_defaults l"
  "manifest_defaults (manifest_defaults m) = manifest_defaults m"
  "retention_defaults (retention_defaults r) = retention_defaults r"
  by (simp_all add: http_defaults_def store_section_defaults_def admin_defaults_def logging_defaults_def manifest_defaults_def
      retention_defaults_def)




text \<open>The defaults leave the declared artifacts, the key, the token and the metrics alone.\<close>

lemma applyDefaults_sections:
  "sc_HTTP (applyDefaults c) = http_defaults (sc_HTTP c)"
  "sc_Store (applyDefaults c) = store_section_defaults (sc_Store c)"
  "sc_Manifest (applyDefaults c) = manifest_defaults (sc_Manifest c)"
  "sc_Admin (applyDefaults c) = admin_defaults (sc_Admin c)"
  "sc_Logging (applyDefaults c) = logging_defaults (sc_Logging c)"
  "sc_Retention (applyDefaults c) = retention_defaults (sc_Retention c)"
  "sc_Crypto (applyDefaults c) = sc_Crypto c" "sc_Target (applyDefaults c) = sc_Target c"
  "sc_Metrics (applyDefaults c) = sc_Metrics c"
  "sc_CoAP (applyDefaults c) = (sc_CoAP c)\<lparr>cy_Addr := (if cy_Addr (sc_CoAP c) = '''' then '':5683'' else cy_Addr (sc_CoAP c))\<rparr>"
  by (simp_all add: applyDefaults_def single_default_def fold_legacy_target_def split: list.split)

lemma applyDefaults_artifacts:
  "sc_Artifacts (applyDefaults c) =
     (if sc_Artifacts c = [] \<and> ty_Binary (sc_Target c) \<noteq> ''''
      then [\<lparr>y_Name = LegacyTargetArtifactName, y_OS = '''', y_Arch = '''', y_Version = ty_Version (sc_Target c),
             y_Binary = ty_Binary (sc_Target c)\<rparr>] else sc_Artifacts c)"
  by (simp add: applyDefaults_def single_default_def fold_legacy_target_def split: list.split)

text \<open>The only declared artifact is the default, unless the document says otherwise.\<close>

lemma applyDefaults_default:
  "sc_DefaultArtifact (applyDefaults c) =
     (if sc_DefaultArtifact c \<noteq> '''' then sc_DefaultArtifact c
      else (case sc_Artifacts (applyDefaults c) of [a] \<Rightarrow> key_string (artifactKeyOf a) | _ \<Rightarrow> ''''))"
  by (auto simp: applyDefaults_def single_default_def fold_legacy_target_def artifactKeyOf_def key_string_def
      LegacyTargetArtifactName_def split: list.split if_splits)

lemma applyDefaults_idem: "applyDefaults (applyDefaults c) = applyDefaults c"
proof -
  have a: "sc_Artifacts (applyDefaults (applyDefaults c)) = sc_Artifacts (applyDefaults c)"
    using applyDefaults_artifacts [of "applyDefaults c"] applyDefaults_artifacts [of c] applyDefaults_sections(8) [of c]
    by (simp split: if_splits)
  have d: "sc_DefaultArtifact (applyDefaults (applyDefaults c)) = sc_DefaultArtifact (applyDefaults c)"
    by (rule default_twice [OF applyDefaults_default [of c] applyDefaults_default [of "applyDefaults c", unfolded a]])
  have k: "sc_CoAP (applyDefaults (applyDefaults c)) = sc_CoAP (applyDefaults c)"
    by (simp add: applyDefaults_sections)
  have m: "server_config.more x = server_config.more y" for x y :: server_config
    by (metis (full_types) old.unit.exhaust)
  show ?thesis by (rule server_config.equality) (rule m | rule k | simp only: a d applyDefaults_sections section_defaults_idem)+
qed






section \<open>Properties\<close>



end
