(* ===== verification/Keys.thy ===== *)
theory Keys
  imports Crypto Os
begin

text \<open>
  The PEM files of the keys: \<open>LoadPrivateKey\<close> and \<open>EncodePrivateKeyPEM\<close> (\<open>pkg/crypto/signer.go\<close>),
  \<open>LoadPublicKey\<close> and \<open>EncodePublicKeyPEM\<close> (\<open>pkg/crypto/verifier.go\<close>). The encodings themselves are
  \<open>encoding/pem\<close> and \<open>crypto/x509\<close> of the standard library, the record \<open>key_format\<close>; \<open>key_format_ok\<close>
  says that what they write they read back, and that an Ed25519 key they read has its size.
\<close>

section \<open>The formats\<close>

record pem_block =
  pb_Type :: string
  pb_Bytes :: bytes

datatype any_key = Ed25519 bytes | OtherKey

record key_format =
  pem_Decode :: "content \<Rightarrow> pem_block option"
  pem_EncodeToMemory :: "pem_block \<Rightarrow> bytes"
  x509_ParsePKCS8PrivateKey :: "bytes \<Rightarrow> err + any_key"
  x509_ParsePKIXPublicKey :: "bytes \<Rightarrow> err + any_key"
  x509_MarshalPKCS8PrivateKey :: "bytes \<Rightarrow> err + bytes"
  x509_MarshalPKIXPublicKey :: "bytes \<Rightarrow> err + bytes"

definition key_format_ok :: "key_format \<Rightarrow> bool" where
  "key_format_ok F \<longleftrightarrow>
     (\<forall>b. pem_Decode F (Raw (pem_EncodeToMemory F b)) = Some b) \<and>
     (\<forall>k d. x509_MarshalPKCS8PrivateKey F k = Inr d \<longrightarrow> x509_ParsePKCS8PrivateKey F d = Inr (Ed25519 k)) \<and>
     (\<forall>k d. x509_MarshalPKIXPublicKey F k = Inr d \<longrightarrow> x509_ParsePKIXPublicKey F d = Inr (Ed25519 k)) \<and>
     (\<forall>d k. x509_ParsePKCS8PrivateKey F d = Inr (Ed25519 k) \<longrightarrow> length k = PrivateKeySize) \<and>
     (\<forall>d k. x509_ParsePKIXPublicKey F d = Inr (Ed25519 k) \<longrightarrow> length k = PublicKeySize)"

section \<open>Private keys\<close>

definition privateKeyPEMType :: string where "privateKeyPEMType = ''PRIVATE KEY''"

definition LoadPrivateKey :: "key_format \<Rightarrow> string \<Rightarrow> 'z os_scheme \<Rightarrow> (err + bytes) \<times> 'z os_scheme" where
  "LoadPrivateKey F path w =
     (case os_ReadFile path w of
        (Inl e, w) \<Rightarrow> (Inl (Wrap ''read private key'' e), w)
      | (Inr data, w) \<Rightarrow>
          (case pem_Decode F data of
             None \<Rightarrow> (Inl (Msg ''decode private key PEM: no block found''), w)
           | Some block \<Rightarrow>
               if pb_Type block \<noteq> privateKeyPEMType then (Inl (Msg ''decode private key PEM: unexpected type''), w)
               else
                 (case x509_ParsePKCS8PrivateKey F (pb_Bytes block) of
                    Inl e \<Rightarrow> (Inl (Wrap ''parse PKCS8 private key'' e), w)
                  | Inr OtherKey \<Rightarrow> (Inl (Msg ''unexpected private key type''), w)
                  | Inr (Ed25519 priv) \<Rightarrow> (Inr priv, w))))"

definition EncodePrivateKeyPEM :: "key_format \<Rightarrow> bytes \<Rightarrow> err + bytes" where
  "EncodePrivateKeyPEM F priv =
     (case x509_MarshalPKCS8PrivateKey F priv of
        Inl e \<Rightarrow> Inl (Wrap ''marshal PKCS8 private key'' e)
      | Inr der \<Rightarrow> Inr (pem_EncodeToMemory F \<lparr>pb_Type = privateKeyPEMType, pb_Bytes = der\<rparr>))"

section \<open>Public keys\<close>

definition publicKeyPEMType :: string where "publicKeyPEMType = ''PUBLIC KEY''"

definition LoadPublicKey :: "key_format \<Rightarrow> string \<Rightarrow> 'z os_scheme \<Rightarrow> (err + bytes) \<times> 'z os_scheme" where
  "LoadPublicKey F path w =
     (case os_ReadFile path w of
        (Inl e, w) \<Rightarrow> (Inl (Wrap ''read public key'' e), w)
      | (Inr data, w) \<Rightarrow>
          (case pem_Decode F data of
             None \<Rightarrow> (Inl (Msg ''decode public key PEM: no block found''), w)
           | Some block \<Rightarrow>
               if pb_Type block \<noteq> publicKeyPEMType then (Inl (Msg ''decode public key PEM: unexpected type''), w)
               else
                 (case x509_ParsePKIXPublicKey F (pb_Bytes block) of
                    Inl e \<Rightarrow> (Inl (Wrap ''parse PKIX public key'' e), w)
                  | Inr OtherKey \<Rightarrow> (Inl (Msg ''unexpected public key type''), w)
                  | Inr (Ed25519 pub) \<Rightarrow> (Inr pub, w))))"

definition EncodePublicKeyPEM :: "key_format \<Rightarrow> bytes \<Rightarrow> err + bytes" where
  "EncodePublicKeyPEM F pub =
     (case x509_MarshalPKIXPublicKey F pub of
        Inl e \<Rightarrow> Inl (Wrap ''marshal PKIX public key'' e)
      | Inr der \<Rightarrow> Inr (pem_EncodeToMemory F \<lparr>pb_Type = publicKeyPEMType, pb_Bytes = der\<rparr>))"

section \<open>Facts\<close>

lemma load_key_frame:
  "LoadPrivateKey F path w = (r, w') \<Longrightarrow> same_disk w w' \<and> same_rest w w'"
  "LoadPublicKey F path w = (r, w') \<Longrightarrow> same_disk w w' \<and> same_rest w w'"
  by (auto simp: LoadPrivateKey_def LoadPublicKey_def split: prod.splits sum.splits option.splits any_key.splits if_splits
      dest: os_reads(3))

lemma loaded_key_size:
  "key_format_ok F \<Longrightarrow> LoadPrivateKey F path w = (Inr k, w') \<Longrightarrow> length k = PrivateKeySize"
  "key_format_ok F \<Longrightarrow> LoadPublicKey F path w = (Inr k, w') \<Longrightarrow> length k = PublicKeySize"
  by (auto simp: LoadPrivateKey_def LoadPublicKey_def key_format_ok_def
      split: prod.splits sum.splits option.splits any_key.splits if_splits)

text \<open>A key that was written is the key that is read; the file of one half is not taken for the other.\<close>

lemma key_files_roundtrip:
  assumes "key_format_ok F"
  shows "EncodePrivateKeyPEM F k = Inr pem \<Longrightarrow> os_ReadFile path w = (Inr (Raw pem), w') \<Longrightarrow>
      LoadPrivateKey F path w = (Inr k, w') \<and> LoadPublicKey F path w = (Inl (Msg ''decode public key PEM: unexpected type''), w')"
    and "EncodePublicKeyPEM F k = Inr pem \<Longrightarrow> os_ReadFile path w = (Inr (Raw pem), w') \<Longrightarrow>
      LoadPublicKey F path w = (Inr k, w') \<and> LoadPrivateKey F path w = (Inl (Msg ''decode private key PEM: unexpected type''), w')"
  using assms
  by (auto simp: key_format_ok_def EncodePrivateKeyPEM_def EncodePublicKeyPEM_def LoadPrivateKey_def LoadPublicKey_def
      privateKeyPEMType_def publicKeyPEMType_def split: sum.splits)

text \<open>Formats for the witnesses.\<close>

definition sample_format :: key_format where
  "sample_format =
     \<lparr>pem_Decode = (\<lambda>c. case c of
          Raw b \<Rightarrow>
            (let n = length (takeWhile (\<lambda>x. x = CHR ''-'') b)
             in if n < length b then Some \<lparr>pb_Type = take n (drop (n + 1) b), pb_Bytes = drop (2 * n + 1) b\<rparr> else None)
        | Json j \<Rightarrow> None),
      pem_EncodeToMemory = (\<lambda>b. replicate (length (pb_Type b)) (CHR ''-'') @ CHR ''|'' # pb_Type b @ pb_Bytes b),
      x509_ParsePKCS8PrivateKey = (\<lambda>d. if length d = PrivateKeySize then Inr (Ed25519 d) else Inl EINVAL),
      x509_ParsePKIXPublicKey = (\<lambda>d. if length d = PublicKeySize then Inr (Ed25519 d) else Inl EINVAL),
      x509_MarshalPKCS8PrivateKey = (\<lambda>k. if length k = PrivateKeySize then Inr k else Inl EINVAL),
      x509_MarshalPKIXPublicKey = (\<lambda>k. if length k = PublicKeySize then Inr k else Inl EINVAL)\<rparr>"

lemma sample_format_ok: "key_format_ok sample_format"
proof -
  have "takeWhile (\<lambda>x. x = CHR ''-'') (replicate n (CHR ''-'') @ CHR ''|'' # r) = replicate n (CHR ''-'')" for n r
    by (induction n) auto
  then show ?thesis by (auto simp: key_format_ok_def sample_format_def Let_def split: if_splits)
qed

end
