(* ===== verification/Watcher.thy ===== *)
theory Watcher
  imports Os
begin

text \<open>
  The watcher of \<open>pkg/server/watcher.go\<close>: a loop over events of the file system that calls \<open>onChange\<close> once a
  burst of changes of one file is over. The select of the loop is a function of the branch that is taken;
  which branch is ready is up to fsnotify, the context and the clock, so a run of the loop is a list of
  branches, with the steps of the rest of the process in between. A timer is the moment it fires at (the
  timers of Go 1.23 and later deliver nothing after \<open>Stop\<close> or \<open>Reset\<close>; the module asks for 1.25). Events are
  third-party values: a name and the operations that happened. The labels of a run say when a change was
  seen and when \<open>onChange\<close> was called.
\<close>

section \<open>Definitions\<close>

definition DefaultWatcherDebounce :: int where "DefaultWatcherDebounce = 500 * 1000000"

record watcher =
  wt_path :: string
  wt_debounce :: int

definition NewWatcher :: "string \<Rightarrow> int \<Rightarrow> watcher" where
  "NewWatcher path debounce =
     \<lparr>wt_path = path, wt_debounce = (if debounce = 0 then DefaultWatcherDebounce else debounce)\<rparr>"

datatype fs_op = FsCreate | FsWrite | FsRemove | FsRename | FsChmod

record fs_event =
  ev_Name :: string
  ev_Op :: "fs_op list"

text \<open>The variables of \<open>Run\<close>; \<open>wg_done\<close> holds what it returned.\<close>

record 'z watching =
  wg_timer :: "int option"
  wg_pending :: bool
  wg_done :: "err option option"
  wg_world :: "'z os_scheme"

datatype 'w branch = CtxDone | Events "fs_event option" | TimerC | Errors "err option" | Elsewhere 'w

datatype watch_label = Seen int | Called int

text \<open>The start of \<open>Run\<close>: a notifier, and a watch on the directory of the file.\<close>

definition watcher_Run ::
  "err option \<Rightarrow> (string \<Rightarrow> err option) \<Rightarrow> watcher \<Rightarrow> 'z os_scheme \<Rightarrow> 'z watching" where
  "watcher_Run fsnotify_New fw_Add w s =
     (case fsnotify_New of
        Some e \<Rightarrow> \<lparr>wg_timer = None, wg_pending = False, wg_done = Some (Some (Wrap ''fsnotify'' e)), wg_world = s\<rparr>
      | None \<Rightarrow>
          (case fw_Add (path_dir (wt_path w)) of
             Some e \<Rightarrow> \<lparr>wg_timer = None, wg_pending = False, wg_done = Some (Some (Wrap ''watch dir'' e)), wg_world = s\<rparr>
           | None \<Rightarrow> \<lparr>wg_timer = None, wg_pending = False, wg_done = None, wg_world = s\<rparr>))"

definition timerChan :: "int option \<Rightarrow> int \<Rightarrow> bool" where
  "timerChan t now = (case t of None \<Rightarrow> False | Some d \<Rightarrow> d \<le> now)"

definition relevant :: "watcher \<Rightarrow> fs_event \<Rightarrow> bool" where
  "relevant w ev \<longleftrightarrow>
     path_base (ev_Name ev) = path_base (wt_path w) \<and> list_ex (\<lambda>op. op \<in> {FsWrite, FsCreate, FsRename}) (ev_Op ev)"

text \<open>One turn of the loop with the branch that the select takes; \<open>None\<close> when that branch is not ready.\<close>

fun watch_select ::
  "watcher \<Rightarrow> ('z os_scheme \<Rightarrow> 'z os_scheme) \<Rightarrow> 'z os_scheme branch \<Rightarrow> 'z watching \<Rightarrow> ('z watching \<times> watch_label list) option" where
  "watch_select w onChange CtxDone st =
     (if wg_done st \<noteq> None then None
      else Some (st\<lparr>wg_timer := None, wg_done := Some None\<rparr>, []))"
| "watch_select w onChange (Events None) st =
     (if wg_done st \<noteq> None then None
      else Some (st\<lparr>wg_timer := None, wg_done := Some None\<rparr>, []))"
| "watch_select w onChange (Events (Some ev)) st =
     (if wg_done st \<noteq> None then None
      else if \<not> relevant w ev then Some (st, [])
      else Some (st\<lparr>wg_pending := True, wg_timer := Some (clock (wg_world st) + wt_debounce w)\<rparr>, [Seen (clock (wg_world st))]))"
| "watch_select w onChange TimerC st =
     (if wg_done st \<noteq> None \<or> \<not> timerChan (wg_timer st) (clock (wg_world st)) then None
      else if wg_pending st
      then Some (st\<lparr>wg_pending := False, wg_world := onChange (wg_world st), wg_timer := None\<rparr>, [Called (clock (wg_world st))])
      else Some (st\<lparr>wg_timer := None\<rparr>, []))"
| "watch_select w onChange (Errors None) st =
     (if wg_done st \<noteq> None then None
      else Some (st\<lparr>wg_timer := None, wg_done := Some None\<rparr>, []))"
| "watch_select w onChange (Errors (Some e)) st = (if wg_done st \<noteq> None then None else Some (st, []))"
| "watch_select w onChange (Elsewhere s) st =
     (if clock s < clock (wg_world st) then None else Some (st\<lparr>wg_world := s\<rparr>, []))"

fun watch_run ::
  "watcher \<Rightarrow> ('z os_scheme \<Rightarrow> 'z os_scheme) \<Rightarrow> 'z os_scheme branch list \<Rightarrow> 'z watching \<Rightarrow> ('z watching \<times> watch_label list) option" where
  "watch_run w onChange [] st = Some (st, [])"
| "watch_run w onChange (b # bs) st =
     (case watch_select w onChange b st of
        None \<Rightarrow> None
      | Some (st, ls) \<Rightarrow>
          (case watch_run w onChange bs st of None \<Rightarrow> None | Some (st, ms) \<Rightarrow> Some (st, ls @ ms)))"

fun_cases watch_selectE: "watch_select w oc b st = Some (st', ls)"

section \<open>Bursts\<close>

text \<open>The reference: a call answers the change right before it, and not sooner than the window after it.\<close>

fun quiet_calls :: "int \<Rightarrow> int option \<Rightarrow> watch_label list \<Rightarrow> bool" where
  "quiet_calls d prev [] = True"
| "quiet_calls d prev (Seen t # ls) = quiet_calls d (Some t) ls"
| "quiet_calls d prev (Called t # ls) = ((case prev of None \<Rightarrow> False | Some e \<Rightarrow> e + d \<le> t) \<and> quiet_calls d None ls)"

text \<open>The change that is not answered yet.\<close>

fun open_change :: "int option \<Rightarrow> watch_label list \<Rightarrow> int option" where
  "open_change prev [] = prev"
| "open_change prev (Seen t # ls) = open_change (Some t) ls"
| "open_change prev (Called t # ls) = open_change None ls"

definition tracks :: "watcher \<Rightarrow> int option \<Rightarrow> 'z watching \<Rightarrow> bool" where
  "tracks w prev st \<longleftrightarrow> wg_done st = None \<longrightarrow>
     wg_pending st = (prev \<noteq> None) \<and> wg_timer st = map_option (\<lambda>e. e + wt_debounce w) prev"

lemma quiet_calls_append:
  "quiet_calls d prev (ls @ ms) \<longleftrightarrow> quiet_calls d prev ls \<and> quiet_calls d (open_change prev ls) ms"
  by (induction d prev ls rule: quiet_calls.induct) auto

lemma open_change_append: "open_change prev (ls @ ms) = open_change (open_change prev ls) ms"
  by (induction prev ls rule: open_change.induct) auto

lemma select_tracks:
  assumes "watch_select w oc b st = Some (st', ls)" "tracks w prev st"
  shows "tracks w (open_change prev ls) st' \<and> quiet_calls (wt_debounce w) prev ls"
  using assms
  by (auto elim!: watch_selectE simp: tracks_def timerChan_def split: if_splits option.splits)

lemma run_tracks:
  "watch_run w oc bs st = Some (st', ls) \<Longrightarrow> tracks w prev st \<Longrightarrow>
   tracks w (open_change prev ls) st' \<and> quiet_calls (wt_debounce w) prev ls"
proof (induction bs arbitrary: st ls prev)
  case (Cons b bs)
  then obtain st1 l1 l2 where 1: "watch_select w oc b st = Some (st1, l1)" and
    2: "watch_run w oc bs st1 = Some (st', l2)" "ls = l1 @ l2"
    by (auto split: option.splits prod.splits)
  from select_tracks [OF 1 Cons.prems(2)] Cons.IH [OF 2(1), of "open_change prev l1"] 2(2)
  show ?case by (simp add: quiet_calls_append open_change_append)
qed (simp add: tracks_def)

text \<open>A loop that has returned calls nothing any more.\<close>

lemma stopped_run:
  "watch_run w oc bs st = Some (st', ls) \<Longrightarrow> wg_done st = Some e \<Longrightarrow> ls = [] \<and> wg_done st' = Some e"
proof (induction bs arbitrary: st ls)
  case (Cons b bs)
  then obtain st1 l1 l2 where 1: "watch_select w oc b st = Some (st1, l1)" and
    2: "watch_run w oc bs st1 = Some (st', l2)" "ls = l1 @ l2"
    by (auto split: option.splits prod.splits)
  have "l1 = [] \<and> wg_done st1 = Some e" using 1 Cons.prems(2) by (auto elim!: watch_selectE split: if_splits)
  with Cons.IH [OF 2(1)] 2(2) show ?case by simp
qed simp

text \<open>Whatever the calls and the rest of the process keep, the run keeps.\<close>

locale watched =
  fixes keep :: "'z os_scheme \<Rightarrow> 'z os_scheme \<Rightarrow> bool" and oc :: "'z os_scheme \<Rightarrow> 'z os_scheme"
  assumes keep_refl: "keep s s"
    and keep_trans: "keep s1 s2 \<Longrightarrow> keep s2 s3 \<Longrightarrow> keep s1 s3"
    and keep_call: "keep s (oc s)"
begin

text \<open>The worlds the rest of the process moves to are reachable from the one before.\<close>

fun elsewhere_keeps :: "watcher \<Rightarrow> 'z os_scheme branch list \<Rightarrow> 'z watching \<Rightarrow> bool" where
  "elsewhere_keeps w [] st = True"
| "elsewhere_keeps w (b # bs) st =
     ((case b of Elsewhere s \<Rightarrow> keep (wg_world st) s | _ \<Rightarrow> True) \<and>
      (case watch_select w oc b st of None \<Rightarrow> True | Some (st, ls) \<Rightarrow> elsewhere_keeps w bs st))"

lemma run_keeps:
  "watch_run w oc bs st = Some (st', ls) \<Longrightarrow> elsewhere_keeps w bs st \<Longrightarrow> keep (wg_world st) (wg_world st')"
proof (induction bs arbitrary: st ls)
  case (Cons b bs)
  then obtain st1 l1 l2 where 1: "watch_select w oc b st = Some (st1, l1)" and
    2: "watch_run w oc bs st1 = Some (st', l2)"
    by (auto split: option.splits prod.splits)
  have "keep (wg_world st) (wg_world st1)"
    using 1 Cons.prems(2) keep_refl keep_call by (auto elim!: watch_selectE split: if_splits)
  then show ?case using Cons.IH [OF 2] Cons.prems(2) 1 keep_trans by auto
qed (simp add: keep_refl)

end

section \<open>Properties\<close>

text \<open>C23. The watcher answers each burst of changes once. In every run of its loop, whatever events arrive and
  however the rest of the process moves on, each call of \<open>onChange\<close> answers a change seen since the call
  before, and comes no sooner than the window after the last of them. A change that is not answered yet
  keeps the timer armed for the end of its window, and from then on the loop is ready to call once, on the
  state of that moment, and to be idle after. A loop that has returned calls nothing.\<close>

theorem watcher_answers_bursts:
  assumes "watch_run w oc bs (watcher_Run None (\<lambda>d. None) w s) = Some (st, ls)"
  shows "quiet_calls (wt_debounce w) None ls \<and>
    (\<forall>e v. open_change None ls = Some e \<and> wg_done st = None \<and> clock (wg_world st) \<le> clock v \<and> e + wt_debounce w \<le> clock v \<longrightarrow>
       watch_run w oc [Elsewhere v, TimerC] st =
         Some (st\<lparr>wg_pending := False, wg_timer := None, wg_world := oc v\<rparr>, [Called (clock v)])) \<and>
    (open_change None ls = None \<or> wg_done st \<noteq> None \<longrightarrow> watch_select w oc TimerC st = None) \<and>
    (\<forall>bs' st' ms. wg_done st \<noteq> None \<and> watch_run w oc bs' st = Some (st', ms) \<longrightarrow> ms = [])"
proof -
  have "tracks w None (watcher_Run None (\<lambda>d. None) w s)" by (simp add: tracks_def watcher_Run_def)
  from run_tracks [OF assms this] have t: "tracks w (open_change None ls) st" "quiet_calls (wt_debounce w) None ls" by blast+
  moreover have "watch_select w oc TimerC st = None" if "open_change None ls = None \<or> wg_done st \<noteq> None"
    using that t(1) by (auto simp: tracks_def timerChan_def)
  moreover have "ms = []" if "wg_done st \<noteq> None" "watch_run w oc bs' st = Some (st', ms)" for bs' st' ms
    using stopped_run [OF that(2)] that(1) by auto
  moreover have "watch_run w oc [Elsewhere v, TimerC] st =
         Some (st\<lparr>wg_pending := False, wg_timer := None, wg_world := oc v\<rparr>, [Called (clock v)])"
    if "open_change None ls = Some e" "wg_done st = None" "clock (wg_world st) \<le> clock v" "e + wt_debounce w \<le> clock v" for e v
    using that t(1) by (simp add: tracks_def timerChan_def)
  ultimately show ?thesis by blast
qed

definition sample_watcher :: watcher where
  "sample_watcher = NewWatcher ''/d/t'' 0"

definition watch_world :: "int \<Rightarrow> nat os_scheme" where
  "watch_world t = \<lparr>files = [], undo = [], faults = [], clock = t, rand = [], hist = [], \<dots> = 0\<rparr>"

definition sample_burst :: "nat os_scheme branch list" where
  "sample_burst = [Events (Some \<lparr>ev_Name = ''/d/t'', ev_Op = [FsCreate]\<rparr>), Elsewhere (watch_world 400000000),
     Events (Some \<lparr>ev_Name = ''/d/t'', ev_Op = [FsWrite]\<rparr>), Elsewhere (watch_world 800000000),
     Events (Some \<lparr>ev_Name = ''/d/t'', ev_Op = [FsChmod]\<rparr>), Elsewhere (watch_world 900000000), TimerC]"

theorem watcher_answers_bursts_witness:
  "\<exists>st. watch_run sample_watcher (\<lambda>s. os.more_update Suc s) sample_burst (watcher_Run None (\<lambda>d. None) sample_watcher (watch_world 0)) =
     Some (st, [Seen 0, Seen 400000000, Called 900000000]) \<and>
     quiet_calls (wt_debounce sample_watcher) None [Seen 0, Seen 400000000, Called 900000000] \<and>
     watch_select sample_watcher (\<lambda>s. os.more_update Suc s) TimerC st = None"
proof -
  let ?r = "watch_run sample_watcher (\<lambda>s. os.more_update Suc s) sample_burst (watcher_Run None (\<lambda>d. None) sample_watcher (watch_world 0))"
  have "map_option snd ?r = Some [Seen 0, Seen 400000000, Called 900000000]" by code_simp
  then obtain st where r: "?r = Some (st, [Seen 0, Seen 400000000, Called 900000000])" by auto
  from watcher_answers_bursts [OF r] r show ?thesis by auto
qed

end
