(* ===== verification/ServerMain.thy ===== *)
theory ServerMain
  imports ServerConfig Front Keys Watcher
begin

text \<open>
  The start of the server, \<open>run\<close> in \<open>cmd/update-server/main.go\<close>: from the path of the configuration to the
  process that serves, with its watchers and its sweeper. Sockets, signals and the shutdown are left out:
  a listener hands requests to \<open>rootMux\<close> or \<open>NewCoAPRouter\<close>, and from there on the process is a run of
  \<open>front_step\<close>. The lemmas show what a server that started serves, and that a watcher that runs beside it is
  part of such a run.
\<close>

section \<open>From the configuration to the parts\<close>







section \<open>run\<close>



text \<open>One watcher per artifact that has a file, and what it calls.\<close>

definition watchers :: "'z registry_scheme \<Rightarrow> (artifact_key \<times> watcher) list" where
  "watchers s = map (\<lambda>(key, path). (key, NewWatcher path DefaultWatcherDebounce)) (WatchedSources s)"

definition auto_reload :: "lib \<Rightarrow> artifact_key \<Rightarrow> 'z manifester_scheme \<Rightarrow> 'z manifester_scheme" where
  "auto_reload L key s = snd (Republish L InvalidateArtifact key s)"

interpretation reload: watched "server_run L" "auto_reload L key"
  for L :: lib and key :: artifact_key
  by unfold_locales (auto simp: auto_reload_def intro: server_step.republish)

section \<open>What the start publishes\<close>







lemma install_limiter_fields [simp]:
  "rg_artifacts (install_limiter d s) = rg_artifacts s" "rg_default (install_limiter d s) = rg_default s"
  "tuned (install_limiter d s) = tuned s"
  by (simp_all add: install_limiter_def)





text \<open>A watcher beside the server: what it calls, and when, is part of a run of the server.\<close>

lemma reload_run_ok:
  assumes "watch_run w (auto_reload L key) bs (watcher_Run None (\<lambda>d. None) w s) = Some (st, ls)"
    and "reload.elsewhere_keeps L key w bs (watcher_Run None (\<lambda>d. None) w s)" "server_ok L s"
  shows "server_run L s (wg_world st) \<and> server_ok L (wg_world st)"
  using reload.run_keeps [OF assms(1,2)] server_run_ok assms(3) by (auto simp: watcher_Run_def)

section \<open>Properties\<close>









end
