(* ===== verification/AgentConfig.thy ===== *)
theory AgentConfig
  imports Client Policy Logging Complex_Main
begin

text \<open>
  The configuration of the agent (\<open>pkg/agent/config.go\<close>): the YAML document as a value, the defaults, the
  check, and loading. The YAML parser is a third-party package, so it is a parameter, a function from the
  content of the file to the decoded value or an error. Durations are nanoseconds, and the jitter is a
  rational number (a NaN is not a value of the model). The lemmas say exactly which configurations are
  accepted and what holds of an accepted one.
\<close>

section \<open>The document\<close>

definition TransportCoAP :: string where "TransportCoAP = ''coap''"
definition TransportHTTP :: string where "TransportHTTP = ''http''"

record coap_client_config =
  kc_BlockSize :: int
  kc_ACKTimeout :: int
  kc_MaxRetransmits :: int
  kc_Keepalive :: int
  kc_DialTimeout :: int

record server_section =
  se_HTTPURL :: string
  se_CoAPURL :: string
  se_Transport :: string
  se_Fallback :: bool
  se_CoAP :: coap_client_config

record device_section =
  dv_ID :: string
  dv_Artifact :: string
  dv_SlotsDir :: string
  dv_ActiveSymlink :: string
  dv_DiskSpaceMinFreePct :: int
  dv_DiskSpaceMinFreeMB :: int

record update_section =
  up_CheckInterval :: int
  up_Jitter :: "rat option"
  up_ChunkSize :: int
  up_MaxRetries :: int
  up_RetryBackoff :: int
  up_WatchdogTimeout :: int
  up_AutoUpdate :: "bool option"
  up_MaxBump :: string
  up_UnknownVersionPolicy :: string
  up_RestartFailureCooldown :: int

record crypto_section =
  kp_PublicKey :: string

record agent_config =
  ac_Server :: server_section
  ac_Device :: device_section
  ac_Update :: update_section
  ac_Crypto :: crypto_section
  ac_Logging :: logging_config

section \<open>Defaults\<close>

definition coap_client_defaults :: "coap_client_config \<Rightarrow> coap_client_config" where
  "coap_client_defaults c =
     c\<lparr>kc_BlockSize := (if kc_BlockSize c = 0 then 512 else kc_BlockSize c),
       kc_ACKTimeout := (if kc_ACKTimeout c = 0 then 60 * Second else kc_ACKTimeout c),
       kc_MaxRetransmits := (if kc_MaxRetransmits c = 0 then 4 else kc_MaxRetransmits c),
       kc_Keepalive := (if kc_Keepalive c = 0 then 2 * Minute else kc_Keepalive c)\<rparr>"

definition server_section_defaults :: "server_section \<Rightarrow> server_section" where
  "server_section_defaults c =
     c\<lparr>se_Transport := (if se_Transport c = '''' then TransportCoAP else se_Transport c),
       se_CoAP := coap_client_defaults (se_CoAP c)\<rparr>"

definition update_defaults :: "update_section \<Rightarrow> update_section" where
  "update_defaults c =
     c\<lparr>up_CheckInterval := (if up_CheckInterval c = 0 then Hour else up_CheckInterval c),
       up_ChunkSize := (if up_ChunkSize c = 0 then 4096 else up_ChunkSize c),
       up_MaxRetries := (if up_MaxRetries c = 0 then 10 else up_MaxRetries c),
       up_RetryBackoff := (if up_RetryBackoff c = 0 then 30 * Second else up_RetryBackoff c),
       up_WatchdogTimeout := (if up_WatchdogTimeout c = 0 then 60 * Second else up_WatchdogTimeout c),
       up_Jitter := (if up_Jitter c = None then Some (3 / 10) else up_Jitter c),
       up_AutoUpdate := (if up_AutoUpdate c = None then Some True else up_AutoUpdate c),
       up_MaxBump := (if up_MaxBump c = '''' then ''major'' else up_MaxBump c),
       up_UnknownVersionPolicy := (if up_UnknownVersionPolicy c = '''' then ''deny'' else up_UnknownVersionPolicy c),
       up_RestartFailureCooldown := (if up_RestartFailureCooldown c = 0 then Hour else up_RestartFailureCooldown c)\<rparr>"

definition device_defaults :: "device_section \<Rightarrow> device_section" where
  "device_defaults c =
     c\<lparr>dv_DiskSpaceMinFreePct := (if dv_DiskSpaceMinFreePct c = 0 then 10 else dv_DiskSpaceMinFreePct c),
       dv_DiskSpaceMinFreeMB := (if dv_DiskSpaceMinFreeMB c = 0 then 100 else dv_DiskSpaceMinFreeMB c)\<rparr>"

definition agent_logging_defaults :: "logging_config \<Rightarrow> logging_config" where
  "agent_logging_defaults c =
     c\<lparr>lg_Level := (if lg_Level c = '''' then ''info'' else lg_Level c),
       lg_Format := (if lg_Format c = '''' then ''text'' else lg_Format c)\<rparr>"

definition ApplyDefaults :: "agent_config \<Rightarrow> agent_config" where
  "ApplyDefaults c =
     c\<lparr>ac_Server := server_section_defaults (ac_Server c), ac_Device := device_defaults (ac_Device c),
       ac_Update := update_defaults (ac_Update c), ac_Logging := agent_logging_defaults (ac_Logging c)\<rparr>"

section \<open>The check\<close>

definition validateURL :: "string \<Rightarrow> string list \<Rightarrow> err option" where
  "validateURL raw allowedSchemes =
     (if raw = '''' then Some (Msg ''required'')
      else
        (case url_Parse raw of
           Inl e \<Rightarrow> Some (Wrap ''parse'' e)
         | Inr u \<Rightarrow>
             if u_Host u = '''' then Some (Msg ''missing host'')
             else if list_ex (\<lambda>prefix. has_prefix raw prefix) allowedSchemes then None
             else Some (Msg ''unsupported scheme'')))"

definition validCoAPBlockSize :: "int \<Rightarrow> bool" where
  "validCoAPBlockSize n \<longleftrightarrow> (if n < 16 \<or> n > 1024 then False else and n (n - 1) = 0)"

definition coap_url_error :: "server_section \<Rightarrow> err option" where
  "coap_url_error s = validateURL (se_CoAPURL s) [''coap://'']"

definition http_url_error :: "server_section \<Rightarrow> err option" where
  "http_url_error s = validateURL (se_HTTPURL s) [''http://'', ''https://'']"

definition fallback_error :: "server_section \<Rightarrow> err option" where
  "fallback_error s =
     (if se_Fallback s then
        (if se_Transport s = TransportCoAP then http_url_error s
         else if se_Transport s = TransportHTTP then coap_url_error s
         else None)
      else None)"

definition agent_Validate :: "agent_config \<Rightarrow> err option" where
  "agent_Validate c =
     (let s = ac_Server c; d = ac_Device c; u = ac_Update c
      in if se_Transport s \<noteq> TransportCoAP \<and> se_Transport s \<noteq> TransportHTTP then Some (Msg ''server.transport: unknown'')
         else if coap_url_error s \<noteq> None \<and> se_Transport s = TransportCoAP
         then Some (Wrap ''server.coap_url'' (the (coap_url_error s)))
         else if http_url_error s \<noteq> None \<and> se_Transport s = TransportHTTP
         then Some (Wrap ''server.http_url'' (the (http_url_error s)))
         else if fallback_error s \<noteq> None then Some (Wrap ''server url (fallback)'' (the (fallback_error s)))
         else if \<not> validCoAPBlockSize (kc_BlockSize (se_CoAP s)) then Some (Msg ''server.coap.block_size: not a power of two in [16, 1024]'')
         else if trim_space (dv_ID d) = '''' then Some (Msg ''device.id is required'')
         else if dv_SlotsDir d = '''' then Some (Msg ''device.slots_dir is required'')
         else if dv_ActiveSymlink d = '''' then Some (Msg ''device.active_symlink is required'')
         else if kp_PublicKey (ac_Crypto c) = '''' then Some (Msg ''crypto.public_key is required'')
         else if up_ChunkSize u \<le> 0 then Some (Msg ''update.chunk_size must be positive'')
         else if (case up_Jitter u of None \<Rightarrow> False | Some j \<Rightarrow> j < 0 \<or> j > 1) then Some (Msg ''update.jitter: out of range [0, 1]'')
         else if ParseMaxBump (up_MaxBump u) = None then Some (Msg ''update.max_bump: unknown'')
         else if ParseUnknownVersionPolicy (up_UnknownVersionPolicy u) = None then Some (Msg ''update.unknown_version_policy: unknown'')
         else if \<not> isKnownLogLevel (lg_Level (ac_Logging c)) then Some (Msg ''logging.level: unknown'')
         else None)"

definition agent_LoadConfig ::
  "(content \<Rightarrow> err + agent_config) \<Rightarrow> string \<Rightarrow> 'z os_scheme \<Rightarrow> (err + agent_config) \<times> 'z os_scheme" where
  "agent_LoadConfig yaml_Unmarshal path w =
     (case os_ReadFile path w of
        (Inl e, w) \<Rightarrow> (Inl (Wrap ''read agent config'' e), w)
      | (Inr data, w) \<Rightarrow>
          (case yaml_Unmarshal data of
             Inl e \<Rightarrow> (Inl (Wrap ''parse agent config'' e), w)
           | Inr cfg \<Rightarrow>
               (let cfg = ApplyDefaults cfg
                in case agent_Validate cfg of
                     Some e \<Rightarrow> (Inl e, w)
                   | None \<Rightarrow> (Inr cfg, w))))"

section \<open>Facts\<close>

lemma ApplyDefaults_idem: "ApplyDefaults (ApplyDefaults c) = ApplyDefaults c"
  by (simp add: ApplyDefaults_def server_section_defaults_def coap_client_defaults_def update_defaults_def
      device_defaults_def agent_logging_defaults_def)

text \<open>The block sizes the check lets through are the ones the dialer knows.\<close>

lemma and_half: "1 < n \<Longrightarrow> and n (n - 1) = 0 \<longleftrightarrow> even n \<and> and (n div 2) (n div 2 - 1) = (0 :: int)"
proof (cases "even n")
  case True
  then obtain m where m: "n = 2 * m" by (elim evenE)
  have "(2 * m - 1) div 2 = m - 1" "odd (2 * m - 1)" by presburger+
  then have "and n (n - 1) = 2 * and m (m - 1)" using and_rec [of n "n - 1"] by (simp add: m)
  with m show ?thesis by simp
next
  case False
  moreover assume "1 < n"
  moreover obtain m where m: "n = 2 * m + 1" using False by (elim oddE)
  ultimately show ?thesis using and_rec [of n "n - 1"] by (simp add: m)
qed

lemma power_of_two_steps: "n \<in> {1..2 ^ k} \<Longrightarrow> and n (n - 1) = 0 \<longleftrightarrow> (\<exists>i \<le> k. n = (2 :: int) ^ i)"
proof (induction k arbitrary: n)
  case (Suc k)
  show ?case
  proof (cases "n = 1")
    case False
    then have n: "1 < n" using Suc.prems by auto
    show ?thesis
    proof (cases "even n")
      case True
      then obtain m where m: "n = 2 * m" by (elim evenE)
      then have "m \<in> {1..2 ^ k}" using Suc.prems by auto
      from Suc.IH [OF this] have "and n (n - 1) = 0 \<longleftrightarrow> (\<exists>i \<le> k. m = 2 ^ i)" using and_half [OF n] m by simp
      also have "\<dots> \<longleftrightarrow> (\<exists>i \<le> Suc k. n = 2 ^ i)"
      proof
        assume "\<exists>i \<le> Suc k. n = 2 ^ i"
        then obtain i where i: "i \<le> Suc k" "n = 2 ^ i" by blast
        with n obtain j where "i = Suc j" by (cases i) auto
        with i m show "\<exists>i \<le> k. m = 2 ^ i" by auto
      qed (auto simp: m intro: exI [of _ "Suc _"])
      finally show ?thesis .
    next
      case odd: False
      then have "n \<noteq> 2 ^ i" for i using n by (cases i) auto
      with odd and_half [OF n] show ?thesis by simp
    qed
  qed (auto intro: exI [of _ 0])
qed (auto intro: exI [of _ 0])

lemma validCoAPBlockSize_iff: "validCoAPBlockSize n \<longleftrightarrow> blockSZX n \<noteq> None"
proof (cases "n \<in> {16..1024}")
  case True
  then have "and n (n - 1) = 0 \<longleftrightarrow> (\<exists>i \<le> 10. n = 2 ^ i)" using power_of_two_steps [of n 10] by simp
  also have "\<dots> \<longleftrightarrow> n \<in> {16, 32, 64, 128, 256, 512, 1024}"
  proof
    assume "\<exists>i \<le> 10. n = 2 ^ i"
    then obtain i :: nat where i: "i \<le> 10" "n = 2 ^ i" by blast
    have "i = 0 \<or> i = 1 \<or> i = 2 \<or> i = 3 \<or> i = 4 \<or> i = 5 \<or> i = 6 \<or> i = 7 \<or> i = 8 \<or> i = 9 \<or> i = 10"
      using i(1) by presburger
    with i(2) True show "n \<in> {16, 32, 64, 128, 256, 512, 1024}" by auto
  next
    assume "n \<in> {16, 32, 64, 128, 256, 512, 1024}"
    then have "n \<in> (^) 2 ` {4, 5, 6, 7, 8, 9, 10 :: nat}" by simp
    then obtain i :: nat where "i \<in> {4, 5, 6, 7, 8, 9, 10}" "n = 2 ^ i" by blast
    then show "\<exists>i \<le> 10. n = 2 ^ i" by (intro exI [of _ i]) auto
  qed
  finally show ?thesis using True by (auto simp: validCoAPBlockSize_def blockSZX_def)
next
  case False
  then show ?thesis by (auto simp: validCoAPBlockSize_def blockSZX_def)
qed

definition url_ok :: "string \<Rightarrow> string list \<Rightarrow> bool" where
  "url_ok raw schemes \<longleftrightarrow>
     (\<exists>u. url_Parse raw = Inr u \<and> u_Host u \<noteq> '''') \<and> list_ex (\<lambda>p. has_prefix raw p) schemes"

lemma validateURL_iff: "validateURL raw schemes = None \<longleftrightarrow> raw \<noteq> '''' \<and> url_ok raw schemes"
  by (auto simp: validateURL_def url_ok_def split: sum.splits)

definition agent_config_ok :: "agent_config \<Rightarrow> bool" where
  "agent_config_ok c \<longleftrightarrow>
     (let s = ac_Server c; d = ac_Device c; u = ac_Update c
      in (se_Transport s = TransportCoAP \<and> url_ok (se_CoAPURL s) [''coap://''] \<and>
            (se_Fallback s \<longrightarrow> url_ok (se_HTTPURL s) [''http://'', ''https://'']) \<or>
          se_Transport s = TransportHTTP \<and> url_ok (se_HTTPURL s) [''http://'', ''https://''] \<and>
            (se_Fallback s \<longrightarrow> url_ok (se_CoAPURL s) [''coap://''])) \<and>
         blockSZX (kc_BlockSize (se_CoAP s)) \<noteq> None \<and>
         trim_space (dv_ID d) \<noteq> '''' \<and> dv_SlotsDir d \<noteq> '''' \<and> dv_ActiveSymlink d \<noteq> '''' \<and>
         kp_PublicKey (ac_Crypto c) \<noteq> '''' \<and> 0 < up_ChunkSize u \<and>
         (\<forall>j \<in> set_option (up_Jitter u). 0 \<le> j \<and> j \<le> 1) \<and>
         ParseMaxBump (up_MaxBump u) \<noteq> None \<and> ParseUnknownVersionPolicy (up_UnknownVersionPolicy u) \<noteq> None \<and>
         isKnownLogLevel (lg_Level (ac_Logging c)))"

lemma url_ok_not_empty: "url_ok raw schemes \<Longrightarrow> '''' \<notin> set schemes \<Longrightarrow> raw \<noteq> ''''"
  by (auto simp: url_ok_def list_ex_iff has_prefix_def)

lemma agent_Validate_iff: "agent_Validate c = None \<longleftrightarrow> agent_config_ok c"
proof -
  have u: "validateURL raw [''coap://''] = None \<longleftrightarrow> url_ok raw [''coap://'']"
    "validateURL raw [''http://'', ''https://''] = None \<longleftrightarrow> url_ok raw [''http://'', ''https://'']" for raw
    using url_ok_not_empty [of raw "[''coap://'']"] url_ok_not_empty [of raw "[''http://'', ''https://'']"]
    by (auto simp: validateURL_iff)
  have t: "TransportCoAP \<noteq> TransportHTTP" by (simp add: TransportCoAP_def TransportHTTP_def)
  have e: "coap_url_error s = None \<longleftrightarrow> url_ok (se_CoAPURL s) [''coap://'']"
    "http_url_error s = None \<longleftrightarrow> url_ok (se_HTTPURL s) [''http://'', ''https://'']" for s
    using u by (simp_all add: coap_url_error_def http_url_error_def)
  have j: "(case x of None \<Rightarrow> False | Some j \<Rightarrow> j < 0 \<or> j > 1) \<longleftrightarrow> \<not> (\<forall>j \<in> set_option x. 0 \<le> j \<and> j \<le> 1)" for x :: "rat option"
    by (cases x) auto
  have f: "fallback_error s = None \<longleftrightarrow>
      (se_Fallback s \<longrightarrow> (se_Transport s = TransportCoAP \<longrightarrow> url_ok (se_HTTPURL s) [''http://'', ''https://'']) \<and>
         (se_Transport s = TransportHTTP \<longrightarrow> url_ok (se_CoAPURL s) [''coap://'']))" for s
    using t by (simp add: fallback_error_def e)
  have i: "((if P then Some x else y) = None) \<longleftrightarrow> \<not> P \<and> y = None" for P and x :: err and y by simp
  note chain = agent_Validate_def agent_config_ok_def Let_def i e f j validCoAPBlockSize_iff not_le not_not de_Morgan_conj de_Morgan_disj
  consider "se_Transport (ac_Server c) = TransportCoAP" | "se_Transport (ac_Server c) = TransportHTTP"
    | "se_Transport (ac_Server c) \<noteq> TransportCoAP" "se_Transport (ac_Server c) \<noteq> TransportHTTP" by blast
  then show ?thesis
    by cases (simp_all only: chain t t [symmetric] simp_thms conj_assoc)
qed

end
