(* ===== verification/Keygen.thy ===== *)
theory Keygen
  imports Keys Store
begin

text \<open>
  The key generator (\<open>tools/keygen/main.go\<close>): \<open>run\<close> and \<open>writeFile\<close>. \<open>ed25519.GenerateKey\<close> is the
  argument \<open>gen\<close>: an error, or the two halves of a pair.
\<close>

section \<open>The program\<close>

text \<open>\<open>os.OpenFile\<close> with \<open>O_CREATE\<close> and \<open>O_EXCL\<close>: the name must not be taken, not even by a link.\<close>

definition os_OpenExcl :: "string \<Rightarrow> nat \<Rightarrow> 'z os_scheme \<Rightarrow> err option \<times> 'z os_scheme" where
  "os_OpenExcl p mode = syscall Some (\<lambda>w.
     (if map_of (files w) p \<noteq> None then (Some EEXIST, w)
      else if is_dir w (path_dir p) then (None, link_at p (EFile (Raw []) mode (clock w) False) w)
      else (Some ENOENT, w)))"

definition keygen_writeFile :: "string \<Rightarrow> bytes \<Rightarrow> nat \<Rightarrow> 'z os_scheme \<Rightarrow> err option \<times> 'z os_scheme" where
  "keygen_writeFile path data mode w =
     (case os_OpenExcl path mode w of
        (Some e, w) \<Rightarrow> (Some e, w)
      | (None, w) \<Rightarrow>
          (case os_Write path (Raw data) w of
             (r, w) \<Rightarrow> (r, snd (os_Close w))))"

definition keygen_run ::
  "key_format \<Rightarrow> err + bytes \<times> bytes \<Rightarrow> string \<Rightarrow> 'z os_scheme \<Rightarrow> err option \<times> 'z os_scheme" where
  "keygen_run F gen outDir w =
     (case os_MkdirAll outDir w of
        (Some e, w) \<Rightarrow> (Some (Wrap ''create output dir'' e), w)
      | (None, w) \<Rightarrow>
     (case gen of
        Inl e \<Rightarrow> (Some (Wrap ''generate ed25519 keypair'' e), w)
      | Inr (pub, priv) \<Rightarrow>
     (case EncodePrivateKeyPEM F priv of
        Inl e \<Rightarrow> (Some e, w)
      | Inr privPEM \<Rightarrow>
     (case EncodePublicKeyPEM F pub of
        Inl e \<Rightarrow> (Some e, w)
      | Inr pubPEM \<Rightarrow>
          (let privPath = path_join outDir ''server.key''; pubPath = path_join outDir ''agent.pub''
           in case keygen_writeFile privPath privPEM 384 w of
                (Some e, w) \<Rightarrow> (Some (Wrap ''write private key'' e), w)
              | (None, w) \<Rightarrow>
                  (case keygen_writeFile pubPath pubPEM 420 w of
                     (Some e, w) \<Rightarrow> (Some (Wrap ''write public key'' e), w)
                   | (None, w) \<Rightarrow> (None, w)))))))"

section \<open>Existing files stay\<close>

definition spares :: "'z os_scheme \<Rightarrow> 'z os_scheme \<Rightarrow> bool" where
  "spares w w' \<longleftrightarrow> map_of (files w) \<subseteq>\<^sub>m map_of (files w')"

lemma spares_refl [simp]: "spares w w"
  by (simp add: spares_def)

lemma spares_trans: "spares w1 w2 \<Longrightarrow> spares w2 w3 \<Longrightarrow> spares w1 w3"
  unfolding spares_def by (rule map_le_trans)

lemma spares_read: "same_disk w w' \<and> same_rest w w' \<Longrightarrow> spares w w'"
  by (simp add: spares_def same_disk_def)

lemma os_Mkdir_spares: "os_Mkdir p w = (r, w') \<Longrightarrow> spares w w'"
  by (auto simp: os_Mkdir_def syscall_def spares_def map_le_def dom_def split: option.splits if_splits)

lemma mkdir_all_spares: "mkdir_all n p w = (r, w') \<Longrightarrow> spares w w'"
proof (induction n arbitrary: p w r w')
  case (Suc n)
  obtain r1 w1 where 1: "os_Stat p w = (r1, w1)" by fastforce
  obtain r2 w2 where 2: "(if path_dir p = p then (None, w1) else mkdir_all n (path_dir p) w1) = (r2, w2)" by fastforce
  obtain r3 w3 where 3: "os_Mkdir p w2 = (r3, w3)" by fastforce
  obtain r4 w4 where 4: "os_Lstat p w3 = (r4, w4)" by fastforce
  have s1: "spares w w1" by (rule spares_read [OF os_reads(1) [OF 1]])
  have "spares w1 w2" using 2 Suc.IH [of "path_dir p" w1 r2 w2] by (auto split: if_splits)
  note s2 = spares_trans [OF s1 this]
  note s3 = spares_trans [OF s2 os_Mkdir_spares [OF 3]]
  note s4 = spares_trans [OF s3 spares_read [OF os_reads(2) [OF 4]]]
  have "w' \<in> {w1, w2, w3, w4}"
    using Suc.prems 1 2 3 4 by (auto split: sum.splits ent.splits option.splits if_splits)
  with s1 s2 s3 s4 show ?case by blast
qed simp

lemma keygen_writeFile_spec:
  assumes "keygen_writeFile p data mode w = (r, w')"
  shows "spares w w'"
    and "r = None \<Longrightarrow> map_of (files w) p = None \<and>
      (\<exists>t. map_of (files w') p = Some (EFile (Raw data) mode t False))"
  using assms
  by (auto simp: keygen_writeFile_def os_OpenExcl_def os_Write_def os_Close_def syscall_def do_append_def
      append_content_def cut_content_def spares_def map_le_def dom_def inode_at_def
      split: option.splits if_splits prod.splits)

section \<open>The pair works\<close>

text \<open>Whatever happens, no entry that was there is changed or removed: a key is never overwritten.\<close>

lemma keygen_spares:
  assumes "keygen_run F gen d w = (r, w')"
  shows "spares w w'"
proof -
  obtain r1 w1 where 1: "os_MkdirAll d w = (r1, w1)" by fastforce
  have s1: "spares w w1" using mkdir_all_spares 1 unfolding os_MkdirAll_def by blast
  have "spares w1 w'"
    using assms 1 by (auto simp: keygen_run_def Let_def split: option.splits prod.splits sum.splits
        dest!: keygen_writeFile_spec(1) intro: spares_trans)
  with s1 show ?thesis by (rule spares_trans)
qed

text \<open>
  When the generator succeeds, the two files load as the two halves of the pair, and what the server
  signs with the one the agent accepts with the other.
\<close>

lemma keygen_pair_works:
  assumes "lib_ok L" "key_format_ok F" "length priv = PrivateKeySize" "d \<noteq> ''''"
    and "keygen_run F (Inr (lib_Public L priv, priv)) d w = (None, w')" "faults w' = []"
  shows "fst (LoadPrivateKey F (path_join d ''server.key'') w') = Inr priv"
    and "fst (LoadPublicKey F (path_join d ''agent.pub'') w') = Inr (lib_Public L priv)"
    and "\<exists>sig. crypto_Sign L priv m = Inr sig \<and> crypto_Verify L (lib_Public L priv) m sig = None"
proof -
  let ?k = "path_join d ''server.key''" and ?p = "path_join d ''agent.pub''"
  obtain pk pp w1 w2 where e: "EncodePrivateKeyPEM F priv = Inr pk" "EncodePublicKeyPEM F (lib_Public L priv) = Inr pp"
    and w: "keygen_writeFile ?k pk 384 w1 = (None, w2)" "keygen_writeFile ?p pp 420 w2 = (None, w')"
    using assms(5) by (auto simp: keygen_run_def Let_def split: option.splits prod.splits sum.splits)
  obtain t where "map_of (files w2) ?k = Some (EFile (Raw pk) 384 t False)" using keygen_writeFile_spec(2) [OF w(1)] by auto
  then have k: "map_of (files w') ?k = Some (EFile (Raw pk) 384 t False)"
    using keygen_writeFile_spec(1) [OF w(2)] by (auto simp: spares_def map_le_def dom_def)
  obtain u where p: "map_of (files w') ?p = Some (EFile (Raw pp) 420 u False)" using keygen_writeFile_spec(2) [OF w(2)] by auto
  have rd: "os_ReadFile q w' = (Inr c, tick w')" if "map_of (files w') q = Some (EFile c n t s)" for q c n t s
    using that assms(6) by (simp add: os_ReadFile_def syscall_def fault_def)
  show "fst (LoadPrivateKey F ?k w') = Inr priv"
    using key_files_roundtrip(1) [OF assms(2) e(1) rd [OF k]] by simp
  show "fst (LoadPublicKey F ?p w') = Inr (lib_Public L priv)"
    using key_files_roundtrip(2) [OF assms(2) e(2) rd [OF p]] by simp
  show "\<exists>sig. crypto_Sign L priv m = Inr sig \<and> crypto_Verify L (lib_Public L priv) m sig = None"
    using sign_verify [OF assms(1), of priv m] assms(3) by (simp add: crypto_Sign_def)
qed

text \<open>
  A public key that is in the way leaves the new private key behind: the run fails with the private half
  of a pair whose public half nobody has, and a later run fails on that file.
\<close>

lemma keygen_leaves_half_a_pair:
  assumes "map_of (files w) d = Some EDir" "path_clean d = d" "d \<noteq> ''''" "faults w = []"
    and "map_of (files w) (path_join d ''server.key'') = None" "map_of (files w) (path_join d ''agent.pub'') = Some e"
    and "EncodePrivateKeyPEM F priv = Inr pk" "EncodePublicKeyPEM F pub = Inr pp"
  shows "fst (keygen_run F (Inr (pub, priv)) d w) = Some (Wrap ''write public key'' EEXIST) \<and>
    map_of (files (snd (keygen_run F (Inr (pub, priv)) d w))) (path_join d ''server.key'') =
      Some (EFile (Raw pk) 384 (clock w) False) \<and>
    map_of (files (snd (keygen_run F (Inr (pub, priv)) d w))) (path_join d ''agent.pub'') = Some e"
proof -
  have seg: "path_seg ''server.key''" "path_seg ''agent.pub''" by (code_simp, code_simp)
  then have ne: "path_join d ''server.key'' \<noteq> path_join d ''agent.pub''" using path_join_inj [OF assms(3)] by fastforce
  have dd: "path_dir (path_join d ''server.key'') = d" using assms(2,3) seg(1) by (simp add: go_path)
  have m: "os_MkdirAll d w = (None, tick w)"
    using assms(1,2,4) by (simp add: os_MkdirAll_def os_Stat_def syscall_def fault_def)
  show ?thesis
    using assms m ne dd by (auto simp: keygen_run_def Let_def keygen_writeFile_def os_OpenExcl_def os_Write_def
        os_Close_def syscall_def fault_def do_append_def append_content_def tick_def is_dir_def)
qed

end
